(* ===== verification/Go_Prelude.thy ===== *)
theory Go_Prelude
  imports Main "HOL-Library.Word" "HOL-Library.Signed_Division"
begin

text \<open>
  The prelude of the development: what the components share of the Go language and its
  standard library, and the generic lemmas about it.

  \<^item> machine integers as words of their width, bytes, big-endian codecs
    (\<^verbatim>\<open>encoding/binary\<close>), byte buffers written at an offset (\<^verbatim>\<open>copy\<close>, slices);
  \<^item> error values: sentinel errors by identity, wrapping by \<^verbatim>\<open>fmt.Errorf("%w")\<close>,
    \<^verbatim>\<open>errors.Is\<close>, the dynamic type test against \<^verbatim>\<open>net.Error\<close>;
  \<^item> durations and instants as nanosecond counts.

  The collection \<open>go_bytes\<close> holds the length and layout facts the wire formats are
  proved with; \<open>go_errs\<close> the definitions of error values.
\<close>

named_theorems go_bytes \<open>layout of byte buffers\<close>
named_theorems go_errs \<open>definitions of error values\<close>

section \<open>Definitions\<close>

subsection \<open>Machine integers and bytes\<close>

type_synonym byte = "8 word"
type_synonym u8 = "8 word"
type_synonym u16 = "16 word"
type_synonym u32 = "32 word"
type_synonym u64 = "64 word"
type_synonym i64 = "64 word" \<comment> \<open>two's complement, read with \<open>sint\<close>\<close>

text \<open>A character of a Go string is a byte.\<close>

definition string_bytes :: "string \<Rightarrow> byte list" where
  "string_bytes s = map (\<lambda>c. word_of_nat (of_char c)) s"

definition bytes_string :: "byte list \<Rightarrow> string" where
  "bytes_string bs = map (\<lambda>b. char_of (unat b)) bs"

subsection \<open>Big-endian integers\<close>

primrec be_bytes :: "nat \<Rightarrow> nat \<Rightarrow> byte list" where
  "be_bytes 0 v = []"
| "be_bytes (Suc n) v = word_of_nat (v div 256 ^ n) # be_bytes n v"

primrec be_nat_from :: "nat \<Rightarrow> byte list \<Rightarrow> nat" where
  "be_nat_from a [] = a"
| "be_nat_from a (b # bs) = be_nat_from (a * 256 + unat b) bs"

abbreviation be_nat :: "byte list \<Rightarrow> nat" where
  "be_nat \<equiv> be_nat_from 0"

definition be_PutUint16 :: "u16 \<Rightarrow> byte list" where
  "be_PutUint16 v = be_bytes 2 (unat v)"

definition be_PutUint64 :: "u64 \<Rightarrow> byte list" where
  "be_PutUint64 v = be_bytes 8 (unat v)"

definition be_Uint16 :: "byte list \<Rightarrow> u16" where
  "be_Uint16 bs = word_of_nat (be_nat (take 2 bs))"

definition be_Uint64 :: "byte list \<Rightarrow> u64" where
  "be_Uint64 bs = word_of_nat (be_nat (take 8 bs))"

subsection \<open>Byte buffers\<close>

definition make_bytes :: "nat \<Rightarrow> byte list" where
  "make_bytes n = replicate n 0"

text \<open>
  \<open>go_copy buf off src\<close> is the buffer after \<^verbatim>\<open>copy(buf[off:], src)\<close>: as many bytes as fit
  are copied. \<open>go_slice bs lo hi\<close> is \<^verbatim>\<open>bs[lo:hi]\<close>.
\<close>

definition go_copy :: "byte list \<Rightarrow> nat \<Rightarrow> byte list \<Rightarrow> byte list" where
  "go_copy buf off src =
     (let m = min (length src) (length buf - off)
      in take off buf @ take m src @ drop (off + m) buf)"

definition go_slice :: "'a list \<Rightarrow> nat \<Rightarrow> nat \<Rightarrow> 'a list" where
  "go_slice bs lo hi = take (hi - lo) (drop lo bs)"

subsection \<open>Error values\<close>

text \<open>
  A sentinel (\<^verbatim>\<open>var ErrX = errors.New(...)\<close>) is compared by identity, which its qualified
  name stands for. \<open>Errorf pre e post\<close> is \<^verbatim>\<open>fmt.Errorf\<close> with one \<^verbatim>\<open>%w\<close>, \<open>Err_Text\<close> is a
  fresh error with no \<^verbatim>\<open>%w\<close>. \<open>Net_Error timeout text\<close> is an error of package net (it
  implements \<^verbatim>\<open>net.Error\<close>). \<open>Protocol_Error code\<close> is a pointer to a \<^verbatim>\<open>ProtocolError\<close>.
\<close>

datatype go_error =
    Sentinel string string
  | Err_Text string
  | Net_Error bool string
  | Protocol_Error u8
  | Errorf string go_error string

text \<open>\<^verbatim>\<open>errors.Is\<close> against a sentinel: the chain of wrapped errors is searched.\<close>

fun errors_Is :: "go_error \<Rightarrow> go_error \<Rightarrow> bool" where
  "errors_Is (Errorf pre e post) target = errors_Is e target"
| "errors_Is e target = (e = target)"

text \<open>\<^verbatim>\<open>errors.As\<close> with a target of type \<^verbatim>\<open>*ProtocolError\<close>.\<close>

fun errors_As_ProtocolError :: "go_error \<Rightarrow> u8 option" where
  "errors_As_ProtocolError (Errorf pre e post) = errors_As_ProtocolError e"
| "errors_As_ProtocolError (Protocol_Error c) = Some c"
| "errors_As_ProtocolError e = None"

text \<open>
  \<^verbatim>\<open>netErr, ok := err.(net.Error); ok && netErr.Timeout()\<close>: a type assertion looks at the
  dynamic type of the value itself and does not unwrap.
\<close>

fun net_Error_Timeout :: "go_error \<Rightarrow> bool" where
  "net_Error_Timeout (Net_Error timeout t) = timeout"
| "net_Error_Timeout e = False"

definition io_EOF :: go_error where
  [go_errs]: "io_EOF = Sentinel ''io.EOF'' ''EOF''"

definition io_ErrUnexpectedEOF :: go_error where
  [go_errs]: "io_ErrUnexpectedEOF = Sentinel ''io.ErrUnexpectedEOF'' ''unexpected EOF''"

definition context_Canceled :: go_error where
  [go_errs]: "context_Canceled = Sentinel ''context.Canceled'' ''context canceled''"

definition context_DeadlineExceeded :: go_error where
  [go_errs]: "context_DeadlineExceeded =
     Sentinel ''context.DeadlineExceeded'' ''context deadline exceeded''"

subsection \<open>Decimal printing\<close>

fun show_nat :: "nat \<Rightarrow> string" where
  "show_nat n = (if n < 10 then [char_of (48 + n)] else show_nat (n div 10) @ [char_of (48 + n mod 10)])"

declare show_nat.simps [simp del]

definition show_int :: "int \<Rightarrow> string" where
  "show_int i = (if i < 0 then CHR ''-'' # show_nat (nat (- i)) else show_nat (nat i))"

subsection \<open>Durations and instants\<close>

text \<open>
  A \<^verbatim>\<open>time.Duration\<close> is an int64 count of nanoseconds, written as an \<open>int\<close> in that range; an
  instant is the nanoseconds since the Unix epoch. \<^verbatim>\<open>Time.Sub\<close> saturates at the ends of
  the range of durations.
\<close>

type_synonym duration = int
type_synonym instant = int

abbreviation time_Second :: duration where "time_Second \<equiv> 1000000000"
abbreviation time_Minute :: duration where "time_Minute \<equiv> 60 * time_Second"

abbreviation max_duration :: duration where "max_duration \<equiv> 2 ^ 63 - 1"
abbreviation min_duration :: duration where "min_duration \<equiv> - (2 ^ 63)"

definition time_Sub :: "instant \<Rightarrow> instant \<Rightarrow> duration" where
  "time_Sub t u = max min_duration (min max_duration (t - u))"

definition time_Unix :: "instant \<Rightarrow> i64" where
  "time_Unix t = word_of_int (t div time_Second)"

subsection \<open>Error results\<close>

text \<open>Results \<^verbatim>\<open>(T, error)\<close> are \<open>go_error + 'a\<close>; a plain \<^verbatim>\<open>error\<close> is \<open>go_error option\<close>.\<close>

type_synonym 'a result = "go_error + 'a"

fun is_ok :: "'a result \<Rightarrow> bool" where
  "is_ok (Inr x) = True"
| "is_ok (Inl e) = False"

subsection \<open>Background loops\<close>

text \<open>
  The life of a goroutine that serves a ticker: not started, in its loop, returned, or ended
  by the panic of \<^verbatim>\<open>time.NewTicker\<close> on a period that is not positive.
\<close>

datatype loop_status = Loop_Idle | Loop_Running | Loop_Returned | Loop_Panicked

definition ticker_loop :: "duration \<Rightarrow> loop_status" where
  "ticker_loop period = (if period \<le> 0 then Loop_Panicked else Loop_Running)"

subsection \<open>Executions\<close>

text \<open>The finite executions of a labelled step relation, with their events in order.\<close>

inductive runs :: "('s \<Rightarrow> 'e \<Rightarrow> 's \<Rightarrow> bool) \<Rightarrow> 's \<Rightarrow> 'e list \<Rightarrow> 's \<Rightarrow> bool" for step where
  Nil: "runs step s [] s"
| Snoc: "runs step s es s' \<Longrightarrow> step s' e s'' \<Longrightarrow> runs step s (es @ [e]) s''"

section \<open>Lemmas\<close>

subsection \<open>Big-endian integers\<close>

lemma length_be_bytes [simp, go_bytes]: "length (be_bytes n v) = n"
  by (induction n) auto

lemma be_nat_from_shift: "be_nat_from a bs = a * 256 ^ length bs + be_nat bs"
proof (induction bs arbitrary: a)
  case (Cons b bs)
  show ?case
    using Cons [of "a * 256 + unat b"] Cons [of "unat b"] by (simp add: algebra_simps)
qed simp

lemma be_nat_Cons: "be_nat (b # bs) = unat b * 256 ^ length bs + be_nat bs"
  using be_nat_from_shift [of "unat b" bs] by simp

lemma unat_byte_bound: "unat (b :: byte) < 256"
  using unsigned_less [of b] by simp

lemma unat_u16_bound: "unat (w :: u16) < 65536"
  using unsigned_less [of w] by simp

lemma unat_u64_bound: "unat (w :: u64) < 18446744073709551616"
  using unsigned_less [of w] by simp

lemma be_nat_bound: "be_nat bs < 256 ^ length bs"
proof (induction bs)
  case (Cons b bs)
  have "unat b * 256 ^ length bs \<le> 255 * 256 ^ length bs"
    using unat_byte_bound [of b] by (intro mult_right_mono) auto
  then have "unat b * 256 ^ length bs + be_nat bs < 256 * 256 ^ length bs"
    using Cons by linarith
  then show ?case unfolding be_nat_Cons by simp
qed simp

lemma be_nat_append: "be_nat (xs @ ys) = be_nat xs * 256 ^ length ys + be_nat ys"
proof (induction xs)
  case (Cons x xs)
  then show ?case
    unfolding append_Cons be_nat_Cons by (simp add: algebra_simps power_add)
qed simp

lemma be_nat_be_bytes: "be_nat (be_bytes n v) = v mod 256 ^ n"
proof (induction n)
  case (Suc n)
  have "be_nat (be_bytes (Suc n) v) = (v div 256 ^ n) mod 256 * 256 ^ n + v mod 256 ^ n"
    unfolding be_bytes.simps be_nat_Cons by (simp add: Suc unsigned_of_nat take_bit_eq_mod)
  also have "\<dots> = v mod (256 ^ n * 256)"
    by (simp add: mod_mult2_eq)
  finally show ?case by (simp add: mult.commute)
qed simp

lemma be_bytes_mod: "be_bytes n (v mod 256 ^ n) = be_bytes n v"
proof -
  have aux: "m \<le> n \<Longrightarrow> be_bytes m (v mod 256 ^ n) = be_bytes m v" for m
  proof (induction m)
    case (Suc m)
    have eq: "(256::nat) ^ n = 256 ^ m * (256 * 256 ^ (n - Suc m))"
    proof -
      have "n = m + Suc (n - Suc m)" using Suc.prems by simp
      then have "(256::nat) ^ n = 256 ^ (m + Suc (n - Suc m))" by (rule arg_cong)
      then show ?thesis by (simp only: power_add power_Suc)
    qed
    have "v mod 256 ^ n div 256 ^ m = (v div 256 ^ m) mod (256 * 256 ^ (n - Suc m))"
      unfolding eq mod_mult2_eq [of v "256 ^ m"] by simp
    then have "(v mod 256 ^ n div 256 ^ m) mod 256 = (v div 256 ^ m) mod 256"
      by (simp add: mod_mod_cancel)
    then have "word_of_nat (v mod 256 ^ n div 256 ^ m) = (word_of_nat (v div 256 ^ m) :: byte)"
      by (simp add: word_of_nat_eq_iff take_bit_eq_mod)
    then show ?case using Suc by simp
  qed simp
  show ?thesis by (rule aux) simp
qed

lemma be_bytes_be_nat: "be_bytes (length bs) (be_nat bs) = bs"
proof (induction bs)
  case (Cons b bs)
  have "be_nat (b # bs) div 256 ^ length bs = unat b"
    unfolding be_nat_Cons using be_nat_bound [of bs] by simp
  moreover have "be_bytes (length bs) (be_nat (b # bs)) = be_bytes (length bs) (be_nat bs)"
    using be_bytes_mod [of "length bs" "be_nat (b # bs)"] be_nat_bound [of bs]
    unfolding be_nat_Cons by simp
  ultimately show ?case using Cons by simp
qed simp

lemma length_be_Put [simp, go_bytes]:
  "length (be_PutUint16 w) = 2" "length (be_PutUint64 v) = 8"
  by (simp_all add: be_PutUint16_def be_PutUint64_def)

lemma be_Uint64_Put [simp]: "be_Uint64 (be_PutUint64 v @ rest) = v"
  using unat_u64_bound [of v]
  by (simp add: be_Uint64_def be_PutUint64_def be_nat_be_bytes)

lemma be_Uint16_Put [simp]: "be_Uint16 (be_PutUint16 v @ rest) = v"
  using unat_u16_bound [of v]
  by (simp add: be_Uint16_def be_PutUint16_def be_nat_be_bytes)

lemma be_Put_Uint64: "length bs = 8 \<Longrightarrow> be_PutUint64 (be_Uint64 bs) = bs"
  using be_bytes_be_nat [of bs] be_nat_bound [of bs]
  by (simp add: be_Uint64_def be_PutUint64_def unsigned_of_nat take_bit_eq_mod)

lemma be_Put_Uint16: "length bs = 2 \<Longrightarrow> be_PutUint16 (be_Uint16 bs) = bs"
  using be_bytes_be_nat [of bs] be_nat_bound [of bs]
  by (simp add: be_Uint16_def be_PutUint16_def unsigned_of_nat take_bit_eq_mod)

subsection \<open>Buffers\<close>

lemma length_make_bytes [simp, go_bytes]: "length (make_bytes n) = n"
  by (simp add: make_bytes_def)

lemma length_go_copy [simp, go_bytes]: "off \<le> length buf \<Longrightarrow> length (go_copy buf off src) = length buf"
  by (simp add: go_copy_def Let_def)

text \<open>
  Writing the next field of a buffer that is filled from the front: the written prefix
  grows and the zeroed rest shrinks. All \<^verbatim>\<open>Marshal\<close> functions are proved with it.
\<close>

lemma go_copy_next [go_bytes]:
  assumes "off = length pre" and "length src \<le> n"
  shows "go_copy (pre @ make_bytes n) off src = (pre @ src) @ make_bytes (n - length src)"
  using assms by (simp add: go_copy_def make_bytes_def)

lemma make_bytes_start: "make_bytes n = [] @ make_bytes n"
  by simp

lemma make_bytes_0 [simp]: "make_bytes 0 = []"
  by (simp add: make_bytes_def)

lemma list_update_next [go_bytes]:
  assumes "off = length pre" and "0 < n"
  shows "(pre @ make_bytes n)[off := b] = (pre @ [b]) @ make_bytes (n - 1)"
  using assms by (cases n) (simp_all add: make_bytes_def)

lemma go_slice_append [go_bytes]:
  assumes "lo = length xs" and "hi = lo + length ys"
  shows "go_slice (xs @ ys @ zs) lo hi = ys"
  using assms by (simp add: go_slice_def)

lemma length_go_slice [simp, go_bytes]: "hi \<le> length bs \<Longrightarrow> length (go_slice bs lo hi) = hi - lo"
  by (simp add: go_slice_def)

lemma go_slice_join:
  assumes "a \<le> b" "b \<le> c" shows "go_slice bs a b @ go_slice bs b c = go_slice bs a c"
proof -
  have "c - a = (b - a) + (c - b)" using assms by simp
  then have "take (c - a) (drop a bs) = take (b - a) (drop a bs) @ take (c - b) (drop (b - a) (drop a bs))"
    by (simp only: take_add)
  then show ?thesis using assms by (simp add: go_slice_def)
qed

lemma go_slice_all: "c = length bs \<Longrightarrow> go_slice bs 0 c = bs"
  by (simp add: go_slice_def)

lemma take_drop_slice: "take n (drop lo bs) = go_slice bs lo (lo + n)"
  by (simp add: go_slice_def)

lemma be_Put_Uint64_take: "8 \<le> length bs \<Longrightarrow> be_PutUint64 (be_Uint64 bs) = take 8 bs"
  using be_Put_Uint64 [of "take 8 bs"] by (simp add: be_Uint64_def)

lemma go_slice_two: "2 \<le> length bs \<Longrightarrow> [bs ! 0, bs ! Suc 0] = go_slice bs 0 2"
  by (cases bs; cases "tl bs") (auto simp: go_slice_def)

subsection \<open>Executions\<close>

lemma runs_inv:
  assumes "runs step s es s'" "I s" "\<And>s e s'. I s \<Longrightarrow> step s e s' \<Longrightarrow> I s'"
  shows "I s'"
  using assms by induction auto

lemma runs_append:
  "runs step s es s' \<Longrightarrow> runs step s' fs s'' \<Longrightarrow> runs step s (es @ fs) s''"
  by (rotate_tac, induction rule: runs.induct) (auto simp flip: append_assoc intro: runs.intros)

lemma runs_step: "step s e s' \<Longrightarrow> runs step s [e] s'"
  using runs.Snoc [OF runs.Nil, of step s e s'] by simp

lemma runs_Cons: "step s e s' \<Longrightarrow> runs step s' es s'' \<Longrightarrow> runs step s (e # es) s''"
  using runs_append [OF runs_step] by fastforce

subsection \<open>Strings\<close>

lemma length_string_bytes [simp]: "length (string_bytes s) = length s"
  by (simp add: string_bytes_def)

lemma bytes_string_bytes [simp]: "bytes_string (string_bytes s) = s"
proof -
  have "char_of (unat (word_of_nat (of_char c) :: byte)) = c" for c :: char
    by (simp add: unsigned_of_nat take_bit_nat_eq_self)
  then show ?thesis by (simp add: bytes_string_def string_bytes_def comp_def)
qed

end
