(* ===== verification/Go_Codec.thy ===== *)
theory Go_Codec
  imports Go_Prelude
begin

text \<open>
  The interface of a fixed-width wire format: an encoder into exactly \<open>width\<close> bytes and a
  decoder that inverts it on well-formed values, accepts every buffer of that width and
  nothing else. The Challenge and the Solution format are interpretations
  (theory \<open>Pow_Types\<close>), and so is the counter field.

  The second interface is that of a self-delimiting format read from a stream: a reader that
  takes one frame off the front and leaves the rest. The messages of the protocol are its
  interpretation (theory \<open>Protocol_Message\<close>).
\<close>

locale fixed_codec =
  fixes enc :: "'a \<Rightarrow> byte list"
    and dec :: "byte list \<Rightarrow> 'a result"
    and valid :: "'a \<Rightarrow> bool"
    and width :: nat
  assumes enc_width: "valid x \<Longrightarrow> length (enc x) = width"
    and dec_enc: "valid x \<Longrightarrow> dec (enc x) = Inr x"
    and dec_total: "length bs = width \<Longrightarrow> \<exists>x. dec bs = Inr x"
    and dec_sound: "dec bs = Inr x \<Longrightarrow> valid x \<and> enc x = bs"
begin

lemma enc_inj: "valid x \<Longrightarrow> valid y \<Longrightarrow> enc x = enc y \<Longrightarrow> x = y"
  by (metis dec_enc sum.inject(2))

lemma dec_accepts_iff: "is_ok (dec bs) \<longleftrightarrow> length bs = width"
proof
  assume "is_ok (dec bs)"
  then obtain x where "dec bs = Inr x" by (cases "dec bs") auto
  then show "length bs = width" using dec_sound enc_width by metis
next
  assume "length bs = width"
  then show "is_ok (dec bs)" using dec_total [of bs] by auto
qed

lemma dec_iff: "dec bs = Inr x \<longleftrightarrow> valid x \<and> enc x = bs"
  using dec_sound dec_enc by blast

lemma dec_inj: "dec bs = Inr x \<Longrightarrow> dec cs = Inr x \<Longrightarrow> bs = cs"
  using dec_sound by blast

text \<open>A framed stream: concatenated encodings are cut back into their values.\<close>

lemma dec_take: "valid x \<Longrightarrow> dec (take width (enc x @ rest)) = Inr x"
  using enc_width [of x] dec_enc [of x] by simp

lemma enc_drop: "valid x \<Longrightarrow> drop width (enc x @ rest) = rest"
  using enc_width [of x] by simp

end

interpretation u64_codec:
  fixed_codec be_PutUint64 "\<lambda>bs. if length bs = 8 then Inr (be_Uint64 bs) else Inl io_ErrUnexpectedEOF"
    "\<lambda>_. True" 8
proof unfold_locales
  show "True \<and> be_PutUint64 x = bs"
    if "(if length bs = 8 then Inr (be_Uint64 bs) else Inl io_ErrUnexpectedEOF) = Inr x" for bs x
    using that be_Put_Uint64 [of bs] by (auto split: if_splits)
qed (use be_Uint64_Put [where rest = "[]"] in auto)

locale stream_codec =
  fixes frame :: "'a \<Rightarrow> byte list"
    and valid :: "'a \<Rightarrow> bool"
    and read1 :: "byte list \<Rightarrow> ('a \<times> byte list) option"
  assumes read1_iff: "read1 bs = Some (m, rest) \<longleftrightarrow> valid m \<and> bs = frame m @ rest"
begin

text \<open>No frame is a prefix of another, so a stream has one reading only.\<close>

lemma frame_prefix_free:
  assumes "valid m" "valid m'" "frame m @ rest = frame m' @ rest'"
  shows "m = m' \<and> rest = rest'"
proof -
  have "read1 (frame m @ rest) = Some (m, rest)" using assms(1) by (simp add: read1_iff)
  moreover have "read1 (frame m @ rest) = Some (m', rest')" using assms(2,3) by (simp add: read1_iff)
  ultimately show ?thesis by simp
qed

text \<open>\<open>n\<close> readings take \<open>n\<close> frames off the stream, in order.\<close>

primrec read_n :: "nat \<Rightarrow> byte list \<Rightarrow> ('a list \<times> byte list) option" where
  "read_n 0 bs = Some ([], bs)"
| "read_n (Suc n) bs =
    (case read1 bs of
       None \<Rightarrow> None
     | Some (m, rest) \<Rightarrow>
        (case read_n n rest of None \<Rightarrow> None | Some (ms, rest') \<Rightarrow> Some (m # ms, rest')))"

lemma read_n_iff:
  "read_n n bs = Some (ms, rest) \<longleftrightarrow>
     length ms = n \<and> (\<forall>m \<in> set ms. valid m) \<and> bs = concat (map frame ms) @ rest"
proof (induction n arbitrary: bs ms)
  case (Suc n)
  show ?case
  proof (cases ms)
    case Nil
    then show ?thesis by (auto split: option.splits prod.splits)
  next
    case (Cons m ms')
    have "read_n (Suc n) bs = Some (m # ms', rest) \<longleftrightarrow>
        (\<exists>r. read1 bs = Some (m, r) \<and> read_n n r = Some (ms', rest))"
      by (auto split: option.splits prod.splits)
    also have "\<dots> \<longleftrightarrow> (valid m \<and> length ms' = n \<and> (\<forall>m \<in> set ms'. valid m) \<and>
        bs = frame m @ concat (map frame ms') @ rest)"
      by (auto simp: read1_iff Suc.IH)
    finally show ?thesis using Cons by auto
  qed
qed auto

end

end
