(* ===== verification/Pow_Types.thy ===== *)
theory Pow_Types
  imports Go_Codec
begin

text \<open>
  \<^verbatim>\<open>internal/pow/types.go\<close>: the Challenge and the Solution, their wire formats and field
  validation. The marshalling functions are written as the code is, one buffer write per
  field at a running offset, and proved equal to the concatenation of the fields.
\<close>

section \<open>Definitions\<close>

subsection \<open>Constants\<close>

definition pow_Version :: u8 where "pow_Version = 1"
definition MinDifficulty :: u8 where "MinDifficulty = 16"
definition BaseDifficulty :: u8 where "BaseDifficulty = 20"
definition MaxDifficulty :: u8 where "MaxDifficulty = 24"

definition ChallengeSize :: nat where "ChallengeSize = 90"
definition SolutionSize :: nat where "SolutionSize = 98"
definition VersionSize :: nat where "VersionSize = 1"
definition DifficultySize :: nat where "DifficultySize = 1"
definition TimestampSize :: nat where "TimestampSize = 8"
definition ResourceSize :: nat where "ResourceSize = 32"
definition NonceSize :: nat where "NonceSize = 16"
definition SignatureSize :: nat where "SignatureSize = 32"
definition CounterSize :: nat where "CounterSize = 8"

lemmas pow_sizes = ChallengeSize_def SolutionSize_def VersionSize_def DifficultySize_def
  TimestampSize_def ResourceSize_def NonceSize_def SignatureSize_def CounterSize_def

definition ErrInvalidChallengeLength :: go_error where
  [go_errs]: "ErrInvalidChallengeLength =
     Sentinel ''pow.ErrInvalidChallengeLength'' ''invalid challenge length''"

definition ErrInvalidSolutionLength :: go_error where
  [go_errs]: "ErrInvalidSolutionLength =
     Sentinel ''pow.ErrInvalidSolutionLength'' ''invalid solution length''"

definition ErrInvalidVersion :: go_error where
  [go_errs]: "ErrInvalidVersion = Sentinel ''pow.ErrInvalidVersion'' ''invalid protocol version''"

definition ErrInvalidDifficulty :: go_error where
  [go_errs]: "ErrInvalidDifficulty =
     Sentinel ''pow.ErrInvalidDifficulty'' ''invalid difficulty level''"

subsection \<open>Data\<close>

text \<open>The three byte arrays are lists whose lengths are the invariant \<open>wf_challenge\<close>.\<close>

record challenge =
  Version :: u8
  Difficulty :: u8
  Timestamp :: i64
  Resource :: "byte list"
  Nonce :: "byte list"
  Signature :: "byte list"

record solution =
  Challenge :: challenge
  Counter :: u64

definition wf_challenge :: "challenge \<Rightarrow> bool" where
  "wf_challenge c \<longleftrightarrow>
     length (Resource c) = 32 \<and> length (Nonce c) = 16 \<and> length (Signature c) = 32"

definition wf_solution :: "solution \<Rightarrow> bool" where
  "wf_solution s \<longleftrightarrow> wf_challenge (Challenge s)"

subsection \<open>Marshalling\<close>

definition Challenge_Marshal :: "challenge \<Rightarrow> byte list" where
  "Challenge_Marshal c =
    (let buf = make_bytes ChallengeSize;
         off = 0;
         buf = buf[off := Version c];
         off = off + VersionSize;
         buf = buf[off := Difficulty c];
         off = off + DifficultySize;
         buf = go_copy buf off (be_PutUint64 (Timestamp c));
         off = off + TimestampSize;
         buf = go_copy buf off (Resource c);
         off = off + ResourceSize;
         buf = go_copy buf off (Nonce c);
         off = off + NonceSize;
         buf = go_copy buf off (Signature c)
     in buf)"

definition Challenge_MarshalUnsigned :: "challenge \<Rightarrow> byte list" where
  "Challenge_MarshalUnsigned c =
    (let buf = make_bytes (VersionSize + DifficultySize + TimestampSize + ResourceSize + NonceSize);
         off = 0;
         buf = buf[off := Version c];
         off = off + VersionSize;
         buf = buf[off := Difficulty c];
         off = off + DifficultySize;
         buf = go_copy buf off (be_PutUint64 (Timestamp c));
         off = off + TimestampSize;
         buf = go_copy buf off (Resource c);
         off = off + ResourceSize;
         buf = go_copy buf off (Nonce c)
     in buf)"

definition UnmarshalChallenge :: "byte list \<Rightarrow> challenge result" where
  "UnmarshalChallenge data =
    (if length data \<noteq> ChallengeSize
     then Inl (Errorf [] ErrInvalidChallengeLength
                (concat ['': got '', show_nat (length data), '', want '', show_nat ChallengeSize]))
     else
       let off = 0;
           version = data ! off;
           off = off + VersionSize;
           difficulty = data ! off;
           off = off + DifficultySize;
           timestamp = be_Uint64 (drop off data);
           off = off + TimestampSize;
           resource = go_slice data off (off + ResourceSize);
           off = off + ResourceSize;
           nonce = go_slice data off (off + NonceSize);
           off = off + NonceSize;
           signature = go_slice data off (off + SignatureSize)
       in Inr \<lparr>Version = version, Difficulty = difficulty, Timestamp = timestamp,
               Resource = resource, Nonce = nonce, Signature = signature\<rparr>)"

definition Solution_Marshal :: "solution \<Rightarrow> byte list" where
  "Solution_Marshal s =
    (let buf = make_bytes SolutionSize;
         buf = go_copy buf 0 (Challenge_Marshal (Challenge s));
         buf = go_copy buf ChallengeSize (be_PutUint64 (Counter s))
     in buf)"

definition UnmarshalSolution :: "byte list \<Rightarrow> solution result" where
  "UnmarshalSolution data =
    (if length data \<noteq> SolutionSize
     then Inl (Errorf [] ErrInvalidSolutionLength
                (concat ['': got '', show_nat (length data), '', want '', show_nat SolutionSize]))
     else case UnmarshalChallenge (take ChallengeSize data) of
         Inl e \<Rightarrow> Inl e
       | Inr c \<Rightarrow> Inr \<lparr>Challenge = c, Counter = be_Uint64 (drop ChallengeSize data)\<rparr>)"

definition Challenge_Validate :: "challenge \<Rightarrow> go_error option" where
  "Challenge_Validate c =
    (if Version c \<noteq> pow_Version
     then Some (Errorf [] ErrInvalidVersion
            (concat ['': got '', show_nat (unat (Version c)), '', want '', show_nat (unat pow_Version)]))
     else if Difficulty c < MinDifficulty \<or> Difficulty c > MaxDifficulty
     then Some (Errorf [] ErrInvalidDifficulty
            (concat ['': got '', show_nat (unat (Difficulty c)), '', want '',
                     show_nat (unat MinDifficulty), ''-'', show_nat (unat MaxDifficulty)]))
     else None)"

section \<open>Lemmas\<close>

text \<open>The reference layout of the formats.\<close>

lemma MarshalUnsigned_fields:
  assumes "wf_challenge c"
  shows "Challenge_MarshalUnsigned c =
    [Version c, Difficulty c] @ be_PutUint64 (Timestamp c) @ Resource c @ Nonce c"
proof -
  have "Challenge_MarshalUnsigned c =
      (((([] @ [Version c]) @ [Difficulty c]) @ be_PutUint64 (Timestamp c)) @ Resource c) @ Nonce c"
    using assms unfolding Challenge_MarshalUnsigned_def Let_def pow_sizes wf_challenge_def
    by (subst make_bytes_start) (simp add: go_bytes del: append_assoc append.simps)
  then show ?thesis by simp
qed

lemma Marshal_fields:
  assumes "wf_challenge c"
  shows "Challenge_Marshal c = Challenge_MarshalUnsigned c @ Signature c"
proof -
  have "Challenge_Marshal c =
      ((((([] @ [Version c]) @ [Difficulty c]) @ be_PutUint64 (Timestamp c)) @ Resource c) @ Nonce c)
      @ Signature c"
    using assms unfolding Challenge_Marshal_def Let_def pow_sizes wf_challenge_def
    by (subst make_bytes_start) (simp add: go_bytes del: append_assoc append.simps)
  then show ?thesis by (simp add: MarshalUnsigned_fields [OF assms])
qed

lemma length_MarshalUnsigned [simp]: "wf_challenge c \<Longrightarrow> length (Challenge_MarshalUnsigned c) = 58"
  by (simp add: MarshalUnsigned_fields) (simp add: wf_challenge_def)

lemma length_Challenge_Marshal [simp]: "wf_challenge c \<Longrightarrow> length (Challenge_Marshal c) = 90"
  by (simp add: Marshal_fields) (simp add: wf_challenge_def)

lemma Solution_Marshal_fields:
  assumes "wf_solution s"
  shows "Solution_Marshal s = Challenge_Marshal (Challenge s) @ be_PutUint64 (Counter s)"
proof -
  have len: "length (Challenge_Marshal (Challenge s)) = 90"
    using assms by (simp add: wf_solution_def)
  have "Solution_Marshal s = ([] @ Challenge_Marshal (Challenge s)) @ be_PutUint64 (Counter s)"
    using len unfolding Solution_Marshal_def Let_def pow_sizes
    by (subst make_bytes_start) (simp add: go_bytes del: append_assoc append.simps)
  then show ?thesis by simp
qed

lemma wf_UnmarshalChallenge:
  "UnmarshalChallenge data = Inr c \<Longrightarrow> wf_challenge c"
  by (auto simp: UnmarshalChallenge_def Let_def wf_challenge_def pow_sizes split: if_splits)

lemma UnmarshalChallenge_Marshal:
  assumes "wf_challenge c"
  shows "UnmarshalChallenge (Challenge_Marshal c) = Inr c"
proof -
  let ?t = "be_PutUint64 (Timestamp c)"
  have w: "length (Resource c) = 32" "length (Nonce c) = 16" "length (Signature c) = 32"
    using assms by (auto simp: wf_challenge_def)
  have m: "Challenge_Marshal c =
      Version c # Difficulty c # ?t @ Resource c @ Nonce c @ Signature c"
    using assms by (simp add: Marshal_fields MarshalUnsigned_fields)
  have s1: "go_slice (Challenge_Marshal c) 10 42 = Resource c"
    unfolding m using go_slice_append [of 10 "Version c # Difficulty c # ?t" 42 "Resource c"] w by simp
  have s2: "go_slice (Challenge_Marshal c) 42 58 = Nonce c"
    unfolding m
    using go_slice_append [of 42 "Version c # Difficulty c # ?t @ Resource c" 58 "Nonce c"] w by simp
  have s3: "go_slice (Challenge_Marshal c) 58 90 = Signature c"
    unfolding m
    using go_slice_append [of 58 "Version c # Difficulty c # ?t @ Resource c @ Nonce c" 90
        "Signature c" "[]"] w by simp
  have "be_Uint64 (drop (Suc (Suc 0)) (Challenge_Marshal c)) = Timestamp c"
    "Challenge_Marshal c ! 0 = Version c" "Challenge_Marshal c ! Suc 0 = Difficulty c"
    unfolding m by simp_all
  then show ?thesis
    using s1 s2 s3 assms by (simp add: UnmarshalChallenge_def Let_def pow_sizes)
qed

lemma Marshal_UnmarshalChallenge:
  assumes "UnmarshalChallenge data = Inr c"
  shows "Challenge_Marshal c = data"
proof -
  have len: "length data = 90"
    and c: "c = \<lparr>Version = data ! 0, Difficulty = data ! Suc 0, Timestamp = be_Uint64 (drop 2 data),
      Resource = go_slice data 10 42, Nonce = go_slice data 42 58, Signature = go_slice data 58 90\<rparr>"
    using assms
    by (auto simp: UnmarshalChallenge_def Let_def pow_sizes numeral_2_eq_2 split: if_splits)
  have t: "be_PutUint64 (be_Uint64 (drop 2 data)) = go_slice data 2 10"
    using be_Put_Uint64_take [of "drop 2 data"] len by (simp add: take_drop_slice)
  have two: "[data ! 0, data ! Suc 0] = go_slice data 0 2"
    using len by (intro go_slice_two) simp
  have "Challenge_Marshal c = go_slice data 0 2 @ go_slice data 2 10 @ go_slice data 10 42 @
      go_slice data 42 58 @ go_slice data 58 90"
    using wf_UnmarshalChallenge [OF assms] two t
    by (simp add: Marshal_fields MarshalUnsigned_fields c)
  then show ?thesis by (simp add: go_slice_join go_slice_all len)
qed

text \<open>The two formats are fixed-width codecs.\<close>

interpretation challenge_codec: fixed_codec Challenge_Marshal UnmarshalChallenge wf_challenge 90
proof unfold_locales
  show "\<exists>x. UnmarshalChallenge bs = Inr x" if "length bs = 90" for bs
    using that by (simp add: UnmarshalChallenge_def Let_def pow_sizes)
qed (auto simp: UnmarshalChallenge_Marshal Marshal_UnmarshalChallenge wf_UnmarshalChallenge)

interpretation solution_codec: fixed_codec Solution_Marshal UnmarshalSolution wf_solution 98
proof unfold_locales
  show "length (Solution_Marshal s) = 98" if "wf_solution s" for s
    using that by (simp add: Solution_Marshal_fields wf_solution_def)
  show "UnmarshalSolution (Solution_Marshal s) = Inr s" if wf: "wf_solution s" for s
  proof -
    have "wf_challenge (Challenge s)" using wf by (simp add: wf_solution_def)
    then show ?thesis
      using be_Uint64_Put [of "Counter s" "[]"]
      by (simp add: UnmarshalSolution_def Solution_Marshal_fields [OF wf] pow_sizes
          UnmarshalChallenge_Marshal)
  qed
  show "\<exists>s. UnmarshalSolution bs = Inr s" if "length bs = 98" for bs
    using that challenge_codec.dec_total [of "take 90 bs"]
    by (auto simp: UnmarshalSolution_def pow_sizes)
  show "wf_solution s \<and> Solution_Marshal s = bs" if dec: "UnmarshalSolution bs = Inr s" for bs s
  proof -
    have len: "length bs = 98" and c: "UnmarshalChallenge (take 90 bs) = Inr (Challenge s)"
      and n: "Counter s = be_Uint64 (drop 90 bs)"
      using dec by (auto simp: UnmarshalSolution_def pow_sizes split: if_splits sum.splits)
    have wf: "wf_solution s" using wf_UnmarshalChallenge [OF c] by (simp add: wf_solution_def)
    have "be_PutUint64 (Counter s) = drop 90 bs" unfolding n using len by (intro be_Put_Uint64) simp
    then have "Solution_Marshal s = take 90 bs @ drop 90 bs"
      by (simp only: Solution_Marshal_fields [OF wf] Marshal_UnmarshalChallenge [OF c])
    then show ?thesis using wf by simp
  qed
qed

end
