(* ===== verification/Sha256.thy ===== *)
theory Sha256
  imports Go_Prelude
begin

text \<open>
  The two functions of Go's crypto packages the proof of work rests on, written out from
  their standards so that they can be evaluated: SHA-256 (FIPS 180-4) as \<open>sha256_Sum256\<close>
  and HMAC over it (RFC 2104) as \<open>hmac_sha256\<close>. Everything proved about the program uses
  only that a digest has 32 bytes; the test vectors at the end tie the definitions to the
  standards.
\<close>

unbundle bit_operations_syntax

section \<open>Definitions\<close>

subsection \<open>The compression function\<close>

definition sha_K :: "u32 list" where
  "sha_K =
    [1116352408, 1899447441, 3049323471, 3921009573, 961987163, 1508970993, 2453635748, 2870763221,
     3624381080, 310598401, 607225278, 1426881987, 1925078388, 2162078206, 2614888103, 3248222580,
     3835390401, 4022224774, 264347078, 604807628, 770255983, 1249150122, 1555081692, 1996064986,
     2554220882, 2821834349, 2952996808, 3210313671, 3336571891, 3584528711, 113926993, 338241895,
     666307205, 773529912, 1294757372, 1396182291, 1695183700, 1986661051, 2177026350, 2456956037,
     2730485921, 2820302411, 3259730800, 3345764771, 3516065817, 3600352804, 4094571909, 275423344,
     430227734, 506948616, 659060556, 883997877, 958139571, 1322822218, 1537002063, 1747873779,
     1955562222, 2024104815, 2227730452, 2361852424, 2428436474, 2756734187, 3204031479, 3329325298]"

datatype sha_state = Sha u32 u32 u32 u32 u32 u32 u32 u32

definition sha_init :: sha_state where
  "sha_init = Sha 0x6a09e667 0xbb67ae85 0x3c6ef372 0xa54ff53a 0x510e527f 0x9b05688c 0x1f83d9ab 0x5be0cd19"

definition rotr :: "nat \<Rightarrow> u32 \<Rightarrow> u32" where
  "rotr n x = drop_bit n x OR push_bit (32 - n) x"

definition sha_ch :: "u32 \<Rightarrow> u32 \<Rightarrow> u32 \<Rightarrow> u32" where
  "sha_ch x y z = (x AND y) XOR (NOT x AND z)"

definition sha_maj :: "u32 \<Rightarrow> u32 \<Rightarrow> u32 \<Rightarrow> u32" where
  "sha_maj x y z = (x AND y) XOR (x AND z) XOR (y AND z)"

definition sha_S0 :: "u32 \<Rightarrow> u32" where
  "sha_S0 x = rotr 2 x XOR rotr 13 x XOR rotr 22 x"

definition sha_S1 :: "u32 \<Rightarrow> u32" where
  "sha_S1 x = rotr 6 x XOR rotr 11 x XOR rotr 25 x"

definition sha_s0 :: "u32 \<Rightarrow> u32" where
  "sha_s0 x = rotr 7 x XOR rotr 18 x XOR drop_bit 3 x"

definition sha_s1 :: "u32 \<Rightarrow> u32" where
  "sha_s1 x = rotr 17 x XOR rotr 19 x XOR drop_bit 10 x"

text \<open>
  The message schedule as a window of sixteen words: each step takes the oldest word and
  appends the next one.
\<close>

fun sha_next :: "u32 list \<Rightarrow> u32 list" where
  "sha_next [w0, w1, w2, w3, w4, w5, w6, w7, w8, w9, w10, w11, w12, w13, w14, w15] =
     [w1, w2, w3, w4, w5, w6, w7, w8, w9, w10, w11, w12, w13, w14, w15,
      sha_s1 w14 + w9 + sha_s0 w1 + w0]"
| "sha_next ws = ws"

fun sha_round :: "sha_state \<Rightarrow> u32 \<Rightarrow> u32 \<Rightarrow> sha_state" where
  "sha_round (Sha a b c d e f g h) k w =
     (let t1 = h + sha_S1 e + sha_ch e f g + k + w;
          t2 = sha_S0 a + sha_maj a b c
      in Sha (t1 + t2) a b c (d + t1) e f g)"

fun sha_rounds :: "u32 list \<Rightarrow> u32 list \<Rightarrow> sha_state \<Rightarrow> sha_state" where
  "sha_rounds [] ws s = s"
| "sha_rounds (k # ks) ws s =
     (case ws of [] \<Rightarrow> s | w # _ \<Rightarrow> sha_rounds ks (sha_next ws) (sha_round s k w))"

fun sha_add :: "sha_state \<Rightarrow> sha_state \<Rightarrow> sha_state" where
  "sha_add (Sha a b c d e f g h) (Sha a' b' c' d' e' f' g' h') =
     Sha (a + a') (b + b') (c + c') (d + d') (e + e') (f + f') (g + g') (h + h')"

subsection \<open>Blocks and padding\<close>

fun be_words32 :: "byte list \<Rightarrow> u32 list" where
  "be_words32 (a # b # c # d # bs) = word_of_nat (be_nat [a, b, c, d]) # be_words32 bs"
| "be_words32 bs = []"

definition sha_block :: "sha_state \<Rightarrow> byte list \<Rightarrow> sha_state" where
  "sha_block s blk = sha_add s (sha_rounds sha_K (be_words32 blk) s)"

function sha_blocks :: "sha_state \<Rightarrow> byte list \<Rightarrow> sha_state" where
  "sha_blocks s bs = (if length bs < 64 then s else sha_blocks (sha_block s (take 64 bs)) (drop 64 bs))"
  by pat_completeness auto
termination
  by (relation "measure (\<lambda>(s, bs). length bs)") auto

declare sha_blocks.simps [simp del]

definition sha_pad :: "byte list \<Rightarrow> byte list" where
  "sha_pad m = m @ [0x80] @ replicate ((119 - length m mod 64) mod 64) 0 @ be_bytes 8 (8 * length m)"

fun sha_digest :: "sha_state \<Rightarrow> byte list" where
  "sha_digest (Sha a b c d e f g h) =
     be_bytes 4 (unat a) @ be_bytes 4 (unat b) @ be_bytes 4 (unat c) @ be_bytes 4 (unat d) @
     be_bytes 4 (unat e) @ be_bytes 4 (unat f) @ be_bytes 4 (unat g) @ be_bytes 4 (unat h)"

definition sha256_Sum256 :: "byte list \<Rightarrow> byte list" where
  "sha256_Sum256 m = sha_digest (sha_blocks sha_init (sha_pad m))"

subsection \<open>HMAC\<close>

definition hmac_key :: "byte list \<Rightarrow> byte list" where
  "hmac_key key =
     (let k = (if 64 < length key then sha256_Sum256 key else key)
      in k @ replicate (64 - length k) 0)"

definition hmac_sha256 :: "byte list \<Rightarrow> byte list \<Rightarrow> byte list" where
  "hmac_sha256 key msg =
     (let k = hmac_key key
      in sha256_Sum256 (map (\<lambda>b. b XOR 0x5c) k @ sha256_Sum256 (map (\<lambda>b. b XOR 0x36) k @ msg)))"

section \<open>Lemmas\<close>

lemma length_sha_digest [simp]: "length (sha_digest s) = 32"
  by (cases s) simp

lemma length_sha256 [simp, go_bytes]: "length (sha256_Sum256 m) = 32"
  by (simp add: sha256_Sum256_def)

lemma length_hmac [simp, go_bytes]: "length (hmac_sha256 key msg) = 32"
  by (simp add: hmac_sha256_def Let_def)

text \<open>
  The constants are what the standard says: the first 32 bits of the fractional parts of the
  cube roots of the first 64 primes. With \<open>a\<close> the integer part of the root of \<open>p\<close>, the word
  \<open>k\<close> is right if \<open>a + k / 2 ^ 32\<close> is the root rounded down to 32 bits.
\<close>

lemma sha_K_cube_roots:
  "list_all2 (\<lambda>p k.
       let a = (if p < 8 then 1 else if p < 27 then 2 else if p < 64 then 3 else if p < 125 then 4
                else if p < 216 then 5 else 6 :: nat)
       in (a * 2 ^ 32 + unat k) ^ 3 \<le> p * 2 ^ 96 \<and> p * 2 ^ 96 < (a * 2 ^ 32 + unat k + 1) ^ 3)
     [2, 3, 5, 7, 11, 13, 17, 19, 23, 29, 31, 37, 41, 43, 47, 53, 59, 61, 67, 71, 73, 79, 83, 89, 97,
      101, 103, 107, 109, 113, 127, 131, 137, 139, 149, 151, 157, 163, 167, 173, 179, 181, 191, 193,
      197, 199, 211, 223, 227, 229, 233, 239, 241, 251, 257, 263, 269, 271, 277, 281, 283, 293, 307, 311]
     sha_K"
  unfolding sha_K_def by simp

text \<open>The padded message is a whole number of blocks.\<close>

lemma sha_pad_blocks: "length (sha_pad m) mod 64 = 0"
proof -
  let ?r = "length m mod 64"
  have r: "?r < 64" by simp
  have "length (sha_pad m) mod 64 = (length m + (9 + (119 - ?r) mod 64)) mod 64"
    by (simp add: sha_pad_def)
  also have "\<dots> = (?r + (9 + (119 - ?r) mod 64)) mod 64"
    by (rule mod_add_left_eq [symmetric])
  also have "\<dots> = ((?r + 9) + (119 - ?r) mod 64) mod 64"
    by (simp only: add.assoc)
  also have "\<dots> = ((?r + 9) + (119 - ?r)) mod 64"
    by (rule mod_add_right_eq)
  also have "(?r + 9) + (119 - ?r) = 128"
    using r by linarith
  finally show ?thesis by simp
qed

end
