(* ===== verification/Pow_Generator.thy ===== *)
theory Pow_Generator
  imports Pow_Types Sha256
begin

text \<open>
  \<^verbatim>\<open>internal/pow/generator.go\<close>: challenges with a random resource and nonce, signed with
  HMAC-SHA256 under the server's secret. A call of \<^verbatim>\<open>rand.Read\<close> is given by its outcome
  (a failure, or the bytes it delivers) and \<^verbatim>\<open>time.Now\<close> by the instant it reads.
\<close>

section \<open>Definitions\<close>

datatype rand_outcome = Rand_Fail go_error | Rand_Bytes "nat \<Rightarrow> byte"

fun rand_Read :: "nat \<Rightarrow> rand_outcome \<Rightarrow> byte list result" where
  "rand_Read n (Rand_Fail e) = Inl e"
| "rand_Read n (Rand_Bytes f) = Inr (map f [0..<n])"

definition MinSecretLength :: nat where "MinSecretLength = 32"

definition ErrSecretTooShort :: go_error where
  [go_errs]: "ErrSecretTooShort =
     Sentinel ''pow.ErrSecretTooShort'' ''HMAC secret must be at least 32 bytes''"

record generatorImpl =
  gen_secret :: "byte list"

definition NewGenerator :: "byte list \<Rightarrow> generatorImpl result" where
  "NewGenerator secret =
    (if length secret < MinSecretLength
     then Inl (Errorf [] ErrSecretTooShort (concat ['': got '', show_nat (length secret), '' bytes'']))
     else Inr \<lparr>gen_secret = secret\<rparr>)"

definition gen_sign :: "generatorImpl \<Rightarrow> challenge \<Rightarrow> challenge" where
  "gen_sign g c =
    (let data = Challenge_MarshalUnsigned c;
         mac = hmac_sha256 (gen_secret g) data
     in c\<lparr>Signature := go_copy (Signature c) 0 mac\<rparr>)"

definition Generate ::
  "generatorImpl \<Rightarrow> u8 \<Rightarrow> instant \<Rightarrow> rand_outcome \<Rightarrow> rand_outcome \<Rightarrow> challenge result" where
  "Generate g difficulty now r1 r2 =
    (if difficulty < MinDifficulty \<or> difficulty > MaxDifficulty
     then Inl (Errorf [] ErrInvalidDifficulty
            (concat ['': got '', show_nat (unat difficulty), '', want '',
                     show_nat (unat MinDifficulty), ''-'', show_nat (unat MaxDifficulty)]))
     else
       let c = \<lparr>Version = pow_Version, Difficulty = difficulty, Timestamp = time_Unix now,
                Resource = make_bytes ResourceSize, Nonce = make_bytes NonceSize,
                Signature = make_bytes SignatureSize\<rparr>
       in case rand_Read ResourceSize r1 of
            Inl e \<Rightarrow> Inl (Errorf ''failed to generate resource: '' e [])
          | Inr resource \<Rightarrow>
             (let c = c\<lparr>Resource := resource\<rparr>
              in case rand_Read NonceSize r2 of
                   Inl e \<Rightarrow> Inl (Errorf ''failed to generate nonce: '' e [])
                 | Inr nonce \<Rightarrow> Inr (gen_sign g (c\<lparr>Nonce := nonce\<rparr>))))"

section \<open>Lemmas\<close>

lemma length_rand_Read: "rand_Read n r = Inr bs \<Longrightarrow> length bs = n"
  by (cases r) auto

lemma MarshalUnsigned_Signature [simp]:
  "Challenge_MarshalUnsigned (c\<lparr>Signature := sig\<rparr>) = Challenge_MarshalUnsigned c"
  by (simp add: Challenge_MarshalUnsigned_def Let_def)

lemma gen_sign_eq:
  assumes "length (Signature c) = 32"
  shows "gen_sign g c = c\<lparr>Signature := hmac_sha256 (gen_secret g) (Challenge_MarshalUnsigned c)\<rparr>"
proof -
  have "go_copy (Signature c) 0 m = m" if "length m = 32" for m
    using that assms by (simp add: go_copy_def)
  then show ?thesis by (simp add: gen_sign_def Let_def)
qed

text \<open>A generated challenge, field by field.\<close>

lemma Generate_Inr:
  assumes "Generate g d now r1 r2 = Inr c"
  shows "MinDifficulty \<le> d" "d \<le> MaxDifficulty" "wf_challenge c" "Version c = pow_Version"
    "Difficulty c = d" "Timestamp c = time_Unix now"
    "Signature c = hmac_sha256 (gen_secret g) (Challenge_MarshalUnsigned c)"
    "rand_Read 32 r1 = Inr (Resource c)" "rand_Read 16 r2 = Inr (Nonce c)"
proof -
  obtain res nonce where r: "rand_Read 32 r1 = Inr res" "rand_Read 16 r2 = Inr nonce"
    and d: "\<not> d < MinDifficulty" "\<not> d > MaxDifficulty"
    and c: "c = gen_sign g \<lparr>Version = pow_Version, Difficulty = d, Timestamp = time_Unix now,
      Resource = res, Nonce = nonce, Signature = make_bytes 32\<rparr>"
    using assms by (auto simp: Generate_def Let_def pow_sizes split: if_splits sum.splits)
  show "MinDifficulty \<le> d" "d \<le> MaxDifficulty" using d by auto
  define c0 where "c0 = \<lparr>Version = pow_Version, Difficulty = d, Timestamp = time_Unix now,
      Resource = res, Nonce = nonce, Signature = make_bytes 32\<rparr>"
  have c': "c = c0\<lparr>Signature := hmac_sha256 (gen_secret g) (Challenge_MarshalUnsigned c0)\<rparr>"
    by (simp add: c gen_sign_eq flip: c0_def) (simp add: c0_def gen_sign_eq)
  show "Signature c = hmac_sha256 (gen_secret g) (Challenge_MarshalUnsigned c)"
    by (simp add: c')
  show "wf_challenge c" "Version c = pow_Version" "Difficulty c = d" "Timestamp c = time_Unix now"
    "rand_Read 32 r1 = Inr (Resource c)" "rand_Read 16 r2 = Inr (Nonce c)"
    using r length_rand_Read [OF r(1)] length_rand_Read [OF r(2)]
    by (simp_all add: c' c0_def wf_challenge_def)
qed

text \<open>Generation fails exactly on a difficulty out of range or a failing random source.\<close>

lemma Generate_ok_iff:
  "is_ok (Generate g d now r1 r2) \<longleftrightarrow>
     MinDifficulty \<le> d \<and> d \<le> MaxDifficulty \<and> is_ok (rand_Read 32 r1) \<and> is_ok (rand_Read 16 r2)"
  by (cases "rand_Read 32 r1"; cases "rand_Read 16 r2")
    (auto simp: Generate_def Let_def pow_sizes not_less)

end
