(* ===== verification/Go_Float.thy ===== *)
theory Go_Float
  imports Go_Prelude Complex_Main "HOL-Library.Log_Nat"
begin

text \<open>
  Go's \<^verbatim>\<open>float64\<close>: IEEE 754 binary64 with rounding to nearest, ties to even, as an
  executable type. A finite value is the rational number it denotes; the sign of zero is
  not kept, since no code under src/ can observe it. Every arithmetic operation rounds once
  (no fused multiply-add, which is what the compiler emits on amd64).

  The rounding function \<open>rnd\<close> is monotone, odd and leaves representable numbers alone; the
  components use it through the locale \<open>rounding\<close> at the end of the theory only.
\<close>

section \<open>Definitions\<close>

subsection \<open>Rounding\<close>

definition rne :: "rat \<Rightarrow> int" where
  "rne x = (let f = \<lfloor>x\<rfloor>; r = x - of_int f
            in if r < 1 / 2 \<or> (r = 1 / 2 \<and> even f) then f else f + 1)"

text \<open>The binary exponent of a positive number: \<open>2 powi bexp x \<le> x < 2 powi (bexp x + 1)\<close>.\<close>

definition bexp :: "rat \<Rightarrow> int" where
  "bexp x = (if 1 \<le> x then int (floorlog 2 (nat \<lfloor>x\<rfloor>)) - 1
             else - int (floorlog 2 (nat (\<lceil>1 / x\<rceil> - 1))))"

text \<open>The spacing of the 53-bit significands around a number, never below the subnormals'.\<close>

definition ulp_exp :: "rat \<Rightarrow> int" where
  "ulp_exp x = max (bexp \<bar>x\<bar> - 52) (- 1074)"

definition rnd :: "rat \<Rightarrow> rat" where
  "rnd x = (if x = 0 then 0
            else let q = 2 powi ulp_exp x in of_int (rne (x / q)) * q)"

subsection \<open>Values and operations\<close>

datatype f64 = Fin rat | PInf | NInf | NaN

definition f64_of_rat :: "rat \<Rightarrow> f64" where
  "f64_of_rat x = (let r = rnd x
     in if 2 ^ 1024 \<le> r then PInf else if r \<le> - (2 ^ 1024) then NInf else Fin r)"

definition f64_of_int :: "int \<Rightarrow> f64" where
  "f64_of_int i = f64_of_rat (of_int i)"

fun f64_add :: "f64 \<Rightarrow> f64 \<Rightarrow> f64" where
  "f64_add (Fin a) (Fin b) = f64_of_rat (a + b)"
| "f64_add NaN b = NaN"
| "f64_add a NaN = NaN"
| "f64_add PInf NInf = NaN"
| "f64_add NInf PInf = NaN"
| "f64_add PInf b = PInf"
| "f64_add a PInf = PInf"
| "f64_add NInf b = NInf"
| "f64_add a NInf = NInf"

fun f64_neg :: "f64 \<Rightarrow> f64" where
  "f64_neg (Fin a) = Fin (- a)"
| "f64_neg PInf = NInf"
| "f64_neg NInf = PInf"
| "f64_neg NaN = NaN"

definition f64_sub :: "f64 \<Rightarrow> f64 \<Rightarrow> f64" where
  "f64_sub a b = f64_add a (f64_neg b)"

fun f64_sgn :: "f64 \<Rightarrow> rat" where
  "f64_sgn (Fin a) = sgn a"
| "f64_sgn PInf = 1"
| "f64_sgn NInf = - 1"
| "f64_sgn NaN = 0"

definition f64_signed_inf :: "rat \<Rightarrow> f64" where
  "f64_signed_inf s = (if 0 < s then PInf else if s < 0 then NInf else NaN)"

fun f64_mul :: "f64 \<Rightarrow> f64 \<Rightarrow> f64" where
  "f64_mul (Fin a) (Fin b) = f64_of_rat (a * b)"
| "f64_mul NaN b = NaN"
| "f64_mul a NaN = NaN"
| "f64_mul a b = f64_signed_inf (f64_sgn a * f64_sgn b)"

text \<open>
  Division is only needed by divisors that are finite and not zero; the other cases follow
  IEEE 754 with an unsigned zero taken as positive.
\<close>

fun f64_div :: "f64 \<Rightarrow> f64 \<Rightarrow> f64" where
  "f64_div (Fin a) (Fin b) = (if b = 0 then f64_signed_inf (sgn a) else f64_of_rat (a / b))"
| "f64_div NaN b = NaN"
| "f64_div a NaN = NaN"
| "f64_div (Fin a) b = Fin 0"
| "f64_div a (Fin b) = f64_signed_inf (f64_sgn a * (if b < 0 then - 1 else 1))"
| "f64_div a b = NaN"

fun f64_less :: "f64 \<Rightarrow> f64 \<Rightarrow> bool" where
  "f64_less (Fin a) (Fin b) = (a < b)"
| "f64_less NaN b = False"
| "f64_less a NaN = False"
| "f64_less NInf b = (b \<noteq> NInf)"
| "f64_less a PInf = (a \<noteq> PInf)"
| "f64_less a b = False"

fun f64_le :: "f64 \<Rightarrow> f64 \<Rightarrow> bool" where
  "f64_le (Fin a) (Fin b) = (a \<le> b)"
| "f64_le NaN b = False"
| "f64_le a NaN = False"
| "f64_le NInf b = True"
| "f64_le a PInf = True"
| "f64_le a b = False"

definition f64_trunc :: "rat \<Rightarrow> int" where
  "f64_trunc q = (if 0 \<le> q then \<lfloor>q\<rfloor> else - \<lfloor>- q\<rfloor>)"

text \<open>\<^verbatim>\<open>int64(f)\<close>: truncation; out of range amd64 gives the least int64.\<close>

fun f64_to_int64 :: "f64 \<Rightarrow> i64" where
  "f64_to_int64 (Fin q) =
     (if - (2 ^ 63) \<le> f64_trunc q \<and> f64_trunc q < 2 ^ 63
      then word_of_int (f64_trunc q) else word_of_int (- (2 ^ 63)))"
| "f64_to_int64 f = word_of_int (- (2 ^ 63))"

text \<open>Not negative and not NaN: finite, or an overflow to \<open>PInf\<close>.\<close>

fun f64_nonneg :: "f64 \<Rightarrow> bool" where
  "f64_nonneg (Fin q) = (0 \<le> q)"
| "f64_nonneg PInf = True"
| "f64_nonneg f = False"

subsection \<open>Durations in seconds\<close>

text \<open>\<^verbatim>\<open>Duration.Seconds\<close>: whole seconds plus the rest divided by \<open>10 ^ 9\<close>, in float64.\<close>

definition Duration_Seconds :: "duration \<Rightarrow> f64" where
  "Duration_Seconds d =
     f64_add (f64_of_int (d sdiv time_Second))
             (f64_div (f64_of_int (d smod time_Second)) (f64_of_int time_Second))"

section \<open>Lemmas\<close>

subsection \<open>Rounding to an integer\<close>

lemma rne_of_int [simp]: "rne (of_int i) = i"
  by (simp add: rne_def Let_def)

lemma rne_floor: "\<lfloor>x\<rfloor> \<le> rne x \<and> rne x \<le> \<lfloor>x\<rfloor> + 1"
  by (simp add: rne_def Let_def)

lemma rne_error: "\<bar>of_int (rne x) - x\<bar> \<le> 1 / 2"
proof -
  have "of_int \<lfloor>x\<rfloor> \<le> x" "x < of_int \<lfloor>x\<rfloor> + 1" by linarith+
  then show ?thesis by (auto simp: rne_def Let_def abs_le_iff)
qed

lemma rne_mono:
  assumes "x \<le> y" shows "rne x \<le> rne y"
proof (cases "\<lfloor>x\<rfloor> = \<lfloor>y\<rfloor>")
  case True
  then show ?thesis using assms by (auto simp: rne_def Let_def)
next
  case False
  then have "\<lfloor>x\<rfloor> + 1 \<le> \<lfloor>y\<rfloor>" using floor_mono [OF assms] by linarith
  then show ?thesis using rne_floor [of x] rne_floor [of y] by linarith
qed

lemma rne_minus: "rne (- x) = - rne x"
proof (cases "x = of_int \<lfloor>x\<rfloor>")
  case True
  then obtain i where "x = of_int i" by blast
  then have "- x = of_int (- i)" by simp
  then show ?thesis using \<open>x = of_int i\<close> by (metis rne_of_int)
next
  case False
  then have gt: "of_int \<lfloor>x\<rfloor> < x" by (metis floor_correct order_le_less)
  have lt: "x < of_int \<lfloor>x\<rfloor> + 1" by linarith
  have "\<lfloor>- x\<rfloor> = - \<lfloor>x\<rfloor> - 1"
    using gt lt by (intro floor_unique) auto
  then show ?thesis using gt lt by (auto simp: rne_def Let_def)
qed

subsection \<open>The binary exponent\<close>

lemma powi_of_nat: "(2::rat) powi int n = 2 ^ n"
  by (simp add: power_int_def)

lemma powi_mono: "i \<le> j \<Longrightarrow> (2::rat) powi i \<le> 2 powi j"
  by (rule power_int_increasing) auto

lemma powi_pos [simp]: "0 < (2::rat) powi i"
  by (simp add: zero_less_power_int)

lemma powi_add: "(2::rat) powi (i + j) = 2 powi i * 2 powi j"
  by (simp add: power_int_add)

lemma powi_div:
  assumes "e \<le> k" shows "(2::rat) powi k / 2 powi e = of_int (2 ^ nat (k - e))"
proof -
  have "(2::rat) powi k = 2 powi (int (nat (k - e)) + e)" using assms by simp
  also have "\<dots> = 2 ^ nat (k - e) * 2 powi e" unfolding powi_add powi_of_nat ..
  finally show ?thesis by simp
qed

lemma floorlog2_bounds:
  assumes "0 < n"
  shows "(2::rat) ^ (floorlog 2 n - 1) \<le> of_nat n" "of_nat n + 1 \<le> (2::rat) ^ floorlog 2 n"
    "0 < floorlog 2 n"
proof -
  have b: "2 ^ (floorlog 2 n - 1) \<le> n" "n + 1 \<le> 2 ^ floorlog 2 n"
    using floorlog_bounds [of n 2] assms by auto
  have "of_nat (2 ^ (floorlog 2 n - 1)) \<le> (of_nat n :: rat)"
    using b(1) by (simp only: of_nat_le_iff)
  then show "(2::rat) ^ (floorlog 2 n - 1) \<le> of_nat n" by simp
  have "of_nat (n + 1) \<le> (of_nat (2 ^ floorlog 2 n) :: rat)"
    using b(2) by (simp only: of_nat_le_iff)
  then show "of_nat n + 1 \<le> (2::rat) ^ floorlog 2 n" by simp
  show "0 < floorlog 2 n" using assms by (simp add: floorlog_def)
qed

lemma bexp_ge1:
  assumes "1 \<le> x" shows "2 powi bexp x \<le> x" "x < 2 powi (bexp x + 1)"
proof -
  define n where "n = nat \<lfloor>x\<rfloor>"
  have fl: "1 \<le> \<lfloor>x\<rfloor>" using assms by simp
  then have nx: "(of_nat n :: rat) = of_int \<lfloor>x\<rfloor>" by (simp add: n_def)
  have n: "0 < n" "of_nat n \<le> x" "x < of_nat n + 1"
    using fl floor_correct [of x] unfolding nx by (simp_all add: n_def)
  let ?L = "floorlog 2 n"
  have b: "bexp x = int (?L - 1)" "bexp x + 1 = int ?L"
    using assms floorlog2_bounds(3) [OF n(1)] by (auto simp: bexp_def n_def)
  show "2 powi bexp x \<le> x"
    unfolding b(1) powi_of_nat using floorlog2_bounds(1) [OF n(1)] n(2) by (rule order_trans)
  show "x < 2 powi (bexp x + 1)"
    unfolding b(2) powi_of_nat using n(3) floorlog2_bounds(2) [OF n(1)] by (rule less_le_trans)
qed

lemma bexp_lt1:
  assumes "0 < x" "x < 1" shows "2 powi bexp x \<le> x" "x < 2 powi (bexp x + 1)"
proof -
  define y where "y = 1 / x"
  have y: "1 < y" "x = 1 / y" using assms by (auto simp: y_def field_simps)
  define n where "n = nat (\<lceil>y\<rceil> - 1)"
  have ce: "1 < \<lceil>y\<rceil>" using y(1) by simp
  then have ny: "(of_nat n :: rat) = of_int \<lceil>y\<rceil> - 1" by (simp add: n_def)
  have n: "0 < n" "of_nat n < y" "y \<le> of_nat n + 1"
    using ce ceiling_correct [of y] unfolding ny by (simp_all add: n_def)
  let ?L = "floorlog 2 n"
  have b: "bexp x = - int ?L" "bexp x + 1 = - int (?L - 1)"
    using assms floorlog2_bounds(3) [OF n(1)] by (auto simp: bexp_def n_def y_def)
  have "y \<le> 2 ^ ?L"
    using n(3) floorlog2_bounds(2) [OF n(1)] by (rule order_trans)
  then show "2 powi bexp x \<le> x"
    using y(1) unfolding b(1) unfolding y(2)
    by (simp add: power_int_minus powi_of_nat field_simps)
  have "2 ^ (?L - 1) < y"
    using floorlog2_bounds(1) [OF n(1)] n(2) by (rule le_less_trans)
  then show "x < 2 powi (bexp x + 1)"
    using y(1) unfolding b(2) unfolding y(2)
    by (simp add: power_int_minus powi_of_nat field_simps)
qed

lemma bexp_bounds:
  assumes "0 < x" shows "2 powi bexp x \<le> x" "x < 2 powi (bexp x + 1)"
  using bexp_ge1 [of x] bexp_lt1 [of x] assms by (cases "1 \<le> x"; simp)+

lemma powi_less_imp: "(2::rat) powi i < 2 powi j \<Longrightarrow> i < j"
  by (metis linorder_not_le powi_mono)

lemma bexp_mono:
  assumes "0 < x" "x \<le> y" shows "bexp x \<le> bexp y"
proof -
  have "(2::rat) powi bexp x < 2 powi (bexp y + 1)"
    using bexp_bounds(1) [of x] bexp_bounds(2) [of y] assms by linarith
  then show ?thesis using powi_less_imp by fastforce
qed

lemma bexp_less:
  assumes "0 < x" "x < 2 powi k" shows "bexp x < k"
  using bexp_bounds(1) [OF assms(1)] assms(2) by (intro powi_less_imp) linarith

subsection \<open>Rounding to 53 bits\<close>

lemma rnd_0 [simp]: "rnd 0 = 0"
  by (simp add: rnd_def)

lemma rnd_unfold:
  "x \<noteq> 0 \<Longrightarrow> rnd x = of_int (rne (x / 2 powi ulp_exp x)) * 2 powi ulp_exp x"
  by (simp add: rnd_def Let_def)

lemma rnd_minus: "rnd (- x) = - rnd x"
proof -
  have "ulp_exp (- x) = ulp_exp x" by (simp add: ulp_exp_def)
  moreover have "rne (- x / q) = - rne (x / q)" for q
    using rne_minus [of "x / q"] by simp
  ultimately show ?thesis by (simp add: rnd_def Let_def)
qed

text \<open>A multiple of the spacing around it is its own rounding.\<close>

lemma rnd_grid:
  assumes "x = of_int m * 2 powi k" and "ulp_exp x \<le> k"
  shows "rnd x = x"
proof -
  have "x / 2 powi ulp_exp x = of_int m * (2 powi k / 2 powi ulp_exp x)"
    by (subst assms(1)) simp
  also have "\<dots> = of_int (m * 2 ^ nat (k - ulp_exp x))"
    unfolding powi_div [OF assms(2)] by simp
  finally have eq: "x / 2 powi ulp_exp x = of_int (m * 2 ^ nat (k - ulp_exp x))" .
  have "of_int (rne (x / 2 powi ulp_exp x)) = x / 2 powi ulp_exp x"
    unfolding eq rne_of_int ..
  then show ?thesis by (simp add: rnd_def Let_def)
qed

lemma rnd_dyadic:
  assumes "\<bar>m\<bar> < 2 ^ 53" and "k \<le> 1074"
  shows "rnd (of_int m / 2 ^ k) = of_int m / 2 ^ k"
proof (cases "m = 0")
  case False
  let ?x = "of_int m / 2 ^ k :: rat"
  have eq: "?x = of_int m * 2 powi (- int k)"
    by (simp add: power_int_minus powi_of_nat divide_inverse)
  have "\<bar>of_int m\<bar> < (2::rat) ^ 53"
    using assms(1) by (metis of_int_abs of_int_less_iff of_int_numeral of_int_power)
  then have "\<bar>?x\<bar> < 2 powi (53 + - int k)"
    unfolding powi_add by (simp add: power_int_minus powi_of_nat abs_mult field_simps)
  then have "bexp \<bar>?x\<bar> < 53 - int k"
    using False by (intro bexp_less) auto
  then show ?thesis
    using assms(2) by (intro rnd_grid [OF eq]) (auto simp: ulp_exp_def)
qed simp

lemma rnd_of_int: "\<bar>i\<bar> < 2 ^ 53 \<Longrightarrow> rnd (of_int i) = of_int i"
  using rnd_dyadic [of i 0] by simp

lemma rnd_same_ulp_mono:
  assumes "x \<le> y" "ulp_exp x = ulp_exp y" "x \<noteq> 0" "y \<noteq> 0"
  shows "rnd x \<le> rnd y"
proof -
  have "x / 2 powi ulp_exp y \<le> y / 2 powi ulp_exp y"
    using assms(1) by (simp add: divide_right_mono less_imp_le)
  then have "rne (x / 2 powi ulp_exp y) \<le> rne (y / 2 powi ulp_exp y)" by (rule rne_mono)
  then show ?thesis using assms by (simp add: rnd_def Let_def less_imp_le)
qed

text \<open>
  Across two spacings the power of two that separates them lies on both grids.
\<close>

lemma rnd_mono_pos:
  assumes "0 < x" "x \<le> y" shows "rnd x \<le> rnd y"
proof (cases "ulp_exp x = ulp_exp y")
  case True
  then show ?thesis using assms by (intro rnd_same_ulp_mono) auto
next
  case False
  let ?T = "2 powi bexp y :: rat"
  have le: "bexp x \<le> bexp y" using bexp_mono assms by blast
  then have up: "ulp_exp x < ulp_exp y" "ulp_exp y = bexp y - 52" "bexp x < bexp y"
    using False assms by (auto simp: ulp_exp_def max_def split: if_splits)
  have xT: "x < ?T"
    using bexp_bounds(2) [OF assms(1)] powi_mono [of "bexp x + 1" "bexp y"] up(3) by linarith
  have T_le: "?T \<le> y" using bexp_bounds(1) [of y] assms by linarith
  have onT: "of_int (rne (?T / 2 powi e)) * 2 powi e = ?T" if "e \<le> bexp y" for e
  proof -
    have "of_int (rne (?T / 2 powi e)) = ?T / 2 powi e"
      unfolding powi_div [OF that] rne_of_int ..
    then show ?thesis by simp
  qed
  have "rnd x \<le> ?T"
  proof -
    have "rne (x / 2 powi ulp_exp x) \<le> rne (?T / 2 powi ulp_exp x)"
      using xT by (intro rne_mono) (simp add: divide_right_mono less_imp_le)
    then have "of_int (rne (x / 2 powi ulp_exp x)) * 2 powi ulp_exp x
        \<le> of_int (rne (?T / 2 powi ulp_exp x)) * (2 powi ulp_exp x :: rat)"
      by (intro mult_right_mono) (auto simp: less_imp_le)
    moreover have "rnd x = of_int (rne (x / 2 powi ulp_exp x)) * 2 powi ulp_exp x"
      using assms(1) by (intro rnd_unfold) simp
    moreover have "ulp_exp x \<le> bexp y" using up by linarith
    ultimately show ?thesis using onT by metis
  qed
  moreover have "?T \<le> rnd y"
  proof -
    have "rne (?T / 2 powi ulp_exp y) \<le> rne (y / 2 powi ulp_exp y)"
      using T_le by (intro rne_mono) (simp add: divide_right_mono less_imp_le)
    then have "of_int (rne (?T / 2 powi ulp_exp y)) * (2 powi ulp_exp y :: rat)
        \<le> of_int (rne (y / 2 powi ulp_exp y)) * 2 powi ulp_exp y"
      by (intro mult_right_mono) (auto simp: less_imp_le)
    moreover have "rnd y = of_int (rne (y / 2 powi ulp_exp y)) * 2 powi ulp_exp y"
      using assms by (intro rnd_unfold) simp
    moreover have "ulp_exp y \<le> bexp y" using up by linarith
    ultimately show ?thesis using onT by metis
  qed
  ultimately show ?thesis by linarith
qed

lemma rnd_nonneg: "0 \<le> x \<Longrightarrow> 0 \<le> rnd x"
proof -
  assume "0 \<le> x"
  then have "0 \<le> \<lfloor>x / 2 powi ulp_exp x\<rfloor>" by (simp add: less_imp_le)
  then have "0 \<le> rne (x / 2 powi ulp_exp x)" using rne_floor order_trans by blast
  then show ?thesis by (simp add: rnd_def Let_def less_imp_le)
qed

lemma rnd_mono: "x \<le> y \<Longrightarrow> rnd x \<le> rnd y"
proof -
  assume xy: "x \<le> y"
  consider "0 < x" | "y < 0" | "x \<le> 0" "0 \<le> y" by linarith
  then show ?thesis
  proof cases
    case 1
    then show ?thesis using xy by (rule rnd_mono_pos)
  next
    case 2
    then have "rnd (- y) \<le> rnd (- x)" using xy by (intro rnd_mono_pos) auto
    then show ?thesis by (simp add: rnd_minus)
  next
    case 3
    then have "0 \<le> rnd y" "0 \<le> rnd (- x)" using rnd_nonneg by auto
    then show ?thesis by (simp add: rnd_minus)
  qed
qed

subsection \<open>The rounding interface\<close>

text \<open>
  What the clients of float64 arithmetic rely on: rounding is monotone and exact on small
  integers. Bounds by an integer, non-negativity and clamping follow.
\<close>

locale rounding =
  fixes round_to :: "rat \<Rightarrow> rat" and max_exact :: int
  assumes round_mono: "x \<le> y \<Longrightarrow> round_to x \<le> round_to y"
    and round_int: "\<bar>i\<bar> < max_exact \<Longrightarrow> round_to (of_int i) = of_int i"
    and exact_pos: "1 < max_exact"
begin

lemma round_zero: "round_to 0 = 0"
  using round_int [of 0] exact_pos by simp

lemma round_nonneg: "0 \<le> x \<Longrightarrow> 0 \<le> round_to x"
  using round_mono [of 0 x] by (simp add: round_zero)

lemma round_le_int: "\<bar>i\<bar> < max_exact \<Longrightarrow> x \<le> of_int i \<Longrightarrow> round_to x \<le> of_int i"
  using round_mono [of x "of_int i"] round_int [of i] by simp

lemma int_le_round: "\<bar>i\<bar> < max_exact \<Longrightarrow> of_int i \<le> x \<Longrightarrow> of_int i \<le> round_to x"
  using round_mono [of "of_int i" x] round_int [of i] by simp

text \<open>Taking away one token from at least one leaves no debt, from at most \<open>i\<close> at most \<open>i - 1\<close>.\<close>

lemma round_take_one:
  assumes "1 \<le> x" "x \<le> of_int i" "\<bar>i\<bar> < max_exact" "1 \<le> i"
  shows "0 \<le> round_to (x - 1)" "round_to (x - 1) \<le> of_int (i - 1)"
proof -
  show "0 \<le> round_to (x - 1)" using assms(1) by (intro round_nonneg) simp
  show "round_to (x - 1) \<le> of_int (i - 1)"
    using assms by (intro round_le_int) auto
qed

end

interpretation rnd64: rounding rnd "2 ^ 53"
proof unfold_locales
  show "rnd x \<le> rnd y" if "x \<le> y" for x y using that by (rule rnd_mono)
  show "rnd (of_int i) = of_int i" if "\<bar>i\<bar> < 2 ^ 53" for i using that by (rule rnd_of_int)
qed simp

subsection \<open>Finite results\<close>

lemma rnd_pow2: "rnd (2 ^ n) = 2 ^ n"
proof -
  have "bexp (2 ^ n) < int n + 1"
    by (intro bexp_less) (simp_all only: zero_less_power zero_less_numeral powi_add powi_of_nat
        power_int_1_right, simp)
  then have "ulp_exp (2 ^ n) \<le> int n" by (simp add: ulp_exp_def)
  then show ?thesis
    by (intro rnd_grid [where m = 1 and k = "int n"]) (simp_all add: powi_of_nat)
qed

lemma f64_of_rat_Fin:
  assumes "\<bar>x\<bar> \<le> 2 ^ 1023" shows "f64_of_rat x = Fin (rnd x)"
proof -
  have "rnd x \<le> 2 ^ 1023" using rnd_mono [of x "2 ^ 1023"] assms unfolding rnd_pow2 by simp
  moreover have "- (2 ^ 1023) \<le> rnd x"
    using rnd_mono [of "- (2 ^ 1023)" x] assms unfolding rnd_minus rnd_pow2 by simp
  moreover have "(2::rat) ^ 1023 < 2 ^ 1024" by (rule power_strict_increasing) simp_all
  ultimately have "\<not> 2 ^ 1024 \<le> rnd x" "\<not> rnd x \<le> - (2 ^ 1024)" by linarith+
  then show ?thesis by (simp add: f64_of_rat_def Let_def)
qed

lemma f64_of_rat_small: "\<bar>x\<bar> \<le> 2 ^ 64 \<Longrightarrow> f64_of_rat x = Fin (rnd x)"
proof -
  assume "\<bar>x\<bar> \<le> 2 ^ 64"
  also have "(2::rat) ^ 64 \<le> 2 ^ 1023" by (rule power_increasing) simp_all
  finally show ?thesis by (rule f64_of_rat_Fin)
qed

lemma f64_of_int_exact: "\<bar>i\<bar> < 2 ^ 53 \<Longrightarrow> f64_of_int i = Fin (of_int i)"
proof -
  assume i: "\<bar>i\<bar> < 2 ^ 53"
  then have "\<bar>i\<bar> \<le> 2 ^ 64" by simp
  then have "of_int \<bar>i\<bar> \<le> (of_int (2 ^ 64) :: rat)" by (simp only: of_int_le_iff)
  then have "\<bar>of_int i :: rat\<bar> \<le> 2 ^ 64" by simp
  then show ?thesis using rnd_of_int [OF i] by (simp add: f64_of_int_def f64_of_rat_small)
qed

lemma f64_of_rat_nonneg: "0 \<le> x \<Longrightarrow> f64_nonneg (f64_of_rat x)"
  using rnd_nonneg [of x] by (auto simp: f64_of_rat_def Let_def)

lemma f64_mul_nonneg: "0 \<le> a \<Longrightarrow> 0 \<le> b \<Longrightarrow> f64_nonneg (f64_mul (Fin a) (Fin b))"
  by (simp add: f64_of_rat_nonneg)

lemma f64_add_nonneg: "f64_nonneg f \<Longrightarrow> f64_nonneg g \<Longrightarrow> f64_nonneg (f64_add f g)"
  by (cases f; cases g) (simp_all add: f64_of_rat_nonneg)

subsection \<open>Durations\<close>

lemma sdiv_nonneg: "0 \<le> (d::int) \<Longrightarrow> d sdiv time_Second = d div time_Second"
  by (cases "d = 0") (simp_all add: signed_divide_int_def)

lemma smod_nonneg: "0 \<le> (d::int) \<Longrightarrow> d smod time_Second = d mod time_Second"
  by (cases "d = 0") (simp_all add: signed_modulo_int_def)

text \<open>A non-negative duration, read as seconds: the rounded sum of its two parts.\<close>

lemma Duration_Seconds_eq:
  assumes "0 \<le> d" "d \<le> max_duration"
  shows "Duration_Seconds d =
    Fin (rnd (of_int (d div time_Second) + rnd (of_int (d mod time_Second) / of_int time_Second)))"
    and "0 \<le> rnd (of_int (d mod time_Second) / of_int time_Second)"
    and "rnd (of_int (d mod time_Second) / of_int time_Second) \<le> 1 - 1 / 2 ^ 30"
proof -
  let ?s = "d div time_Second" and ?r = "d mod time_Second"
  have s: "0 \<le> ?s" "?s < 2 ^ 34" and r: "0 \<le> ?r" "?r \<le> 999999999"
    using assms by auto
  let ?f = "rnd (of_int ?r / of_int time_Second)"
  have q: "0 \<le> (of_int ?r / of_int time_Second :: rat)"
    using r(1) by simp
  have "of_int ?r \<le> (of_int 999999999 :: rat)" using r(2) by (simp only: of_int_le_iff)
  then have q1: "(of_int ?r / of_int time_Second :: rat) \<le> of_int (2 ^ 30 - 1) / 2 ^ 30"
    by simp
  show f0: "0 \<le> ?f" using q by (rule rnd_nonneg)
  have "?f \<le> rnd (of_int (2 ^ 30 - 1) / 2 ^ 30)" using q1 by (rule rnd_mono)
  also have "\<dots> = of_int (2 ^ 30 - 1) / 2 ^ 30" by (rule rnd_dyadic) simp_all
  finally show f1: "?f \<le> 1 - 1 / 2 ^ 30" by simp
  have e1: "f64_of_int ?s = Fin (of_int ?s)" using s by (intro f64_of_int_exact) simp
  have e2: "f64_of_int ?r = Fin (of_int ?r)" using r by (intro f64_of_int_exact) simp
  have e3: "f64_of_int time_Second = Fin (of_int time_Second)" by (rule f64_of_int_exact) simp
  have e4: "f64_of_rat (of_int ?r / of_int time_Second) = Fin ?f"
    using q q1 by (intro f64_of_rat_small) simp
  have "of_int ?s \<le> (of_int (2 ^ 34) :: rat)" using s(2) by (simp only: of_int_le_iff)
  then have e5: "f64_of_rat (of_int ?s + ?f) = Fin (rnd (of_int ?s + ?f))"
    using s(1) f0 f1 by (intro f64_of_rat_small) simp
  show "Duration_Seconds d = Fin (rnd (of_int ?s + ?f))"
    unfolding Duration_Seconds_def sdiv_nonneg [OF assms(1)] smod_nonneg [OF assms(1)] e1 e2 e3
    using e4 e5 by simp
qed

text \<open>
  For durations up to \<open>2 ^ 22\<close> seconds (48 days) the conversion \<^verbatim>\<open>int64(d.Seconds())\<close> is the
  whole number of seconds; from \<open>2 ^ 24\<close> seconds on, rounding can reach the next integer.
\<close>

lemma Seconds_to_int64:
  assumes "0 \<le> d" "d < 2 ^ 22 * time_Second"
  shows "f64_to_int64 (Duration_Seconds d) = word_of_int (d div time_Second)"
proof -
  let ?s = "d div time_Second"
  let ?f = "rnd (of_int (d mod time_Second) / of_int time_Second)"
  have d: "d \<le> max_duration" using assms by simp
  note S = Duration_Seconds_eq [OF assms(1) d]
  have s: "0 \<le> ?s" "?s < 2 ^ 22" using assms by auto
  have lo: "of_int ?s \<le> rnd (of_int ?s + ?f)"
    using s S(2) by (intro rnd64.int_le_round) auto
  have le: "of_int ?s + ?f \<le> of_int (?s * 2 ^ 30 + 2 ^ 30 - 1) / 2 ^ 30"
    using S(3) by simp
  have "rnd (of_int ?s + ?f) \<le> rnd (of_int (?s * 2 ^ 30 + 2 ^ 30 - 1) / 2 ^ 30)"
    using le by (rule rnd_mono)
  also have "\<dots> = of_int (?s * 2 ^ 30 + 2 ^ 30 - 1) / 2 ^ 30"
    using s by (intro rnd_dyadic) simp_all
  also have "\<dots> < of_int ?s + 1" by simp
  finally have hi: "rnd (of_int ?s + ?f) < of_int ?s + 1" .
  have "0 \<le> (of_int ?s :: rat)" using s(1) by simp
  then have "0 \<le> rnd (of_int ?s + ?f)" using lo by linarith
  moreover have "\<lfloor>rnd (of_int ?s + ?f)\<rfloor> = ?s" using lo hi by (rule floor_unique)
  ultimately have "f64_trunc (rnd (of_int ?s + ?f)) = ?s" by (simp add: f64_trunc_def)
  then show ?thesis using s unfolding S(1) by simp
qed

subsection \<open>Rounding errors\<close>

text \<open>
  Rounding up adds at most the relative error \<open>2 ^ -53\<close>, or next to nothing among the
  subnormals (\<open>2 ^ -100\<close> is generous: the exact bound is \<open>2 ^ -1075\<close>).
\<close>

lemma rnd_upper:
  assumes "0 \<le> x" shows "rnd x \<le> x * (1 + 1 / 2 ^ 53) + 1 / 2 ^ 100"
proof (cases "x = 0")
  case False
  then have x: "0 < x" using assms by simp
  let ?q = "2 powi ulp_exp x :: rat"
  have "of_int (rne (x / ?q)) \<le> x / ?q + 1 / 2"
    using rne_error [of "x / ?q"] by linarith
  then have "of_int (rne (x / ?q)) * ?q \<le> (x / ?q + 1 / 2) * ?q"
    by (rule mult_right_mono) simp
  then have r: "rnd x \<le> x + ?q / 2"
    using False by (simp add: rnd_unfold algebra_simps)
  have "?q \<le> 2 powi (bexp x - 52) + 2 powi (- 1074)"
    using x by (simp add: ulp_exp_def max_def)
  moreover have "2 powi (bexp x - 52) \<le> x / 2 ^ 52"
  proof -
    have "2 powi (bexp x - 52) = 2 powi bexp x * (2 powi (- int 52) :: rat)"
      using powi_add [of "bexp x" "- int 52"] by simp
    also have "\<dots> = 2 powi bexp x / 2 ^ 52"
      by (simp only: power_int_minus powi_of_nat divide_inverse)
    also have "\<dots> \<le> x / 2 ^ 52"
      using bexp_bounds [OF x] by (simp add: divide_right_mono)
    finally show ?thesis .
  qed
  moreover have "(2::rat) powi (- 1074) \<le> 2 powi (- int 99)"
    by (rule powi_mono) simp
  moreover have "(2::rat) powi (- int 99) = 2 / 2 ^ 100"
    by (simp only: power_int_minus powi_of_nat) simp
  ultimately have "?q / 2 \<le> x / 2 ^ 53 + 1 / 2 ^ 100"
    by simp
  then show ?thesis using r by (simp add: algebra_simps)
qed simp

text \<open>\<^verbatim>\<open>Seconds()\<close> is at most the duration times \<open>1 + 2 ^ -51\<close>.\<close>

lemma Duration_Seconds_upper:
  assumes "0 \<le> d" "d \<le> max_duration"
  obtains S where "Duration_Seconds d = Fin S" "0 \<le> S" "d = 0 \<longrightarrow> S = 0"
    "S \<le> of_int d / of_int time_Second * (1 + 1 / 2 ^ 51)"
proof -
  let ?s = "d div time_Second" and ?r = "d mod time_Second"
  let ?f = "of_int ?r / of_int time_Second :: rat"
  let ?e = "of_int d / of_int time_Second :: rat"
  let ?S = "rnd (of_int ?s + rnd ?f)"
  have f0: "0 \<le> ?f" and s0: "0 \<le> (of_int ?s :: rat)" using assms by simp_all
  have e: "?e = of_int ?s + ?f"
  proof -
    have "of_int d = (of_int (?s * time_Second + ?r) :: rat)" by simp
    then show ?thesis unfolding of_int_add of_int_mult by simp
  qed
  have nn: "0 \<le> of_int ?s + rnd ?f" using s0 rnd_nonneg [OF f0] by simp
  have zero: "d = 0 \<longrightarrow> ?S = 0" by simp
  have bound: "?S \<le> ?e * (1 + 1 / 2 ^ 51)"
  proof (cases "d = 0")
    case False
    then have "1 \<le> d" using assms by simp
    then have "(1::rat) \<le> of_int d" by simp
    then have "1 / 10 ^ 9 \<le> ?e" by simp
    moreover have "rnd ?f \<le> ?f * (1 + 1 / 2 ^ 53) + 1 / 2 ^ 100" using f0 by (rule rnd_upper)
    moreover have "?S \<le> (of_int ?s + rnd ?f) * (1 + 1 / 2 ^ 53) + 1 / 2 ^ 100"
      using nn by (rule rnd_upper)
    ultimately show ?thesis using s0 f0 unfolding e by (simp add: field_simps)
  qed simp
  show thesis
    using that [of ?S] Duration_Seconds_eq(1) [OF assms] rnd_nonneg [OF nn] zero bound by blast
qed

end
