(* ===== verification/Pow_Verifier.thy ===== *)
theory Pow_Verifier
  imports Pow_Generator Go_Float
begin

text \<open>
  \<^verbatim>\<open>internal/pow/verifier.go\<close>: the four checks of a solution, in the order of the code:
  fields, signature, timestamp window, leading zero bits.
\<close>

unbundle bit_operations_syntax

section \<open>Definitions\<close>

definition ErrInvalidSignature :: go_error where
  [go_errs]: "ErrInvalidSignature = Sentinel ''pow.ErrInvalidSignature'' ''invalid challenge signature''"

definition ErrChallengeExpired :: go_error where
  [go_errs]: "ErrChallengeExpired = Sentinel ''pow.ErrChallengeExpired'' ''challenge expired''"

definition ErrFutureTimestamp :: go_error where
  [go_errs]: "ErrFutureTimestamp =
     Sentinel ''pow.ErrFutureTimestamp'' ''challenge timestamp is in the future''"

definition ErrInsufficientWork :: go_error where
  [go_errs]: "ErrInsufficientWork =
     Sentinel ''pow.ErrInsufficientWork'' ''solution does not meet difficulty requirement''"

record VerifierConfig =
  vc_Secret :: "byte list"
  vc_ChallengeTimeout :: duration
  vc_ClockSkew :: duration

record verifierImpl =
  ver_secret :: "byte list"
  challengeTimeout :: duration
  clockSkew :: duration

definition NewVerifier :: "VerifierConfig \<Rightarrow> verifierImpl result" where
  "NewVerifier cfg =
    (if length (vc_Secret cfg) < MinSecretLength then Inl ErrSecretTooShort
     else
       let timeout = vc_ChallengeTimeout cfg;
           timeout = (if timeout = 0 then 60 * time_Second else timeout);
           skew = vc_ClockSkew cfg;
           skew = (if skew = 0 then 30 * time_Second else skew)
       in Inr \<lparr>ver_secret = vc_Secret cfg, challengeTimeout = timeout, clockSkew = skew\<rparr>)"

definition verifySignature :: "verifierImpl \<Rightarrow> challenge \<Rightarrow> bool" where
  "verifySignature v c =
    (let data = Challenge_MarshalUnsigned c;
         expected = hmac_sha256 (ver_secret v) data
     in Signature c = expected)"

text \<open>The subtraction and the sum of int64 values wrap; the comparisons are signed.\<close>

definition validateTimestamp :: "verifierImpl \<Rightarrow> instant \<Rightarrow> i64 \<Rightarrow> go_error option" where
  "validateTimestamp v t challengeTime =
    (let now = time_Unix t;
         age = now - challengeTime;
         maxAge = f64_to_int64 (Duration_Seconds (challengeTimeout v))
                + f64_to_int64 (Duration_Seconds (clockSkew v))
     in if sint maxAge < sint age then Some ErrChallengeExpired
        else if sint age < sint (- f64_to_int64 (Duration_Seconds (clockSkew v)))
        then Some ErrFutureTimestamp
        else None)"

function zero_bytes_loop :: "byte list \<Rightarrow> nat \<Rightarrow> nat \<Rightarrow> bool" where
  "zero_bytes_loop hash i fullBytes =
    (if i < fullBytes
     then (if hash ! i \<noteq> 0 then False else zero_bytes_loop hash (Suc i) fullBytes)
     else True)"
  by pat_completeness auto
termination
  by (relation "measure (\<lambda>(hash, i, fullBytes). fullBytes - i)") auto

declare zero_bytes_loop.simps [simp del]

definition hasLeadingZeros :: "byte list \<Rightarrow> nat \<Rightarrow> bool" where
  "hasLeadingZeros hash n =
    (let fullBytes = n div 8
     in if \<not> zero_bytes_loop hash 0 fullBytes then False
        else
          let remainingBits = n mod 8
          in if 0 < remainingBits
             then (let mask = push_bit (8 - remainingBits) (0xFF :: byte)
                   in if hash ! fullBytes AND mask \<noteq> 0 then False else True)
             else True)"

definition pow_data :: "challenge \<Rightarrow> u64 \<Rightarrow> byte list" where
  "pow_data c counter =
    (let data = make_bytes (ChallengeSize + CounterSize);
         data = go_copy data 0 (Challenge_Marshal c)
     in go_copy data ChallengeSize (be_PutUint64 counter))"

definition hasRequiredLeadingZeros :: "solution \<Rightarrow> bool" where
  "hasRequiredLeadingZeros s =
    (let hash = sha256_Sum256 (pow_data (Challenge s) (Counter s))
     in hasLeadingZeros hash (unat (Difficulty (Challenge s))))"

definition Verify :: "verifierImpl \<Rightarrow> instant \<Rightarrow> solution \<Rightarrow> go_error option" where
  "Verify v t s =
    (let c = Challenge s
     in case Challenge_Validate c of
          Some e \<Rightarrow> Some e
        | None \<Rightarrow>
           (if \<not> verifySignature v c then Some ErrInvalidSignature
            else case validateTimestamp v t (Timestamp c) of
                Some e \<Rightarrow> Some e
              | None \<Rightarrow>
                 (if \<not> hasRequiredLeadingZeros s then Some ErrInsufficientWork else None)))"

section \<open>Lemmas\<close>

subsection \<open>Leading zero bits\<close>

lemma zero_bytes_loop_iff: "zero_bytes_loop hash i n \<longleftrightarrow> (\<forall>j. i \<le> j \<and> j < n \<longrightarrow> hash ! j = 0)"
proof (induction hash i n rule: zero_bytes_loop.induct)
  case (1 hash i n)
  show ?case
  proof (cases "i < n \<and> hash ! i = 0")
    case True
    then have "zero_bytes_loop hash i n \<longleftrightarrow> zero_bytes_loop hash (Suc i) n"
      by (simp add: zero_bytes_loop.simps [of hash i n])
    also have "\<dots> \<longleftrightarrow> (\<forall>j. Suc i \<le> j \<and> j < n \<longrightarrow> hash ! j = 0)"
      using 1 True by simp
    also have "\<dots> \<longleftrightarrow> (\<forall>j. i \<le> j \<and> j < n \<longrightarrow> hash ! j = 0)"
    proof -
      have "i \<le> j \<longleftrightarrow> j = i \<or> Suc i \<le> j" for j by auto
      then show ?thesis using True by auto
    qed
    finally show ?thesis .
  next
    case False
    then show ?thesis by (auto simp: zero_bytes_loop.simps [of hash i n])
  qed
qed

lemma be_nat_zero_iff: "be_nat bs = 0 \<longleftrightarrow> (\<forall>b \<in> set bs. b = 0)"
proof (induction bs)
  case (Cons b bs)
  then show ?case unfolding be_nat_Cons by (auto simp: unat_eq_0)
qed simp

lemma zero_prefix_iff:
  assumes "k \<le> length hash"
  shows "zero_bytes_loop hash 0 k \<longleftrightarrow> be_nat (take k hash) = 0"
  using assms unfolding zero_bytes_loop_iff be_nat_zero_iff
  by (auto simp: set_conv_nth)

text \<open>The high bits of a byte are clear iff its value is small.\<close>

lemma mask_byte_iff:
  fixes h :: byte
  assumes "m \<le> 8"
  shows "h AND push_bit m 0xFF = 0 \<longleftrightarrow> unat h < 2 ^ m"
proof -
  have "0xFF = (mask 8 :: byte)" by (simp add: mask_eq_exp_minus_1)
  then have "h AND push_bit m 0xFF = 0 \<longleftrightarrow> (\<forall>j. m \<le> j \<and> j < 8 \<longrightarrow> \<not> bit h j)"
    by (auto simp: bit_eq_iff bit_simps)
  also have "\<dots> \<longleftrightarrow> take_bit m h = h"
    by (auto simp: bit_eq_iff bit_simps dest: bit_imp_le_length) (meson not_le)+
  also have "\<dots> \<longleftrightarrow> unat h < 2 ^ m"
    by (metis take_bit_nat_eq_self_iff unsigned_take_bit_eq unsigned_word_eqI)
  finally show ?thesis .
qed

text \<open>
  The loop over bytes and the masked byte compute the comparison of the digest, read as a
  number, with a power of two.
\<close>

lemma hasLeadingZeros_nat:
  assumes "n \<le> 8 * length hash"
  shows "hasLeadingZeros hash n \<longleftrightarrow> be_nat hash < 2 ^ (8 * length hash - n)"
proof -
  let ?k = "n div 8" and ?r = "n mod 8" and ?L = "length hash"
  have k: "?k \<le> ?L" using assms by linarith
  have split: "be_nat hash = be_nat (take ?k hash) * 256 ^ (?L - ?k) + be_nat (drop ?k hash)"
    using be_nat_append [of "take ?k hash" "drop ?k hash"] by simp
  have "(256::nat) ^ (?L - ?k) = 2 ^ (8 * (?L - ?k))" by (simp add: power_mult)
  moreover have e: "8 * (?L - ?k) = (8 * ?L - n) + ?r"
    using assms k by (simp add: algebra_simps minus_mod_eq_mult_div [symmetric])
  ultimately have top: "(256::nat) ^ (?L - ?k) = 2 ^ (8 * ?L - n) * 2 ^ ?r" by (simp only: power_add)
  show ?thesis
  proof (cases "be_nat (take ?k hash) = 0")
    case False
    have "2 ^ (8 * ?L - n) * 1 \<le> 2 ^ (8 * ?L - n) * (2 ^ ?r :: nat)"
      by (intro mult_left_mono) simp_all
    also have "\<dots> = 1 * 256 ^ (?L - ?k)" using top by simp
    also have "\<dots> \<le> be_nat (take ?k hash) * 256 ^ (?L - ?k)"
      using False by (intro mult_right_mono) simp_all
    also have "\<dots> \<le> be_nat hash" using split by simp
    finally have "\<not> be_nat hash < 2 ^ (8 * ?L - n)" by simp
    then show ?thesis using False zero_prefix_iff [OF k] by (simp add: hasLeadingZeros_def Let_def)
  next
    case True
    then have eq: "be_nat hash = be_nat (drop ?k hash)" using split by simp
    show ?thesis
    proof (cases "?r = 0")
      case r: True
      then have "be_nat hash < 2 ^ (8 * ?L - n)"
        using be_nat_bound [of "drop ?k hash"] top eq by simp
      then show ?thesis using True r zero_prefix_iff [OF k] by (simp add: hasLeadingZeros_def Let_def)
    next
      case r: False
      then have lt: "?k < ?L" using assms div_mult_mod_eq [of n 8] by linarith
      then have dr: "drop ?k hash = hash ! ?k # drop (Suc ?k) hash" by (rule Cons_nth_drop_Suc [symmetric])
      let ?m = "256 ^ (?L - Suc ?k) :: nat"
      have val: "be_nat hash = unat (hash ! ?k) * ?m + be_nat (drop (Suc ?k) hash)"
        unfolding eq dr be_nat_Cons by simp
      have rest: "be_nat (drop (Suc ?k) hash) < ?m" using be_nat_bound [of "drop (Suc ?k) hash"] by simp
      have "8 * ?L - n = (8 - ?r) + 8 * (?L - Suc ?k)" using e lt r by linarith
      moreover have "?m = 2 ^ (8 * (?L - Suc ?k))" by (simp add: power_mult)
      ultimately have b: "2 ^ (8 * ?L - n) = 2 ^ (8 - ?r) * ?m" by (simp only: power_add)
      have "be_nat hash < 2 ^ (8 * ?L - n) \<longleftrightarrow> unat (hash ! ?k) < 2 ^ (8 - ?r)"
      proof -
        have "be_nat hash div ?m = unat (hash ! ?k)" unfolding val using rest by simp
        then show ?thesis unfolding b by (metis div_less_iff_less_mult zero_less_numeral zero_less_power)
      qed
      then show ?thesis
        using True r zero_prefix_iff [OF k] mask_byte_iff [of "8 - ?r" "hash ! ?k"]
        by (simp add: hasLeadingZeros_def Let_def)
    qed
  qed
qed

subsection \<open>The four checks\<close>

text \<open>What is hashed is the wire form of the solution.\<close>

lemma pow_data_Solution_Marshal:
  "pow_data c n = Solution_Marshal \<lparr>Challenge = c, Counter = n\<rparr>"
  by (simp add: pow_data_def Solution_Marshal_def Let_def pow_sizes)

lemma hasRequiredLeadingZeros_nat:
  "hasRequiredLeadingZeros s \<longleftrightarrow>
     be_nat (sha256_Sum256 (Solution_Marshal s)) < 2 ^ (256 - unat (Difficulty (Challenge s)))"
proof -
  have "pow_data (Challenge s) (Counter s) = Solution_Marshal s"
    by (cases s) (simp add: pow_data_Solution_Marshal)
  moreover have "unat (Difficulty (Challenge s)) \<le> 8 * length (sha256_Sum256 (Solution_Marshal s))"
    using unat_byte_bound [of "Difficulty (Challenge s)"] by simp
  ultimately show ?thesis
    using hasLeadingZeros_nat by (simp add: hasRequiredLeadingZeros_def Let_def)
qed

lemma Challenge_Validate_None_iff:
  "Challenge_Validate c = None \<longleftrightarrow>
     Version c = pow_Version \<and> MinDifficulty \<le> Difficulty c \<and> Difficulty c \<le> MaxDifficulty"
  by (auto simp: Challenge_Validate_def not_less)

lemma Verify_None_iff:
  "Verify v t s = None \<longleftrightarrow>
     Challenge_Validate (Challenge s) = None \<and> verifySignature v (Challenge s) \<and>
     validateTimestamp v t (Timestamp (Challenge s)) = None \<and> hasRequiredLeadingZeros s"
  by (simp add: Verify_def Let_def split: option.split)

text \<open>Which error is returned, and that the first failing check decides.\<close>

lemma validateTimestamp_cases:
  "validateTimestamp v t c = None \<or> validateTimestamp v t c = Some ErrChallengeExpired \<or>
   validateTimestamp v t c = Some ErrFutureTimestamp"
  by (simp add: validateTimestamp_def Let_def)

lemma Challenge_Validate_Some:
  "Challenge_Validate c = Some e \<Longrightarrow>
     (\<exists>m. e = Errorf [] ErrInvalidVersion m) \<or> (\<exists>m. e = Errorf [] ErrInvalidDifficulty m)"
  by (auto simp: Challenge_Validate_def split: if_splits)

lemma Verify_Some_cases:
  assumes "Verify v t s = Some e"
  obtains (fields) "Challenge_Validate (Challenge s) = Some e"
  | (signature) "e = ErrInvalidSignature" "Challenge_Validate (Challenge s) = None"
      "\<not> verifySignature v (Challenge s)"
  | (time) "validateTimestamp v t (Timestamp (Challenge s)) = Some e"
      "Challenge_Validate (Challenge s) = None" "verifySignature v (Challenge s)"
  | (work) "e = ErrInsufficientWork" "\<not> hasRequiredLeadingZeros s"
      "Challenge_Validate (Challenge s) = None" "verifySignature v (Challenge s)"
      "validateTimestamp v t (Timestamp (Challenge s)) = None"
  using assms by (auto simp: Verify_def Let_def split: option.splits if_splits)

subsection \<open>The timestamp window\<close>

lemma sint_word_of_int_small:
  "- (2 ^ 63) \<le> i \<Longrightarrow> i < 2 ^ 63 \<Longrightarrow> sint (word_of_int i :: i64) = i"
  by (simp add: signed_of_int signed_take_bit_int_eq_self)

lemma validateTimestamp_window:
  assumes T: "0 \<le> challengeTimeout v" "challengeTimeout v < 2 ^ 22 * time_Second"
    and S: "0 \<le> clockSkew v" "clockSkew v < 2 ^ 22 * time_Second"
    and A: "- (2 ^ 63) \<le> t div time_Second - sint ts" "t div time_Second - sint ts < 2 ^ 63"
  shows "validateTimestamp v t ts =
    (let age = t div time_Second - sint ts
     in if challengeTimeout v div time_Second + clockSkew v div time_Second < age
        then Some ErrChallengeExpired
        else if age < - (clockSkew v div time_Second) then Some ErrFutureTimestamp else None)"
proof -
  let ?T = "challengeTimeout v div time_Second" and ?S = "clockSkew v div time_Second"
  have TS: "0 \<le> ?T" "?T < 2 ^ 22" "0 \<le> ?S" "?S < 2 ^ 22" using T S by auto
  have "time_Unix t - ts = word_of_int (t div time_Second - sint ts)"
    by (simp add: time_Unix_def)
  then have age: "sint (time_Unix t - ts) = t div time_Second - sint ts"
    using sint_word_of_int_small [OF A] by (simp only:)
  have m: "f64_to_int64 (Duration_Seconds (challengeTimeout v)) = word_of_int ?T"
    "f64_to_int64 (Duration_Seconds (clockSkew v)) = word_of_int ?S"
    using Seconds_to_int64 T S by auto
  have "sint (word_of_int ?T + word_of_int ?S :: i64) = ?T + ?S"
    using sint_word_of_int_small [of "?T + ?S"] TS by simp
  moreover have "sint (- word_of_int ?S :: i64) = - ?S"
    using sint_word_of_int_small [of "- ?S"] TS by simp
  ultimately show ?thesis by (simp add: validateTimestamp_def Let_def age m)
qed

end
