(* ===== verification/Pow_Solver.thy ===== *)
theory Pow_Solver
  imports Pow_Verifier
begin

text \<open>
  \<^verbatim>\<open>internal/pow/solver.go\<close>: the brute-force search for a counter, with and without progress
  reports. The context is given by what \<^verbatim>\<open>ctx.Err()\<close> is when the search reaches a counter;
  the loops look at it every \<open>contextCheckInterval\<close> counters only. The hash buffer is reused
  between iterations, as in the code. Both loops end because the counter approaches
  \<^verbatim>\<open>maxIterations\<close>, which is at most \<open>2 ^ 64 - 1\<close>.
\<close>

section \<open>Definitions\<close>

definition contextCheckInterval :: u64 where "contextCheckInterval = 10000"
definition DefaultMaxIterations :: u64 where "DefaultMaxIterations = 1000000000"

definition ErrMaxIterationsExceeded :: go_error where
  [go_errs]: "ErrMaxIterationsExceeded =
     Sentinel ''pow.ErrMaxIterationsExceeded'' ''maximum iterations exceeded without finding solution''"

type_synonym ctx_view = "u64 \<Rightarrow> go_error option"

text \<open>What the loops see of the context at a counter: nothing between two checks.\<close>

definition ctx_check :: "ctx_view \<Rightarrow> u64 \<Rightarrow> go_error option" where
  "ctx_check ctx counter = (if counter mod contextCheckInterval = 0 then ctx counter else None)"

record SolverConfig =
  MaxIterations :: u64

record solverImpl =
  maxIterations :: u64

definition NewSolverWithConfig :: "SolverConfig \<Rightarrow> solverImpl" where
  "NewSolverWithConfig cfg =
    (let maxIter = MaxIterations cfg
     in \<lparr>maxIterations = (if maxIter = 0 then DefaultMaxIterations else maxIter)\<rparr>)"

definition NewSolver :: solverImpl where
  "NewSolver = NewSolverWithConfig \<lparr>MaxIterations = 0\<rparr>"

function solve_loop ::
  "challenge \<Rightarrow> nat \<Rightarrow> u64 \<Rightarrow> ctx_view \<Rightarrow> byte list \<Rightarrow> u64 \<Rightarrow> solution result" where
  "solve_loop c difficulty maxIter ctx data counter =
    (if counter < maxIter
     then
       (case ctx_check ctx counter of
          Some e \<Rightarrow> Inl e
        | None \<Rightarrow>
           (let data = go_copy data ChallengeSize (be_PutUint64 counter);
                hash = sha256_Sum256 data
            in if hasLeadingZeros hash difficulty
               then Inr \<lparr>Challenge = c, Counter = counter\<rparr>
               else solve_loop c difficulty maxIter ctx data (counter + 1)))
     else Inl ErrMaxIterationsExceeded)"
  by pat_completeness auto
termination
proof (relation "measure (\<lambda>(c, d, maxIter, ctx, data, counter). unat (maxIter - counter))")
  fix maxIter counter :: u64
  assume "counter < maxIter"
  then have "maxIter - counter \<noteq> 0" by simp
  then have "unat (maxIter - counter - 1) < unat (maxIter - counter)"
    by (simp add: measure_unat)
  then have "unat (maxIter - (counter + 1)) < unat (maxIter - counter)"
    by (simp add: algebra_simps)
  then show "((c, d, maxIter, ctx, data', counter + 1), (c, d, maxIter, ctx, data, counter))
      \<in> measure (\<lambda>(c, d, maxIter, ctx, data, counter). unat (maxIter - counter))"
    for c d ctx data data' by simp
qed simp

declare solve_loop.simps [simp del]

definition Solve :: "solverImpl \<Rightarrow> ctx_view \<Rightarrow> challenge \<Rightarrow> solution result" where
  "Solve s ctx c =
    (let challengeBytes = Challenge_Marshal c;
         data = make_bytes (ChallengeSize + CounterSize);
         data = go_copy data 0 challengeBytes;
         difficulty = unat (Difficulty c)
     in solve_loop c difficulty (maxIterations s) ctx data 0)"

subsection \<open>The search with progress reports\<close>

text \<open>
  The callback's calls are collected: the result is paired with the iteration counts
  reported, in order. \<open>cb\<close> says whether a callback was given (is not \<^verbatim>\<open>nil\<close>).
\<close>

record progressSolverImpl =
  ps_maxIterations :: u64
  reportInterval :: u64

definition NewSolverWithProgressConfig :: "u64 \<Rightarrow> SolverConfig \<Rightarrow> progressSolverImpl" where
  "NewSolverWithProgressConfig interval cfg =
    (let interval = (if interval = 0 then 100000 else interval);
         maxIter = MaxIterations cfg;
         maxIter = (if maxIter = 0 then DefaultMaxIterations else maxIter)
     in \<lparr>ps_maxIterations = maxIter, reportInterval = interval\<rparr>)"

definition NewSolverWithProgress :: "u64 \<Rightarrow> progressSolverImpl" where
  "NewSolverWithProgress interval = NewSolverWithProgressConfig interval \<lparr>MaxIterations = 0\<rparr>"

function progress_loop ::
  "challenge \<Rightarrow> nat \<Rightarrow> progressSolverImpl \<Rightarrow> ctx_view \<Rightarrow> bool \<Rightarrow> byte list \<Rightarrow> u64 \<Rightarrow> u64 list
     \<Rightarrow> solution result \<times> u64 list" where
  "progress_loop c difficulty s ctx cb data counter reports =
    (if counter < ps_maxIterations s
     then
       (case ctx_check ctx counter of
          Some e \<Rightarrow> (Inl e, reports)
        | None \<Rightarrow>
           (let reports = (if cb \<and> 0 < counter \<and> counter mod reportInterval s = 0
                       then reports @ [counter] else reports);
                data = go_copy data ChallengeSize (be_PutUint64 counter);
                hash = sha256_Sum256 data
            in if hasLeadingZeros hash difficulty
               then (Inr \<lparr>Challenge = c, Counter = counter\<rparr>, reports)
               else progress_loop c difficulty s ctx cb data (counter + 1) reports))
     else (Inl ErrMaxIterationsExceeded, reports))"
  by pat_completeness auto
termination
proof (relation "measure (\<lambda>(c, d, s, ctx, cb, data, counter, reports). unat (ps_maxIterations s - counter))")
  fix counter :: u64 and s :: progressSolverImpl
  assume "counter < ps_maxIterations s"
  then have "ps_maxIterations s - counter \<noteq> 0" by simp
  then have "unat (ps_maxIterations s - counter - 1) < unat (ps_maxIterations s - counter)"
    by (simp add: measure_unat)
  then have "unat (ps_maxIterations s - (counter + 1)) < unat (ps_maxIterations s - counter)"
    by (simp add: algebra_simps)
  then show "((c, d, s, ctx, cb, data', counter + 1, reports'), (c, d, s, ctx, cb, data, counter, reports))
      \<in> measure (\<lambda>(c, d, s, ctx, cb, data, counter, reports). unat (ps_maxIterations s - counter))"
    for c d ctx cb data data' reports reports' by simp
qed simp

declare progress_loop.simps [simp del]

definition SolveWithProgress ::
  "progressSolverImpl \<Rightarrow> ctx_view \<Rightarrow> challenge \<Rightarrow> bool \<Rightarrow> solution result \<times> u64 list" where
  "SolveWithProgress s ctx c cb =
    (let challengeBytes = Challenge_Marshal c;
         data = make_bytes (ChallengeSize + CounterSize);
         data = go_copy data 0 challengeBytes;
         difficulty = unat (Difficulty c)
     in progress_loop c difficulty s ctx cb data 0 [])"

definition ps_Solve :: "progressSolverImpl \<Rightarrow> ctx_view \<Rightarrow> challenge \<Rightarrow> solution result" where
  "ps_Solve s ctx c = fst (SolveWithProgress s ctx c False)"

subsection \<open>What a solver promises\<close>

definition solves :: "challenge \<Rightarrow> u64 \<Rightarrow> bool" where
  "solves c n \<longleftrightarrow> hasRequiredLeadingZeros \<lparr>Challenge = c, Counter = n\<rparr>"

definition found_from :: "challenge \<Rightarrow> u64 \<Rightarrow> ctx_view \<Rightarrow> u64 \<Rightarrow> solution \<Rightarrow> bool" where
  "found_from c maxIter ctx k s \<longleftrightarrow>
     Challenge s = c \<and> k \<le> Counter s \<and> Counter s < maxIter \<and> solves c (Counter s) \<and>
     (\<forall>m. k \<le> m \<and> m < Counter s \<longrightarrow> \<not> solves c m) \<and>
     (\<forall>m. k \<le> m \<and> m \<le> Counter s \<longrightarrow> ctx_check ctx m = None)"

text \<open>The invariant of the hash buffer: the challenge's bytes, then eight bytes for the counter.\<close>

definition buf_of :: "challenge \<Rightarrow> byte list \<Rightarrow> bool" where
  "buf_of c data \<longleftrightarrow> length data = 98 \<and> take 90 data = Challenge_Marshal c"

section \<open>Lemmas\<close>

subsection \<open>The reused buffer\<close>

lemma length_Challenge_Marshal_any: "length (Challenge_Marshal c) = 90"
  by (simp add: Challenge_Marshal_def Let_def pow_sizes)

lemma go_copy_counter:
  assumes "length data = 98"
  shows "go_copy data ChallengeSize (be_PutUint64 n) = take 90 data @ be_PutUint64 n"
  using assms by (simp add: go_copy_def pow_sizes)

lemma buf_of_init: "buf_of c (go_copy (make_bytes (ChallengeSize + CounterSize)) 0 (Challenge_Marshal c))"
  by (simp add: buf_of_def pow_sizes go_copy_def length_Challenge_Marshal_any)

lemma buf_of_step: "buf_of c data \<Longrightarrow> buf_of c (go_copy data ChallengeSize (be_PutUint64 n))"
  by (simp add: buf_of_def go_copy_counter length_Challenge_Marshal_any)

lemma buf_of_hash:
  assumes "buf_of c data"
  shows "hasLeadingZeros (sha256_Sum256 (go_copy data ChallengeSize (be_PutUint64 n)))
           (unat (Difficulty c)) \<longleftrightarrow> solves c n"
proof -
  let ?d0 = "go_copy (make_bytes (ChallengeSize + CounterSize)) 0 (Challenge_Marshal c)"
  have "pow_data c n = go_copy ?d0 ChallengeSize (be_PutUint64 n)"
    by (simp add: pow_data_def Let_def)
  also have "\<dots> = go_copy data ChallengeSize (be_PutUint64 n)"
    using assms buf_of_init [of c] by (simp only: buf_of_def go_copy_counter)
  finally show ?thesis by (simp add: solves_def hasRequiredLeadingZeros_def)
qed

subsection \<open>The search\<close>

lemma u64_le_split:
  fixes k m :: u64
  assumes "k < n" shows "k \<le> m \<longleftrightarrow> m = k \<or> k + 1 \<le> m"
proof -
  have "unat k < unat n" using assms by (simp add: word_less_nat_alt)
  then have "unat k + 1 < 2 ^ 64" using unat_u64_bound [of n] by simp
  then have "unat (k + 1) = unat k + 1" by (simp add: unat_word_ariths)
  then show ?thesis by (auto simp: word_le_nat_alt word_unat_eq_iff)
qed

lemma found_from_here:
  assumes "solves c k" "k < maxIter" "ctx_check ctx k = None"
  shows "found_from c maxIter ctx k s \<longleftrightarrow> s = \<lparr>Challenge = c, Counter = k\<rparr>"
proof
  assume f: "found_from c maxIter ctx k s"
  then have "\<not> k < Counter s" using assms(1) by (auto simp: found_from_def)
  then have "Counter s = k" using f by (simp add: found_from_def)
  then show "s = \<lparr>Challenge = c, Counter = k\<rparr>" using f by (simp add: found_from_def)
next
  assume "s = \<lparr>Challenge = c, Counter = k\<rparr>"
  then show "found_from c maxIter ctx k s" using assms by (auto simp: found_from_def)
qed

lemma found_from_next:
  assumes "\<not> solves c k" "k < maxIter" "ctx_check ctx k = None"
  shows "found_from c maxIter ctx k s \<longleftrightarrow> found_from c maxIter ctx (k + 1) s"
  using assms unfolding found_from_def u64_le_split [OF assms(2)] by blast

lemma found_from_cancelled: "ctx_check ctx k = Some e \<Longrightarrow> \<not> found_from c maxIter ctx k s"
  unfolding found_from_def by (metis option.discI order_refl)

lemma found_from_end: "\<not> k < maxIter \<Longrightarrow> \<not> found_from c maxIter ctx k s"
  unfolding found_from_def by auto

text \<open>
  The search succeeds exactly with the least solving counter below the limit, provided no
  cancellation is seen on the way.
\<close>

lemma solve_loop_Inr_iff:
  assumes "buf_of c data" and "d = unat (Difficulty c)"
  shows "solve_loop c d maxIter ctx data k = Inr s \<longleftrightarrow> found_from c maxIter ctx k s"
  using assms
proof (induction c d maxIter ctx data k rule: solve_loop.induct)
  case (1 c d maxIter ctx data k)
  note unfold = solve_loop.simps [of c d maxIter ctx data k]
  have hash: "hasLeadingZeros (sha256_Sum256 (go_copy data ChallengeSize (be_PutUint64 k))) d \<longleftrightarrow> solves c k"
    using buf_of_hash [OF 1(2)] 1(3) by simp
  show ?case
  proof (cases "k < maxIter")
    case lt: True
    show ?thesis
    proof (cases "ctx_check ctx k")
      case alive: None
      show ?thesis
      proof (cases "solves c k")
        case True
        then show ?thesis
          using lt alive hash found_from_here [where s = s, OF True lt alive]
          by (auto simp: unfold Let_def)
      next
        case False
        then have "\<not> hasLeadingZeros (sha256_Sum256 (go_copy data ChallengeSize (be_PutUint64 k))) d"
          using hash by simp
        note IH = 1(1) [OF lt alive refl refl this buf_of_step [OF 1(2)] 1(3)]
        show ?thesis
          using IH False lt alive hash found_from_next [where s = s, OF False lt alive]
          by (simp add: unfold Let_def)
      qed
    next
      case (Some e)
      then show ?thesis using lt by (simp add: unfold found_from_cancelled)
    qed
  next
    case False
    then show ?thesis by (simp add: unfold found_from_end)
  qed
qed

lemma Solve_Inr_iff: "Solve s ctx c = Inr sol \<longleftrightarrow> found_from c (maxIterations s) ctx 0 sol"
  unfolding Solve_def Let_def by (rule solve_loop_Inr_iff [OF buf_of_init refl])

lemma solve_loop_Inl:
  "solve_loop c d maxIter ctx data k = Inl e \<Longrightarrow>
     e = ErrMaxIterationsExceeded \<or> (\<exists>m. ctx_check ctx m = Some e)"
proof (induction c d maxIter ctx data k rule: solve_loop.induct)
  case (1 c d maxIter ctx data k)
  then show ?case
    by (auto simp: solve_loop.simps [of c d maxIter ctx data k] Let_def split: if_splits option.splits)
qed

lemma Solve_Inl:
  "Solve s ctx c = Inl e \<Longrightarrow> e = ErrMaxIterationsExceeded \<or> (\<exists>m. ctx_check ctx m = Some e)"
  unfolding Solve_def Let_def by (rule solve_loop_Inl)

subsection \<open>Progress reports\<close>

text \<open>Reporting does not change the result.\<close>

lemma progress_loop_fst:
  "fst (progress_loop c d s ctx cb data k reports) = solve_loop c d (ps_maxIterations s) ctx data k"
proof (induction c d s ctx cb data k reports rule: progress_loop.induct)
  case (1 c d s ctx cb data k reports)
  note unfold = progress_loop.simps [of c d s ctx cb data k reports]
    solve_loop.simps [of c d "ps_maxIterations s" ctx data k]
  show ?case
  proof (cases "k < ps_maxIterations s \<and> ctx_check ctx k = None \<and>
      \<not> hasLeadingZeros (sha256_Sum256 (go_copy data ChallengeSize (be_PutUint64 k))) d")
    case True
    then show ?thesis
      using 1 [OF _ _ refl refl refl] by (simp add: unfold Let_def split del: if_split)
  next
    case False
    then show ?thesis by (auto simp: unfold Let_def split: option.split)
  qed
qed

lemma SolveWithProgress_fst:
  "fst (SolveWithProgress s ctx c cb) = Solve \<lparr>maxIterations = ps_maxIterations s\<rparr> ctx c"
  by (simp add: SolveWithProgress_def Solve_def Let_def progress_loop_fst)

subsection \<open>The Solver interface\<close>

text \<open>
  The contract of the Go interface \<^verbatim>\<open>Solver\<close>, which has two implementations. A client may
  use any of them: they agree, and what they return passes the proof-of-work check.
\<close>

locale solver_api =
  fixes solve :: "ctx_view \<Rightarrow> challenge \<Rightarrow> solution result" and limit :: u64
  assumes solve_found: "solve ctx c = Inr s \<longleftrightarrow> found_from c limit ctx 0 s"
    and solve_failed: "solve ctx c = Inl e \<Longrightarrow>
      e = ErrMaxIterationsExceeded \<or> (\<exists>m. ctx_check ctx m = Some e)"
begin

lemma solved_challenge: "solve ctx c = Inr s \<Longrightarrow> Challenge s = c"
  by (simp add: solve_found found_from_def)

lemma solved_work: "solve ctx c = Inr s \<Longrightarrow> hasRequiredLeadingZeros s"
  by (cases s) (auto simp: solve_found found_from_def solves_def)

lemma solved_least: "solve ctx c = Inr s \<Longrightarrow> n < Counter s \<Longrightarrow> \<not> solves c n"
  by (simp add: solve_found found_from_def)

text \<open>A search that is not cancelled finds a solution whenever there is one below the limit.\<close>

lemma solve_complete:
  assumes alive: "\<And>m. ctx_check ctx m = None" and n: "solves c n" "n < limit"
  shows "\<exists>s. solve ctx c = Inr s"
proof -
  define k where "k = (LEAST k. solves c (word_of_nat k))"
  have "solves c (word_of_nat (unat n))" using n(1) by simp
  then have k: "solves c (word_of_nat k)" "k \<le> unat n"
    unfolding k_def by (rule LeastI, rule Least_le)
  have kb: "unat (word_of_nat k :: u64) = k"
    using k(2) unat_u64_bound [of n] by (simp add: unsigned_of_nat take_bit_nat_eq_self)
  have "\<not> solves c m" if "m < word_of_nat k" for m
  proof -
    have "unat m < k" using that kb by (simp add: word_less_nat_alt)
    then show ?thesis using not_less_Least [of "unat m" "\<lambda>k. solves c (word_of_nat k)"]
      unfolding k_def by simp
  qed
  moreover have "word_of_nat k < limit"
    using k(2) kb n(2) by (simp add: word_less_nat_alt)
  ultimately have "found_from c limit ctx 0 \<lparr>Challenge = c, Counter = word_of_nat k\<rparr>"
    using k(1) alive by (auto simp: found_from_def)
  then show ?thesis by (auto simp: solve_found)
qed

end

interpretation plain_solver: solver_api "Solve s" "maxIterations s" for s
  by unfold_locales (auto simp: Solve_Inr_iff dest: Solve_Inl)

interpretation progress_solver: solver_api "ps_Solve s" "ps_maxIterations s" for s
  by unfold_locales
    (auto simp: ps_Solve_def SolveWithProgress_fst Solve_Inr_iff dest: Solve_Inl)

end
