(* ===== verification/Sha256_Eval.thy ===== *)
theory Sha256_Eval
  imports Sha256
begin

text \<open>
  Evaluation of SHA-256 inside the kernel. The simplifier is quick on numerals of type
  \<open>nat\<close>, so the compression function is restated there (values below \<open>2 ^ 32\<close>) and proved to
  compute the definition on words; \<open>sha_eval\<close> collects what an evaluation needs. The
  standard's test vector for the message \<open>abc\<close> checks the definitions of theory \<open>Sha256\<close>.
\<close>

unbundle bit_operations_syntax

section \<open>Definitions\<close>

named_theorems sha_eval \<open>rules to evaluate a block\<close>

abbreviation two32 :: nat where "two32 \<equiv> 4294967296"

text \<open>A value twice in a row: all its rotations are windows of it.\<close>

definition dbl :: "nat \<Rightarrow> nat" where "dbl x = x * 4294967297"

text \<open>Reduction modulo \<open>2 ^ 32\<close>, in the form the simplifier evaluates fastest.\<close>

definition m32 :: "nat \<Rightarrow> nat" where
  [sha_eval]: "m32 x = x - drop_bit 32 x * 4294967296"

definition nS0 :: "nat \<Rightarrow> nat" where
  [sha_eval]: "nS0 x = (let y = dbl x in m32 (drop_bit 2 y XOR drop_bit 13 y XOR drop_bit 22 y))"
definition nS1 :: "nat \<Rightarrow> nat" where
  [sha_eval]: "nS1 x = (let y = dbl x in m32 (drop_bit 6 y XOR drop_bit 11 y XOR drop_bit 25 y))"
definition ns0 :: "nat \<Rightarrow> nat" where
  [sha_eval]: "ns0 x = (let y = dbl x in m32 (drop_bit 7 y XOR drop_bit 18 y XOR drop_bit 3 x))"
definition ns1 :: "nat \<Rightarrow> nat" where
  [sha_eval]: "ns1 x = (let y = dbl x in m32 (drop_bit 17 y XOR drop_bit 19 y XOR drop_bit 10 x))"
definition nch :: "nat \<Rightarrow> nat \<Rightarrow> nat \<Rightarrow> nat" where
  [sha_eval]: "nch x y z = z XOR (x AND (y XOR z))"
definition nmaj :: "nat \<Rightarrow> nat \<Rightarrow> nat \<Rightarrow> nat" where
  [sha_eval]: "nmaj x y z = (x AND y) XOR (z AND (x XOR y))"

datatype nsha = NS nat nat nat nat nat nat nat nat

fun to_sha :: "nsha \<Rightarrow> sha_state" where
  "to_sha (NS a b c d e f g h) =
     Sha (word_of_nat a) (word_of_nat b) (word_of_nat c) (word_of_nat d)
         (word_of_nat e) (word_of_nat f) (word_of_nat g) (word_of_nat h)"

fun nsha_ok :: "nsha \<Rightarrow> bool" where
  "nsha_ok (NS a b c d e f g h) =
     (a < two32 \<and> b < two32 \<and> c < two32 \<and> d < two32 \<and> e < two32 \<and> f < two32 \<and> g < two32 \<and> h < two32)"

fun nround :: "nsha \<Rightarrow> nat \<Rightarrow> nat \<Rightarrow> nsha" where
  "nround (NS a b c d e f g h) k w =
     (let t1 = h + nS1 e + nch e f g + k + w
      in NS (m32 (t1 + nS0 a + nmaj a b c)) a b c (m32 (d + t1)) e f g)"

fun nnext :: "nat list \<Rightarrow> nat list" where
  "nnext [w0, w1, w2, w3, w4, w5, w6, w7, w8, w9, w10, w11, w12, w13, w14, w15] =
     [w1, w2, w3, w4, w5, w6, w7, w8, w9, w10, w11, w12, w13, w14, w15,
      m32 (ns1 w14 + w9 + ns0 w1 + w0)]"
| "nnext ws = ws"

fun nrounds :: "nat list \<Rightarrow> nat list \<Rightarrow> nsha \<Rightarrow> nsha" where
  "nrounds [] ws s = s"
| "nrounds (k # ks) (w # ws) s = nrounds ks (nnext (w # ws)) (nround s k w)"
| "nrounds (k # ks) [] s = s"

fun nadd :: "nsha \<Rightarrow> nsha \<Rightarrow> nsha" where
  "nadd (NS a b c d e f g h) (NS a' b' c' d' e' f' g' h') =
     NS (m32 (a + a')) (m32 (b + b')) (m32 (c + c')) (m32 (d + d'))
        (m32 (e + e')) (m32 (f + f')) (m32 (g + g')) (m32 (h + h'))"

definition nK :: "nat list" where
  "nK = map unat sha_K"

definition nblock :: "nsha \<Rightarrow> nat list \<Rightarrow> nsha" where
  "nblock s ws = nadd s (nrounds nK ws s)"

definition n_init :: nsha where
  [sha_eval]: "n_init =
     NS 0x6a09e667 0xbb67ae85 0x3c6ef372 0xa54ff53a 0x510e527f 0x9b05688c 0x1f83d9ab 0x5be0cd19"

abbreviation w32 :: "nat \<Rightarrow> u32" where "w32 \<equiv> word_of_nat"

section \<open>Lemmas\<close>

lemma m32_mod: "m32 x = x mod two32"
  by (simp add: m32_def drop_bit_eq_div minus_div_mult_eq_mod)

lemma m32_less [simp]: "m32 x < two32"
  by (simp add: m32_mod)

lemma w32_mod [simp]: "w32 (m32 x) = w32 x"
  by (simp add: m32_mod word_of_nat_eq_iff take_bit_eq_mod)

lemma bit_w32: "bit (w32 x) j \<longleftrightarrow> j < 32 \<and> bit x j"
  by (simp add: bit_simps)

lemma bit_small: "x < two32 \<Longrightarrow> 32 \<le> j \<Longrightarrow> \<not> bit x j"
proof -
  assume "x < two32" "32 \<le> j"
  then have "take_bit 32 x = x" by (simp add: take_bit_nat_eq_self)
  then show ?thesis using \<open>32 \<le> j\<close> by (metis bit_take_bit_iff not_le)
qed

lemma bit_dbl:
  assumes "x < two32" shows "bit (dbl x) j \<longleftrightarrow> (if j < 32 then bit x j else bit x (j - 32))"
proof -
  have "dbl x = push_bit 32 x + x" by (simp add: dbl_def push_bit_eq_mult)
  also have "\<dots> = push_bit 32 x OR x"
    using bit_small [OF assms] by (intro disjunctive_add) (auto simp: bit_simps not_le)
  finally show ?thesis using bit_small [OF assms] by (auto simp: bit_simps)
qed

lemma rotr_w32:
  assumes "x < two32" "0 < n" "n < 32" shows "rotr n (w32 x) = w32 (drop_bit n (dbl x))"
proof (rule bit_word_eqI)
  fix j assume "j < LENGTH(32)"
  then have j: "j < 32" by simp
  have d: "bit (drop_bit n (dbl x)) j \<longleftrightarrow> (if n + j < 32 then bit x (n + j) else bit x (n + j - 32))"
    by (simp add: bit_drop_bit_eq bit_dbl [OF assms(1)] del: not_less)
  have "bit (rotr n (w32 x)) j \<longleftrightarrow>
      (n + j < 32 \<and> bit x (n + j)) \<or> (32 - n \<le> j \<and> bit x (j - (32 - n)))"
    using j assms(2,3) by (auto simp: rotr_def bit_or_iff bit_drop_bit_eq bit_push_bit_iff bit_w32)
  also have "\<dots> \<longleftrightarrow> (if n + j < 32 then bit x (n + j) else bit x (n + j - 32))"
    using j assms(2,3) by (auto simp: add.commute)
  finally show "bit (rotr n (w32 x)) j = bit (w32 (drop_bit n (dbl x))) j"
    using d j by (simp add: bit_w32)
qed

lemma drop_w32: "x < two32 \<Longrightarrow> drop_bit n (w32 x) = w32 (drop_bit n x)"
  using bit_small [of x] by (intro bit_word_eqI) (auto simp: bit_drop_bit_eq bit_w32, meson not_le)

lemmas w32_bits = of_nat_xor_eq [where 'a = "32 word"] of_nat_and_eq [where 'a = "32 word"]

lemma sigma_w32:
  assumes "x < two32"
  shows "sha_S0 (w32 x) = w32 (nS0 x)" "sha_S1 (w32 x) = w32 (nS1 x)"
    "sha_s0 (w32 x) = w32 (ns0 x)" "sha_s1 (w32 x) = w32 (ns1 x)"
  using assms
  by (simp_all add: sha_S0_def nS0_def sha_S1_def nS1_def sha_s0_def ns0_def sha_s1_def ns1_def
      Let_def rotr_w32 drop_w32 w32_bits)

lemma ch_w32: "sha_ch (w32 x) (w32 y) (w32 z) = w32 (nch x y z)"
  unfolding sha_ch_def nch_def w32_bits
  by (rule bit_word_eqI) (auto simp: bit_and_iff bit_xor_iff bit_not_iff)

lemma maj_w32: "sha_maj (w32 x) (w32 y) (w32 z) = w32 (nmaj x y z)"
  unfolding sha_maj_def nmaj_def w32_bits
  by (rule bit_word_eqI) (auto simp: bit_and_iff bit_xor_iff)

lemma nround_ok: "nsha_ok s \<Longrightarrow> nsha_ok (nround s k w)"
  by (cases s) (simp add: Let_def)

lemma nround_sha: "nsha_ok s \<Longrightarrow> sha_round (to_sha s) (w32 k) (w32 w) = to_sha (nround s k w)"
  by (cases s) (simp add: Let_def sigma_w32 ch_w32 maj_w32 add.commute add.left_commute)

lemma nnext_sha:
  assumes "length ws = 16" "\<forall>w \<in> set ws. w < two32"
  shows "sha_next (map w32 ws) = map w32 (nnext ws)" "length (nnext ws) = 16"
    "\<forall>w \<in> set (nnext ws). w < two32"
proof -
  obtain a b c d e f g h i j k l m n p q where ws: "ws = [a,b,c,d,e,f,g,h,i,j,k,l,m,n,p,q]"
    using assms(1) by (auto simp: numeral_eq_Suc length_Suc_conv)
  show "sha_next (map w32 ws) = map w32 (nnext ws)" "length (nnext ws) = 16"
    "\<forall>w \<in> set (nnext ws). w < two32"
    using assms(2) unfolding ws by (simp_all add: sigma_w32)
qed

lemma nrounds_sha:
  assumes "length ws = 16" "\<forall>w \<in> set ws. w < two32" "nsha_ok s"
  shows "sha_rounds (map w32 ks) (map w32 ws) (to_sha s) = to_sha (nrounds ks ws s)"
  using assms
proof (induction ks arbitrary: ws s)
  case (Cons k ks)
  then obtain w ws' where ws: "ws = w # ws'" by (cases ws) auto
  have "sha_rounds (map w32 (k # ks)) (map w32 ws) (to_sha s) =
      sha_rounds (map w32 ks) (sha_next (map w32 ws)) (sha_round (to_sha s) (w32 k) (w32 w))"
    by (simp add: ws)
  also have "\<dots> = sha_rounds (map w32 ks) (map w32 (nnext ws)) (to_sha (nround s k w))"
    using Cons.prems by (simp add: nnext_sha nround_sha)
  also have "\<dots> = to_sha (nrounds ks (nnext ws) (nround s k w))"
    using Cons.prems by (intro Cons.IH) (simp_all add: nnext_sha nround_ok)
  finally show ?case by (simp add: ws)
qed simp

lemma nadd_sha: "sha_add (to_sha s) (to_sha t) = to_sha (nadd s t)"
  by (cases s; cases t) simp

lemma nblock_sha:
  assumes "map w32 ws = be_words32 blk" "length ws = 16" "\<forall>w \<in> set ws. w < two32" "nsha_ok s"
  shows "sha_block (to_sha s) blk = to_sha (nblock s ws)"
proof -
  have K: "sha_K = map w32 nK" by (simp add: nK_def comp_def)
  show ?thesis
    unfolding sha_block_def assms(1) [symmetric] nblock_def K nrounds_sha [OF assms(2-4)] nadd_sha ..
qed

lemma nK_eval [sha_eval]: "nK =
    [1116352408, 1899447441, 3049323471, 3921009573, 961987163, 1508970993, 2453635748, 2870763221,
     3624381080, 310598401, 607225278, 1426881987, 1925078388, 2162078206, 2614888103, 3248222580,
     3835390401, 4022224774, 264347078, 604807628, 770255983, 1249150122, 1555081692, 1996064986,
     2554220882, 2821834349, 2952996808, 3210313671, 3336571891, 3584528711, 113926993, 338241895,
     666307205, 773529912, 1294757372, 1396182291, 1695183700, 1986661051, 2177026350, 2456956037,
     2730485921, 2820302411, 3259730800, 3345764771, 3516065817, 3600352804, 4094571909, 275423344,
     430227734, 506948616, 659060556, 883997877, 958139571, 1322822218, 1537002063, 1747873779,
     1955562222, 2024104815, 2227730452, 2361852424, 2428436474, 2756734187, 3204031479, 3329325298]"
  by (simp add: nK_def sha_K_def)

declare Let_def [sha_eval] dbl_def [sha_eval] nblock_def [sha_eval]

lemma abc_block:
  "nblock n_init [0x61626380, 0, 0, 0, 0, 0, 0, 0, 0, 0, 0, 0, 0, 0, 0, 24] =
   NS 0xba7816bf 0x8f01cfea 0x414140de 0x5dae2223 0xb00361a3 0x96177a9c 0xb410ff61 0xf20015ad"
  by (simp add: sha_eval)

subsection \<open>Hashing a message block by block\<close>

lemma n_init_sha: "sha_init = to_sha n_init"
  by (simp add: sha_init_def n_init_def)

lemma sha_blocks_step:
  assumes "map w32 ws = be_words32 blk" "nblock s ws = t"
    and "length blk = 64" "length ws = 16" "\<forall>w \<in> set ws. w < two32" "nsha_ok s"
  shows "sha_blocks (to_sha s) (blk @ rest) = sha_blocks (to_sha t) rest"
proof -
  have "sha_blocks (to_sha s) (blk @ rest) = sha_blocks (sha_block (to_sha s) blk) rest"
    using assms(3) by (subst sha_blocks.simps) simp
  then show ?thesis
    using nblock_sha [OF assms(1,4-6)] assms(2) by simp
qed

lemma sha_blocks_end: "sha_blocks s [] = s"
  by (subst sha_blocks.simps) simp

lemma numeral_replicate: "replicate (numeral n) x = x # replicate (pred_numeral n) x"
  by (simp add: numeral_eq_Suc)

lemma be_bytes_numeral:
  "be_bytes (numeral n) v = word_of_nat (v div 256 ^ pred_numeral n) # be_bytes (pred_numeral n) v"
  by (simp add: numeral_eq_Suc)

lemma sha256_abc: "sha256_Sum256 [97, 98, 99] =
    [0xba, 0x78, 0x16, 0xbf, 0x8f, 0x01, 0xcf, 0xea, 0x41, 0x41, 0x40, 0xde, 0x5d, 0xae, 0x22, 0x23,
     0xb0, 0x03, 0x61, 0xa3, 0x96, 0x17, 0x7a, 0x9c, 0xb4, 0x10, 0xff, 0x61, 0xf2, 0x00, 0x15, 0xad]"
proof -
  have pad: "sha_pad [97, 98, 99] = [97, 98, 99, 128, 0, 0, 0, 0, 0, 0, 0, 0, 0, 0, 0, 0,
      0, 0, 0, 0, 0, 0, 0, 0, 0, 0, 0, 0, 0, 0, 0, 0, 0, 0, 0, 0, 0, 0, 0, 0, 0, 0, 0, 0, 0, 0, 0, 0,
      0, 0, 0, 0, 0, 0, 0, 0, 0, 0, 0, 0, 0, 0, 0, 24] @ []"
    by (simp add: sha_pad_def be_bytes_numeral numeral_replicate)
  have "sha_blocks sha_init (sha_pad [97, 98, 99]) =
      to_sha (NS 0xba7816bf 0x8f01cfea 0x414140de 0x5dae2223 0xb00361a3 0x96177a9c 0xb410ff61 0xf20015ad)"
    unfolding pad n_init_sha
    by (subst sha_blocks_step [OF _ abc_block]) (simp_all add: n_init_def sha_blocks_end)
  then show ?thesis by (simp add: sha256_Sum256_def be_bytes_numeral)
qed

end
