(* ===== verification/Pow_Example.thy ===== *)
theory Pow_Example
  imports Pow_Solver Sha256_Eval
begin

text \<open>
  One challenge with its solution, computed inside the kernel: a secret of 32 bytes, a
  challenge of difficulty 16 issued at second 1700000000 and the counter 0, whose digest
  starts with 16 zero bits. The concrete instances of the development's theorems use it.
  The blocks of the three digests (the inner and the outer hash of the HMAC, and the hash of
  the solution) are evaluated one by one with the rules of theory \<open>Sha256_Eval\<close>.
\<close>

unbundle bit_operations_syntax

section \<open>Definitions\<close>

definition ex_secret :: "byte list" where
  "ex_secret =
     [116, 104, 105, 115, 45, 105, 115, 45, 101, 120, 97, 99, 116, 108, 121, 45, 51, 50, 45, 98,
      121, 116, 101, 45, 115, 101, 99, 114, 101, 116, 33, 33]"

definition ex_nonce :: "nat \<Rightarrow> byte" where
  "ex_nonce i = (if i = 14 then 94 else if i = 15 then 199 else 0)"

definition ex_challenge :: challenge where
  "ex_challenge =
    \<lparr>Version = 1, Difficulty = 16, Timestamp = 1700000000,
     Resource = replicate 32 0,
     Nonce = [0, 0, 0, 0, 0, 0, 0, 0, 0, 0, 0, 0, 0, 0, 94, 199],
     Signature =
       [121, 199, 114, 240, 184, 252, 187, 144, 74, 57, 208, 51, 56, 123, 35, 81, 234, 122, 169,
      172, 217, 149, 143, 36, 142, 161, 1, 237, 128, 227, 167, 123]\<rparr>"

definition ex_solution :: solution where
  "ex_solution = \<lparr>Challenge = ex_challenge, Counter = 0\<rparr>"

text \<open>The instant the challenge is issued at, in nanoseconds since the epoch.\<close>

definition ex_time :: instant where "ex_time = 1700000000 * time_Second"

definition ex_generator :: generatorImpl where
  "ex_generator = \<lparr>gen_secret = ex_secret\<rparr>"

definition ex_verifier :: verifierImpl where
  "ex_verifier = \<lparr>ver_secret = ex_secret, challengeTimeout = 60 * time_Second, clockSkew = 30 * time_Second\<rparr>"

section \<open>The digests\<close>

lemma ex_inner_block1:
  "nblock (NS 0x6a09e667 0xbb67ae85 0x3c6ef372 0xa54ff53a 0x510e527f 0x9b05688c 0x1f83d9ab 0x5be0cd19)
     [0x425e5f45, 0x1b5f451b, 0x534e5755, 0x425a4f1b, 0x05041b54, 0x4f42531b, 0x45535544, 0x53421717,
      0x36363636, 0x36363636, 0x36363636, 0x36363636, 0x36363636, 0x36363636, 0x36363636, 0x36363636] =
   NS 0x3c2f7761 0xcadcec64 0xb090ae30 0xa6a033e8 0x65e0cc5b 0xb522de1e 0x68243713 0xb2c4d3f1"
  by (simp add: sha_eval)

lemma ex_inner_words1:
  "map w32 [0x425e5f45, 0x1b5f451b, 0x534e5755, 0x425a4f1b, 0x05041b54, 0x4f42531b, 0x45535544, 0x53421717,
      0x36363636, 0x36363636, 0x36363636, 0x36363636, 0x36363636, 0x36363636, 0x36363636, 0x36363636] =
   be_words32
     [66, 94, 95, 69, 27, 95, 69, 27, 83, 78, 87, 85, 66, 90, 79, 27, 5, 4, 27, 84, 79, 66, 83,
      27, 69, 83, 85, 68, 83, 66, 23, 23, 54, 54, 54, 54, 54, 54, 54, 54, 54, 54, 54, 54, 54, 54,
      54, 54, 54, 54, 54, 54, 54, 54, 54, 54, 54, 54, 54, 54, 54, 54, 54, 54]"
  by simp

lemma ex_inner_step1:
  "sha_blocks (to_sha (NS 0x6a09e667 0xbb67ae85 0x3c6ef372 0xa54ff53a 0x510e527f 0x9b05688c 0x1f83d9ab 0x5be0cd19))
     ([66, 94, 95, 69, 27, 95, 69, 27, 83, 78, 87, 85, 66, 90, 79, 27, 5, 4, 27, 84, 79, 66, 83,
      27, 69, 83, 85, 68, 83, 66, 23, 23, 54, 54, 54, 54, 54, 54, 54, 54, 54, 54, 54, 54, 54, 54,
      54, 54, 54, 54, 54, 54, 54, 54, 54, 54, 54, 54, 54, 54, 54, 54, 54, 54] @ rest) =
   sha_blocks (to_sha (NS 0x3c2f7761 0xcadcec64 0xb090ae30 0xa6a033e8 0x65e0cc5b 0xb522de1e 0x68243713 0xb2c4d3f1)) rest"
  by (rule sha_blocks_step [OF ex_inner_words1 ex_inner_block1]) simp_all

lemma ex_inner_block2:
  "nblock (NS 0x3c2f7761 0xcadcec64 0xb090ae30 0xa6a033e8 0x65e0cc5b 0xb522de1e 0x68243713 0xb2c4d3f1)
     [0x01100000, 0x00006553, 0xf1000000, 0x00000000, 0x00000000, 0x00000000, 0x00000000, 0x00000000,
      0x00000000, 0x00000000, 0x00000000, 0x00000000, 0x00000000, 0x00000000, 0x5ec78000, 0x00000000] =
   NS 0x70fdb906 0xc05d87b8 0x691e6e86 0xfeb90bf3 0x6ceb62e7 0x39d7307b 0x229be74e 0xb7d618c2"
  by (simp add: sha_eval)

lemma ex_inner_words2:
  "map w32 [0x01100000, 0x00006553, 0xf1000000, 0x00000000, 0x00000000, 0x00000000, 0x00000000, 0x00000000,
      0x00000000, 0x00000000, 0x00000000, 0x00000000, 0x00000000, 0x00000000, 0x5ec78000, 0x00000000] =
   be_words32
     [1, 16, 0, 0, 0, 0, 101, 83, 241, 0, 0, 0, 0, 0, 0, 0, 0, 0, 0, 0, 0, 0, 0, 0, 0, 0, 0, 0,
      0, 0, 0, 0, 0, 0, 0, 0, 0, 0, 0, 0, 0, 0, 0, 0, 0, 0, 0, 0, 0, 0, 0, 0, 0, 0, 0, 0, 94, 199,
      128, 0, 0, 0, 0, 0]"
  by simp

lemma ex_inner_step2:
  "sha_blocks (to_sha (NS 0x3c2f7761 0xcadcec64 0xb090ae30 0xa6a033e8 0x65e0cc5b 0xb522de1e 0x68243713 0xb2c4d3f1))
     ([1, 16, 0, 0, 0, 0, 101, 83, 241, 0, 0, 0, 0, 0, 0, 0, 0, 0, 0, 0, 0, 0, 0, 0, 0, 0, 0, 0,
      0, 0, 0, 0, 0, 0, 0, 0, 0, 0, 0, 0, 0, 0, 0, 0, 0, 0, 0, 0, 0, 0, 0, 0, 0, 0, 0, 0, 94, 199,
      128, 0, 0, 0, 0, 0] @ rest) =
   sha_blocks (to_sha (NS 0x70fdb906 0xc05d87b8 0x691e6e86 0xfeb90bf3 0x6ceb62e7 0x39d7307b 0x229be74e 0xb7d618c2)) rest"
  by (rule sha_blocks_step [OF ex_inner_words2 ex_inner_block2]) simp_all

lemma ex_inner_block3:
  "nblock (NS 0x70fdb906 0xc05d87b8 0x691e6e86 0xfeb90bf3 0x6ceb62e7 0x39d7307b 0x229be74e 0xb7d618c2)
     [0x00000000, 0x00000000, 0x00000000, 0x00000000, 0x00000000, 0x00000000, 0x00000000, 0x00000000,
      0x00000000, 0x00000000, 0x00000000, 0x00000000, 0x00000000, 0x00000000, 0x00000000, 0x000003d0] =
   NS 0x96df3751 0x3faeb83a 0x2d52d35e 0xf61058fd 0xe1c7c0be 0xeb3abd61 0x48a6d795 0xa5b2252d"
  by (simp add: sha_eval)

lemma ex_inner_words3:
  "map w32 [0x00000000, 0x00000000, 0x00000000, 0x00000000, 0x00000000, 0x00000000, 0x00000000, 0x00000000,
      0x00000000, 0x00000000, 0x00000000, 0x00000000, 0x00000000, 0x00000000, 0x00000000, 0x000003d0] =
   be_words32
     [0, 0, 0, 0, 0, 0, 0, 0, 0, 0, 0, 0, 0, 0, 0, 0, 0, 0, 0, 0, 0, 0, 0, 0, 0, 0, 0, 0, 0, 0,
      0, 0, 0, 0, 0, 0, 0, 0, 0, 0, 0, 0, 0, 0, 0, 0, 0, 0, 0, 0, 0, 0, 0, 0, 0, 0, 0, 0, 0, 0,
      0, 0, 3, 208]"
  by simp

lemma ex_inner_step3:
  "sha_blocks (to_sha (NS 0x70fdb906 0xc05d87b8 0x691e6e86 0xfeb90bf3 0x6ceb62e7 0x39d7307b 0x229be74e 0xb7d618c2))
     ([0, 0, 0, 0, 0, 0, 0, 0, 0, 0, 0, 0, 0, 0, 0, 0, 0, 0, 0, 0, 0, 0, 0, 0, 0, 0, 0, 0, 0, 0,
      0, 0, 0, 0, 0, 0, 0, 0, 0, 0, 0, 0, 0, 0, 0, 0, 0, 0, 0, 0, 0, 0, 0, 0, 0, 0, 0, 0, 0, 0,
      0, 0, 3, 208] @ rest) =
   sha_blocks (to_sha (NS 0x96df3751 0x3faeb83a 0x2d52d35e 0xf61058fd 0xe1c7c0be 0xeb3abd61 0x48a6d795 0xa5b2252d)) rest"
  by (rule sha_blocks_step [OF ex_inner_words3 ex_inner_block3]) simp_all

lemma ex_inner_digest:
  "sha256_Sum256
     [66, 94, 95, 69, 27, 95, 69, 27, 83, 78, 87, 85, 66, 90, 79, 27, 5, 4, 27, 84, 79, 66, 83,
      27, 69, 83, 85, 68, 83, 66, 23, 23, 54, 54, 54, 54, 54, 54, 54, 54, 54, 54, 54, 54, 54, 54,
      54, 54, 54, 54, 54, 54, 54, 54, 54, 54, 54, 54, 54, 54, 54, 54, 54, 54, 1, 16, 0, 0, 0, 0,
      101, 83, 241, 0, 0, 0, 0, 0, 0, 0, 0, 0, 0, 0, 0, 0, 0, 0, 0, 0, 0, 0, 0, 0, 0, 0, 0, 0,
      0, 0, 0, 0, 0, 0, 0, 0, 0, 0, 0, 0, 0, 0, 0, 0, 0, 0, 0, 0, 0, 0, 94, 199] =
     [150, 223, 55, 81, 63, 174, 184, 58, 45, 82, 211, 94, 246, 16, 88, 253, 225, 199, 192, 190,
      235, 58, 189, 97, 72, 166, 215, 149, 165, 178, 37, 45]"
proof -
  have pad: "sha_pad
     [66, 94, 95, 69, 27, 95, 69, 27, 83, 78, 87, 85, 66, 90, 79, 27, 5, 4, 27, 84, 79, 66, 83,
      27, 69, 83, 85, 68, 83, 66, 23, 23, 54, 54, 54, 54, 54, 54, 54, 54, 54, 54, 54, 54, 54, 54,
      54, 54, 54, 54, 54, 54, 54, 54, 54, 54, 54, 54, 54, 54, 54, 54, 54, 54, 1, 16, 0, 0, 0, 0,
      101, 83, 241, 0, 0, 0, 0, 0, 0, 0, 0, 0, 0, 0, 0, 0, 0, 0, 0, 0, 0, 0, 0, 0, 0, 0, 0, 0,
      0, 0, 0, 0, 0, 0, 0, 0, 0, 0, 0, 0, 0, 0, 0, 0, 0, 0, 0, 0, 0, 0, 94, 199] =
     [66, 94, 95, 69, 27, 95, 69, 27, 83, 78, 87, 85, 66, 90, 79, 27, 5, 4, 27, 84, 79, 66, 83,
      27, 69, 83, 85, 68, 83, 66, 23, 23, 54, 54, 54, 54, 54, 54, 54, 54, 54, 54, 54, 54, 54, 54,
      54, 54, 54, 54, 54, 54, 54, 54, 54, 54, 54, 54, 54, 54, 54, 54, 54, 54] @
     [1, 16, 0, 0, 0, 0, 101, 83, 241, 0, 0, 0, 0, 0, 0, 0, 0, 0, 0, 0, 0, 0, 0, 0, 0, 0, 0, 0,
      0, 0, 0, 0, 0, 0, 0, 0, 0, 0, 0, 0, 0, 0, 0, 0, 0, 0, 0, 0, 0, 0, 0, 0, 0, 0, 0, 0, 94, 199,
      128, 0, 0, 0, 0, 0] @
     [0, 0, 0, 0, 0, 0, 0, 0, 0, 0, 0, 0, 0, 0, 0, 0, 0, 0, 0, 0, 0, 0, 0, 0, 0, 0, 0, 0, 0, 0,
      0, 0, 0, 0, 0, 0, 0, 0, 0, 0, 0, 0, 0, 0, 0, 0, 0, 0, 0, 0, 0, 0, 0, 0, 0, 0, 0, 0, 0, 0,
      0, 0, 3, 208] @ []"
    by (simp add: sha_pad_def be_bytes_numeral numeral_replicate)
  show ?thesis
    unfolding sha256_Sum256_def pad n_init_sha n_init_def
      ex_inner_step1
      ex_inner_step2
      ex_inner_step3
      sha_blocks_end
    by (simp add: be_bytes_numeral)
qed

lemma ex_outer_block1:
  "nblock (NS 0x6a09e667 0xbb67ae85 0x3c6ef372 0xa54ff53a 0x510e527f 0x9b05688c 0x1f83d9ab 0x5be0cd19)
     [0x2834352f, 0x71352f71, 0x39243d3f, 0x28302571, 0x6f6e713e, 0x25283971, 0x2f393f2e, 0x39287d7d,
      0x5c5c5c5c, 0x5c5c5c5c, 0x5c5c5c5c, 0x5c5c5c5c, 0x5c5c5c5c, 0x5c5c5c5c, 0x5c5c5c5c, 0x5c5c5c5c] =
   NS 0x44a8a4f7 0x08c1231f 0x24cc71e9 0x6d8d2aeb 0xa07b25fc 0xe6be3297 0x2d9e92bd 0x94ed2be6"
  by (simp add: sha_eval)

lemma ex_outer_words1:
  "map w32 [0x2834352f, 0x71352f71, 0x39243d3f, 0x28302571, 0x6f6e713e, 0x25283971, 0x2f393f2e, 0x39287d7d,
      0x5c5c5c5c, 0x5c5c5c5c, 0x5c5c5c5c, 0x5c5c5c5c, 0x5c5c5c5c, 0x5c5c5c5c, 0x5c5c5c5c, 0x5c5c5c5c] =
   be_words32
     [40, 52, 53, 47, 113, 53, 47, 113, 57, 36, 61, 63, 40, 48, 37, 113, 111, 110, 113, 62, 37,
      40, 57, 113, 47, 57, 63, 46, 57, 40, 125, 125, 92, 92, 92, 92, 92, 92, 92, 92, 92, 92, 92,
      92, 92, 92, 92, 92, 92, 92, 92, 92, 92, 92, 92, 92, 92, 92, 92, 92, 92, 92, 92, 92]"
  by simp

lemma ex_outer_step1:
  "sha_blocks (to_sha (NS 0x6a09e667 0xbb67ae85 0x3c6ef372 0xa54ff53a 0x510e527f 0x9b05688c 0x1f83d9ab 0x5be0cd19))
     ([40, 52, 53, 47, 113, 53, 47, 113, 57, 36, 61, 63, 40, 48, 37, 113, 111, 110, 113, 62, 37,
      40, 57, 113, 47, 57, 63, 46, 57, 40, 125, 125, 92, 92, 92, 92, 92, 92, 92, 92, 92, 92, 92,
      92, 92, 92, 92, 92, 92, 92, 92, 92, 92, 92, 92, 92, 92, 92, 92, 92, 92, 92, 92, 92] @ rest) =
   sha_blocks (to_sha (NS 0x44a8a4f7 0x08c1231f 0x24cc71e9 0x6d8d2aeb 0xa07b25fc 0xe6be3297 0x2d9e92bd 0x94ed2be6)) rest"
  by (rule sha_blocks_step [OF ex_outer_words1 ex_outer_block1]) simp_all

lemma ex_outer_block2:
  "nblock (NS 0x44a8a4f7 0x08c1231f 0x24cc71e9 0x6d8d2aeb 0xa07b25fc 0xe6be3297 0x2d9e92bd 0x94ed2be6)
     [0x96df3751, 0x3faeb83a, 0x2d52d35e, 0xf61058fd, 0xe1c7c0be, 0xeb3abd61, 0x48a6d795, 0xa5b2252d,
      0x80000000, 0x00000000, 0x00000000, 0x00000000, 0x00000000, 0x00000000, 0x00000000, 0x00000300] =
   NS 0x79c772f0 0xb8fcbb90 0x4a39d033 0x387b2351 0xea7aa9ac 0xd9958f24 0x8ea101ed 0x80e3a77b"
  by (simp add: sha_eval)

lemma ex_outer_words2:
  "map w32 [0x96df3751, 0x3faeb83a, 0x2d52d35e, 0xf61058fd, 0xe1c7c0be, 0xeb3abd61, 0x48a6d795, 0xa5b2252d,
      0x80000000, 0x00000000, 0x00000000, 0x00000000, 0x00000000, 0x00000000, 0x00000000, 0x00000300] =
   be_words32
     [150, 223, 55, 81, 63, 174, 184, 58, 45, 82, 211, 94, 246, 16, 88, 253, 225, 199, 192, 190,
      235, 58, 189, 97, 72, 166, 215, 149, 165, 178, 37, 45, 128, 0, 0, 0, 0, 0, 0, 0, 0, 0, 0,
      0, 0, 0, 0, 0, 0, 0, 0, 0, 0, 0, 0, 0, 0, 0, 0, 0, 0, 0, 3, 0]"
  by simp

lemma ex_outer_step2:
  "sha_blocks (to_sha (NS 0x44a8a4f7 0x08c1231f 0x24cc71e9 0x6d8d2aeb 0xa07b25fc 0xe6be3297 0x2d9e92bd 0x94ed2be6))
     ([150, 223, 55, 81, 63, 174, 184, 58, 45, 82, 211, 94, 246, 16, 88, 253, 225, 199, 192, 190,
      235, 58, 189, 97, 72, 166, 215, 149, 165, 178, 37, 45, 128, 0, 0, 0, 0, 0, 0, 0, 0, 0, 0,
      0, 0, 0, 0, 0, 0, 0, 0, 0, 0, 0, 0, 0, 0, 0, 0, 0, 0, 0, 3, 0] @ rest) =
   sha_blocks (to_sha (NS 0x79c772f0 0xb8fcbb90 0x4a39d033 0x387b2351 0xea7aa9ac 0xd9958f24 0x8ea101ed 0x80e3a77b)) rest"
  by (rule sha_blocks_step [OF ex_outer_words2 ex_outer_block2]) simp_all

lemma ex_outer_digest:
  "sha256_Sum256
     [40, 52, 53, 47, 113, 53, 47, 113, 57, 36, 61, 63, 40, 48, 37, 113, 111, 110, 113, 62, 37,
      40, 57, 113, 47, 57, 63, 46, 57, 40, 125, 125, 92, 92, 92, 92, 92, 92, 92, 92, 92, 92, 92,
      92, 92, 92, 92, 92, 92, 92, 92, 92, 92, 92, 92, 92, 92, 92, 92, 92, 92, 92, 92, 92, 150,
      223, 55, 81, 63, 174, 184, 58, 45, 82, 211, 94, 246, 16, 88, 253, 225, 199, 192, 190, 235,
      58, 189, 97, 72, 166, 215, 149, 165, 178, 37, 45] =
     [121, 199, 114, 240, 184, 252, 187, 144, 74, 57, 208, 51, 56, 123, 35, 81, 234, 122, 169,
      172, 217, 149, 143, 36, 142, 161, 1, 237, 128, 227, 167, 123]"
proof -
  have pad: "sha_pad
     [40, 52, 53, 47, 113, 53, 47, 113, 57, 36, 61, 63, 40, 48, 37, 113, 111, 110, 113, 62, 37,
      40, 57, 113, 47, 57, 63, 46, 57, 40, 125, 125, 92, 92, 92, 92, 92, 92, 92, 92, 92, 92, 92,
      92, 92, 92, 92, 92, 92, 92, 92, 92, 92, 92, 92, 92, 92, 92, 92, 92, 92, 92, 92, 92, 150,
      223, 55, 81, 63, 174, 184, 58, 45, 82, 211, 94, 246, 16, 88, 253, 225, 199, 192, 190, 235,
      58, 189, 97, 72, 166, 215, 149, 165, 178, 37, 45] =
     [40, 52, 53, 47, 113, 53, 47, 113, 57, 36, 61, 63, 40, 48, 37, 113, 111, 110, 113, 62, 37,
      40, 57, 113, 47, 57, 63, 46, 57, 40, 125, 125, 92, 92, 92, 92, 92, 92, 92, 92, 92, 92, 92,
      92, 92, 92, 92, 92, 92, 92, 92, 92, 92, 92, 92, 92, 92, 92, 92, 92, 92, 92, 92, 92] @
     [150, 223, 55, 81, 63, 174, 184, 58, 45, 82, 211, 94, 246, 16, 88, 253, 225, 199, 192, 190,
      235, 58, 189, 97, 72, 166, 215, 149, 165, 178, 37, 45, 128, 0, 0, 0, 0, 0, 0, 0, 0, 0, 0,
      0, 0, 0, 0, 0, 0, 0, 0, 0, 0, 0, 0, 0, 0, 0, 0, 0, 0, 0, 3, 0] @ []"
    by (simp add: sha_pad_def be_bytes_numeral numeral_replicate)
  show ?thesis
    unfolding sha256_Sum256_def pad n_init_sha n_init_def
      ex_outer_step1
      ex_outer_step2
      sha_blocks_end
    by (simp add: be_bytes_numeral)
qed

lemma ex_work_block1:
  "nblock (NS 0x6a09e667 0xbb67ae85 0x3c6ef372 0xa54ff53a 0x510e527f 0x9b05688c 0x1f83d9ab 0x5be0cd19)
     [0x01100000, 0x00006553, 0xf1000000, 0x00000000, 0x00000000, 0x00000000, 0x00000000, 0x00000000,
      0x00000000, 0x00000000, 0x00000000, 0x00000000, 0x00000000, 0x00000000, 0x5ec779c7, 0x72f0b8fc] =
   NS 0x849a48f0 0x7cda7059 0xf1f74b92 0xc88d955b 0x251a0598 0xd9ff38d9 0x0afa3cca 0x2587bd7f"
  by (simp add: sha_eval)

lemma ex_work_words1:
  "map w32 [0x01100000, 0x00006553, 0xf1000000, 0x00000000, 0x00000000, 0x00000000, 0x00000000, 0x00000000,
      0x00000000, 0x00000000, 0x00000000, 0x00000000, 0x00000000, 0x00000000, 0x5ec779c7, 0x72f0b8fc] =
   be_words32
     [1, 16, 0, 0, 0, 0, 101, 83, 241, 0, 0, 0, 0, 0, 0, 0, 0, 0, 0, 0, 0, 0, 0, 0, 0, 0, 0, 0,
      0, 0, 0, 0, 0, 0, 0, 0, 0, 0, 0, 0, 0, 0, 0, 0, 0, 0, 0, 0, 0, 0, 0, 0, 0, 0, 0, 0, 94, 199,
      121, 199, 114, 240, 184, 252]"
  by simp

lemma ex_work_step1:
  "sha_blocks (to_sha (NS 0x6a09e667 0xbb67ae85 0x3c6ef372 0xa54ff53a 0x510e527f 0x9b05688c 0x1f83d9ab 0x5be0cd19))
     ([1, 16, 0, 0, 0, 0, 101, 83, 241, 0, 0, 0, 0, 0, 0, 0, 0, 0, 0, 0, 0, 0, 0, 0, 0, 0, 0, 0,
      0, 0, 0, 0, 0, 0, 0, 0, 0, 0, 0, 0, 0, 0, 0, 0, 0, 0, 0, 0, 0, 0, 0, 0, 0, 0, 0, 0, 94, 199,
      121, 199, 114, 240, 184, 252] @ rest) =
   sha_blocks (to_sha (NS 0x849a48f0 0x7cda7059 0xf1f74b92 0xc88d955b 0x251a0598 0xd9ff38d9 0x0afa3cca 0x2587bd7f)) rest"
  by (rule sha_blocks_step [OF ex_work_words1 ex_work_block1]) simp_all

lemma ex_work_block2:
  "nblock (NS 0x849a48f0 0x7cda7059 0xf1f74b92 0xc88d955b 0x251a0598 0xd9ff38d9 0x0afa3cca 0x2587bd7f)
     [0xbb904a39, 0xd033387b, 0x2351ea7a, 0xa9acd995, 0x8f248ea1, 0x01ed80e3, 0xa77b0000, 0x00000000,
      0x00008000, 0x00000000, 0x00000000, 0x00000000, 0x00000000, 0x00000000, 0x00000000, 0x00000310] =
   NS 0x00007a69 0xef150167 0x3419892e 0x6f328d5a 0xf14d55ce 0xd1a7c497 0xbde20157 0x1ae8d8ef"
  by (simp add: sha_eval)

lemma ex_work_words2:
  "map w32 [0xbb904a39, 0xd033387b, 0x2351ea7a, 0xa9acd995, 0x8f248ea1, 0x01ed80e3, 0xa77b0000, 0x00000000,
      0x00008000, 0x00000000, 0x00000000, 0x00000000, 0x00000000, 0x00000000, 0x00000000, 0x00000310] =
   be_words32
     [187, 144, 74, 57, 208, 51, 56, 123, 35, 81, 234, 122, 169, 172, 217, 149, 143, 36, 142, 161,
      1, 237, 128, 227, 167, 123, 0, 0, 0, 0, 0, 0, 0, 0, 128, 0, 0, 0, 0, 0, 0, 0, 0, 0, 0, 0,
      0, 0, 0, 0, 0, 0, 0, 0, 0, 0, 0, 0, 0, 0, 0, 0, 3, 16]"
  by simp

lemma ex_work_step2:
  "sha_blocks (to_sha (NS 0x849a48f0 0x7cda7059 0xf1f74b92 0xc88d955b 0x251a0598 0xd9ff38d9 0x0afa3cca 0x2587bd7f))
     ([187, 144, 74, 57, 208, 51, 56, 123, 35, 81, 234, 122, 169, 172, 217, 149, 143, 36, 142, 161,
      1, 237, 128, 227, 167, 123, 0, 0, 0, 0, 0, 0, 0, 0, 128, 0, 0, 0, 0, 0, 0, 0, 0, 0, 0, 0,
      0, 0, 0, 0, 0, 0, 0, 0, 0, 0, 0, 0, 0, 0, 0, 0, 3, 16] @ rest) =
   sha_blocks (to_sha (NS 0x00007a69 0xef150167 0x3419892e 0x6f328d5a 0xf14d55ce 0xd1a7c497 0xbde20157 0x1ae8d8ef)) rest"
  by (rule sha_blocks_step [OF ex_work_words2 ex_work_block2]) simp_all

lemma ex_work_digest:
  "sha256_Sum256
     [1, 16, 0, 0, 0, 0, 101, 83, 241, 0, 0, 0, 0, 0, 0, 0, 0, 0, 0, 0, 0, 0, 0, 0, 0, 0, 0, 0,
      0, 0, 0, 0, 0, 0, 0, 0, 0, 0, 0, 0, 0, 0, 0, 0, 0, 0, 0, 0, 0, 0, 0, 0, 0, 0, 0, 0, 94, 199,
      121, 199, 114, 240, 184, 252, 187, 144, 74, 57, 208, 51, 56, 123, 35, 81, 234, 122, 169,
      172, 217, 149, 143, 36, 142, 161, 1, 237, 128, 227, 167, 123, 0, 0, 0, 0, 0, 0, 0, 0] =
     [0, 0, 122, 105, 239, 21, 1, 103, 52, 25, 137, 46, 111, 50, 141, 90, 241, 77, 85, 206, 209,
      167, 196, 151, 189, 226, 1, 87, 26, 232, 216, 239]"
proof -
  have pad: "sha_pad
     [1, 16, 0, 0, 0, 0, 101, 83, 241, 0, 0, 0, 0, 0, 0, 0, 0, 0, 0, 0, 0, 0, 0, 0, 0, 0, 0, 0,
      0, 0, 0, 0, 0, 0, 0, 0, 0, 0, 0, 0, 0, 0, 0, 0, 0, 0, 0, 0, 0, 0, 0, 0, 0, 0, 0, 0, 94, 199,
      121, 199, 114, 240, 184, 252, 187, 144, 74, 57, 208, 51, 56, 123, 35, 81, 234, 122, 169,
      172, 217, 149, 143, 36, 142, 161, 1, 237, 128, 227, 167, 123, 0, 0, 0, 0, 0, 0, 0, 0] =
     [1, 16, 0, 0, 0, 0, 101, 83, 241, 0, 0, 0, 0, 0, 0, 0, 0, 0, 0, 0, 0, 0, 0, 0, 0, 0, 0, 0,
      0, 0, 0, 0, 0, 0, 0, 0, 0, 0, 0, 0, 0, 0, 0, 0, 0, 0, 0, 0, 0, 0, 0, 0, 0, 0, 0, 0, 94, 199,
      121, 199, 114, 240, 184, 252] @
     [187, 144, 74, 57, 208, 51, 56, 123, 35, 81, 234, 122, 169, 172, 217, 149, 143, 36, 142, 161,
      1, 237, 128, 227, 167, 123, 0, 0, 0, 0, 0, 0, 0, 0, 128, 0, 0, 0, 0, 0, 0, 0, 0, 0, 0, 0,
      0, 0, 0, 0, 0, 0, 0, 0, 0, 0, 0, 0, 0, 0, 0, 0, 3, 16] @ []"
    by (simp add: sha_pad_def be_bytes_numeral numeral_replicate)
  show ?thesis
    unfolding sha256_Sum256_def pad n_init_sha n_init_def
      ex_work_step1
      ex_work_step2
      sha_blocks_end
    by (simp add: be_bytes_numeral)
qed

section \<open>The example's facts\<close>

lemma ex_challenge_wf [simp]: "wf_challenge ex_challenge"
  by (simp add: wf_challenge_def ex_challenge_def)

lemma ex_solution_wf [simp]: "wf_solution ex_solution"
  by (simp add: wf_solution_def ex_solution_def)

lemma ex_challenge_unsigned: "Challenge_MarshalUnsigned ex_challenge =
     [1, 16, 0, 0, 0, 0, 101, 83, 241, 0, 0, 0, 0, 0, 0, 0, 0, 0, 0, 0, 0, 0, 0, 0, 0, 0, 0, 0,
      0, 0, 0, 0, 0, 0, 0, 0, 0, 0, 0, 0, 0, 0, 0, 0, 0, 0, 0, 0, 0, 0, 0, 0, 0, 0, 0, 0, 94, 199]"
  by (simp add: MarshalUnsigned_fields)
    (simp add: ex_challenge_def be_PutUint64_def be_bytes_numeral numeral_replicate)

lemma ex_signature:
  "hmac_sha256 ex_secret (Challenge_MarshalUnsigned ex_challenge) = Signature ex_challenge"
proof -
  have k: "hmac_key ex_secret =
     [116, 104, 105, 115, 45, 105, 115, 45, 101, 120, 97, 99, 116, 108, 121, 45, 51, 50, 45, 98,
      121, 116, 101, 45, 115, 101, 99, 114, 101, 116, 33, 33] @ replicate 32 0"
    by (simp add: hmac_key_def ex_secret_def)
  have i: "map (\<lambda>b. b XOR 0x36) (hmac_key ex_secret) @ Challenge_MarshalUnsigned ex_challenge =
     [66, 94, 95, 69, 27, 95, 69, 27, 83, 78, 87, 85, 66, 90, 79, 27, 5, 4, 27, 84, 79, 66, 83,
      27, 69, 83, 85, 68, 83, 66, 23, 23, 54, 54, 54, 54, 54, 54, 54, 54, 54, 54, 54, 54, 54, 54,
      54, 54, 54, 54, 54, 54, 54, 54, 54, 54, 54, 54, 54, 54, 54, 54, 54, 54, 1, 16, 0, 0, 0, 0,
      101, 83, 241, 0, 0, 0, 0, 0, 0, 0, 0, 0, 0, 0, 0, 0, 0, 0, 0, 0, 0, 0, 0, 0, 0, 0, 0, 0,
      0, 0, 0, 0, 0, 0, 0, 0, 0, 0, 0, 0, 0, 0, 0, 0, 0, 0, 0, 0, 0, 0, 94, 199]"
    unfolding k ex_challenge_unsigned by (simp add: numeral_replicate)
  have o: "map (\<lambda>b. b XOR 0x5c) (hmac_key ex_secret) @
     [150, 223, 55, 81, 63, 174, 184, 58, 45, 82, 211, 94, 246, 16, 88, 253, 225, 199, 192, 190,
      235, 58, 189, 97, 72, 166, 215, 149, 165, 178, 37, 45] =
     [40, 52, 53, 47, 113, 53, 47, 113, 57, 36, 61, 63, 40, 48, 37, 113, 111, 110, 113, 62, 37,
      40, 57, 113, 47, 57, 63, 46, 57, 40, 125, 125, 92, 92, 92, 92, 92, 92, 92, 92, 92, 92, 92,
      92, 92, 92, 92, 92, 92, 92, 92, 92, 92, 92, 92, 92, 92, 92, 92, 92, 92, 92, 92, 92, 150,
      223, 55, 81, 63, 174, 184, 58, 45, 82, 211, 94, 246, 16, 88, 253, 225, 199, 192, 190, 235,
      58, 189, 97, 72, 166, 215, 149, 165, 178, 37, 45]"
    unfolding k by (simp add: numeral_replicate)
  show ?thesis
    unfolding hmac_sha256_def Let_def i ex_inner_digest o ex_outer_digest by (simp add: ex_challenge_def)
qed

lemma ex_work_bytes: "Solution_Marshal ex_solution =
     [1, 16, 0, 0, 0, 0, 101, 83, 241, 0, 0, 0, 0, 0, 0, 0, 0, 0, 0, 0, 0, 0, 0, 0, 0, 0, 0, 0,
      0, 0, 0, 0, 0, 0, 0, 0, 0, 0, 0, 0, 0, 0, 0, 0, 0, 0, 0, 0, 0, 0, 0, 0, 0, 0, 0, 0, 94, 199,
      121, 199, 114, 240, 184, 252, 187, 144, 74, 57, 208, 51, 56, 123, 35, 81, 234, 122, 169,
      172, 217, 149, 143, 36, 142, 161, 1, 237, 128, 227, 167, 123, 0, 0, 0, 0, 0, 0, 0, 0]"
proof -
  have "Signature ex_challenge =
     [121, 199, 114, 240, 184, 252, 187, 144, 74, 57, 208, 51, 56, 123, 35, 81, 234, 122, 169,
      172, 217, 149, 143, 36, 142, 161, 1, 237, 128, 227, 167, 123]"
    by (simp add: ex_challenge_def)
  then show ?thesis
    using ex_solution_wf ex_challenge_wf
    by (simp add: Solution_Marshal_fields Marshal_fields ex_solution_def ex_challenge_unsigned
        be_PutUint64_def be_bytes_numeral)
qed

lemma ex_hash: "sha256_Sum256 (Solution_Marshal ex_solution) =
     [0, 0, 122, 105, 239, 21, 1, 103, 52, 25, 137, 46, 111, 50, 141, 90, 241, 77, 85, 206, 209,
      167, 196, 151, 189, 226, 1, 87, 26, 232, 216, 239]"
  unfolding ex_work_bytes by (rule ex_work_digest)

lemma ex_work [simp]: "hasRequiredLeadingZeros ex_solution"
proof -
  have "pow_data (Challenge ex_solution) (Counter ex_solution) = Solution_Marshal ex_solution"
    by (simp add: pow_data_Solution_Marshal ex_solution_def)
  then show ?thesis
    by (simp add: hasRequiredLeadingZeros_def ex_hash)
      (simp add: ex_solution_def ex_challenge_def hasLeadingZeros_def zero_bytes_loop.simps)
qed

lemma ex_solves [simp]: "solves ex_challenge 0"
  using ex_work by (simp add: solves_def ex_solution_def)

lemma ex_verify [simp]:
  assumes "ex_time \<le> t" "t \<le> ex_time + 90 * time_Second"
  shows "Verify ex_verifier t ex_solution = None"
proof -
  have s: "Challenge ex_solution = ex_challenge" by (simp add: ex_solution_def)
  have "1700000000 \<le> t div time_Second" "t div time_Second \<le> 1700000090"
    using assms by (simp_all add: ex_time_def)
  then have "validateTimestamp ex_verifier t (Timestamp ex_challenge) = None"
    by (subst validateTimestamp_window)
      (simp_all add: ex_verifier_def ex_challenge_def Let_def)
  moreover have "Challenge_Validate ex_challenge = None"
    by (simp add: Challenge_Validate_None_iff ex_challenge_def pow_Version_def MinDifficulty_def
        MaxDifficulty_def)
  moreover have "verifySignature ex_verifier ex_challenge"
    using ex_signature by (simp add: verifySignature_def ex_verifier_def Let_def)
  ultimately show ?thesis by (simp add: Verify_None_iff s)
qed

lemma ex_generate:
  "Generate ex_generator 16 ex_time (Rand_Bytes (\<lambda>_. 0)) (Rand_Bytes ex_nonce) = Inr ex_challenge"
proof -
  let ?c = "\<lparr>Version = pow_Version, Difficulty = 16, Timestamp = time_Unix ex_time,
      Resource = map (\<lambda>_. 0) [0..<32], Nonce = map ex_nonce [0..<16], Signature = make_bytes 32\<rparr>"
  have n: "map ex_nonce [0..<16] = Nonce ex_challenge"
    by (simp add: ex_challenge_def ex_nonce_def upt_rec_numeral upt_rec)
  have r: "map (\<lambda>_. 0 :: byte) [0..<32] = Resource ex_challenge"
    by (simp add: ex_challenge_def map_replicate_const)
  have c: "?c = ex_challenge\<lparr>Signature := make_bytes 32\<rparr>"
    unfolding n r by (simp add: ex_challenge_def pow_Version_def time_Unix_def ex_time_def)
  have "gen_sign ex_generator ?c = ex_challenge"
    unfolding c by (simp add: gen_sign_eq ex_generator_def ex_signature)
  then show ?thesis
    by (simp add: Generate_def Let_def pow_sizes MinDifficulty_def MaxDifficulty_def)
qed

end
