(* ===== verification/Pow_Difficulty.thy ===== *)
theory Pow_Difficulty
  imports Pow_Generator Go_Float
begin

text \<open>
  \<^verbatim>\<open>internal/pow/difficulty.go\<close>: the difficulty manager, which maps the load of the system to
  a difficulty, and its static variant. The goroutine \<^verbatim>\<open>updateLoop\<close>, the callers of
  \<^verbatim>\<open>Update\<close> and \<^verbatim>\<open>Stop\<close> and the cancellation of the context interleave: they are the
  labelled steps of \<open>dm_step\<close>. Closing a closed channel and a ticker with a non-positive
  period panic; both are values of the model.
\<close>

section \<open>Definitions\<close>

record DifficultyConfig =
  dc_Base :: u8
  dc_Min :: u8
  dc_Max :: u8
  UpdateInterval :: duration
  ConnectionThresholdHigh :: int
  ConnectionThresholdMedium :: int
  RateThresholdHigh :: f64
  RateThresholdMedium :: f64
  CPUThreshold :: f64

definition DefaultDifficultyConfig :: DifficultyConfig where
  "DefaultDifficultyConfig =
    \<lparr>dc_Base = 20, dc_Min = 16, dc_Max = 24, UpdateInterval = 10 * time_Second,
     ConnectionThresholdHigh = 5000, ConnectionThresholdMedium = 1000,
     RateThresholdHigh = Fin 100, RateThresholdMedium = Fin 50, CPUThreshold = f64_of_rat (8 / 10)\<rparr>"

text \<open>The channel \<^verbatim>\<open>stopChan\<close> is the flag whether it is closed.\<close>

record difficultyManager =
  dm_config :: DifficultyConfig
  dm_current :: u32
  stopChan_closed :: bool
  dm_stopped :: bool

text \<open>The configuration the constructor keeps: zero values replaced, the base clamped.\<close>

definition dc_zero_defaults :: "DifficultyConfig \<Rightarrow> DifficultyConfig" where
  "dc_zero_defaults config =
    \<lparr>dc_Base = (if dc_Base config = 0 then 20 else dc_Base config),
     dc_Min = (if dc_Min config = 0 then MinDifficulty else dc_Min config),
     dc_Max = (if dc_Max config = 0 then MaxDifficulty else dc_Max config),
     UpdateInterval = (if UpdateInterval config = 0 then 10 * time_Second else UpdateInterval config),
     ConnectionThresholdHigh =
       (if ConnectionThresholdHigh config = 0 then 5000 else ConnectionThresholdHigh config),
     ConnectionThresholdMedium =
       (if ConnectionThresholdMedium config = 0 then 1000 else ConnectionThresholdMedium config),
     RateThresholdHigh =
       (if RateThresholdHigh config = Fin 0 then Fin 100 else RateThresholdHigh config),
     RateThresholdMedium =
       (if RateThresholdMedium config = Fin 0 then Fin 50 else RateThresholdMedium config),
     CPUThreshold = (if CPUThreshold config = Fin 0 then f64_of_rat (8 / 10) else CPUThreshold config)\<rparr>"

definition dc_clamp :: "DifficultyConfig \<Rightarrow> DifficultyConfig" where
  "dc_clamp config =
    (let config = (if dc_Base config < dc_Min config
                   then config\<lparr>dc_Base := dc_Min config\<rparr> else config);
         config = (if dc_Base config > dc_Max config
                   then config\<lparr>dc_Base := dc_Max config\<rparr> else config)
     in config)"

definition dc_defaults :: "DifficultyConfig \<Rightarrow> DifficultyConfig" where
  "dc_defaults config = dc_clamp (dc_zero_defaults config)"

definition NewDifficultyManager :: "DifficultyConfig \<Rightarrow> difficultyManager" where
  "NewDifficultyManager config =
    (let config = dc_defaults config
     in \<lparr>dm_config = config, dm_current = ucast (dc_Base config),
         stopChan_closed = False, dm_stopped = False\<rparr>)"

definition dm_Current :: "difficultyManager \<Rightarrow> u8" where
  "dm_Current m = ucast (dm_current m)"

definition load_adjustment :: "DifficultyConfig \<Rightarrow> int \<Rightarrow> f64 \<Rightarrow> f64 \<Rightarrow> int" where
  "load_adjustment config activeConns connRate cpuLoad =
    (let adjustment = 0;
         adjustment = (if activeConns > ConnectionThresholdHigh config then adjustment + 2
                       else if activeConns > ConnectionThresholdMedium config then adjustment + 1
                       else adjustment);
         adjustment = (if f64_less (RateThresholdHigh config) connRate then adjustment + 2
                       else if f64_less (RateThresholdMedium config) connRate then adjustment + 1
                       else adjustment)
     in if f64_less (CPUThreshold config) cpuLoad then adjustment + 1 else adjustment)"

definition dm_Update :: "int \<Rightarrow> f64 \<Rightarrow> f64 \<Rightarrow> difficultyManager \<Rightarrow> difficultyManager" where
  "dm_Update activeConns connRate cpuLoad m =
    (let config = dm_config m;
         newDifficulty = uint (dc_Base config) + load_adjustment config activeConns connRate cpuLoad;
         newDifficulty = (if newDifficulty < uint (dc_Min config)
                          then uint (dc_Min config) else newDifficulty);
         newDifficulty = (if newDifficulty > uint (dc_Max config)
                          then uint (dc_Max config) else newDifficulty)
     in m\<lparr>dm_current := word_of_int newDifficulty\<rparr>)"

text \<open>\<^verbatim>\<open>close\<close> of a closed channel panics (\<open>None\<close>).\<close>

definition dm_Stop :: "difficultyManager \<Rightarrow> difficultyManager option" where
  "dm_Stop m =
    (if \<not> dm_stopped m
     then (let m = m\<lparr>dm_stopped := True\<rparr>
           in if stopChan_closed m then None else Some (m\<lparr>stopChan_closed := True\<rparr>))
     else Some m)"

subsection \<open>The update loop\<close>

record dm_system =
  sys_dm :: difficultyManager
  sys_ctx_done :: bool
  sys_loop :: loop_status

datatype dm_event =
  Ev_Start | Ev_Tick int f64 f64 | Ev_Return | Ev_Update int f64 f64 | Ev_Stop | Ev_Cancel

definition dm_system_init :: "DifficultyConfig \<Rightarrow> dm_system" where
  "dm_system_init config =
    \<lparr>sys_dm = NewDifficultyManager config, sys_ctx_done = False, sys_loop = Loop_Idle\<rparr>"

text \<open>
  One transition. \<^verbatim>\<open>select\<close> picks any ready case, so that a tick may still be served after
  \<^verbatim>\<open>Stop\<close> or a cancellation. \<open>gather\<close> says whether a gatherer was given; what it measured
  is part of the tick.
\<close>

inductive dm_step :: "bool \<Rightarrow> dm_system \<Rightarrow> dm_event \<Rightarrow> dm_system \<Rightarrow> bool" for gather where
  Start: "sys_loop s = Loop_Idle \<Longrightarrow>
     dm_step gather s Ev_Start
       (s\<lparr>sys_loop := ticker_loop (UpdateInterval (dm_config (sys_dm s)))\<rparr>)"
| Tick: "sys_loop s = Loop_Running \<Longrightarrow>
     dm_step gather s (Ev_Tick conns rate cpu)
       (if gather then s\<lparr>sys_dm := dm_Update conns rate cpu (sys_dm s)\<rparr> else s)"
| Return: "sys_loop s = Loop_Running \<Longrightarrow> sys_ctx_done s \<or> stopChan_closed (sys_dm s) \<Longrightarrow>
     dm_step gather s Ev_Return (s\<lparr>sys_loop := Loop_Returned\<rparr>)"
| Update: "dm_step gather s (Ev_Update conns rate cpu)
       (s\<lparr>sys_dm := dm_Update conns rate cpu (sys_dm s)\<rparr>)"
| Stop: "dm_Stop (sys_dm s) = Some m \<Longrightarrow> dm_step gather s Ev_Stop (s\<lparr>sys_dm := m\<rparr>)"
| Cancel: "dm_step gather s Ev_Cancel (s\<lparr>sys_ctx_done := True\<rparr>)"

inductive_cases dm_step_cases [elim]: "dm_step gather s e s'"

subsection \<open>The static manager\<close>

record staticDifficultyManager =
  sdm_difficulty :: u8

definition StaticDifficultyManager :: "u8 \<Rightarrow> staticDifficultyManager" where
  "StaticDifficultyManager difficulty = \<lparr>sdm_difficulty = difficulty\<rparr>"

definition sdm_Current :: "staticDifficultyManager \<Rightarrow> u8" where
  "sdm_Current m = sdm_difficulty m"

definition sdm_Update ::
  "int \<Rightarrow> f64 \<Rightarrow> f64 \<Rightarrow> staticDifficultyManager \<Rightarrow> staticDifficultyManager" where
  "sdm_Update activeConns connRate cpuLoad m = m"

text \<open>\<^verbatim>\<open>Start\<close> of the static manager starts nothing; \<open>gather\<close> is never called.\<close>

definition sdm_Start :: "(unit \<Rightarrow> int \<times> f64 \<times> f64) \<Rightarrow> staticDifficultyManager \<Rightarrow> staticDifficultyManager" where
  "sdm_Start gather m = m"

definition sdm_Stop :: "staticDifficultyManager \<Rightarrow> staticDifficultyManager option" where
  "sdm_Stop m = Some m"

subsection \<open>The invariant\<close>

text \<open>
  The difficulty is at most the maximum, at least the lower end of the configured interval
  (the maximum itself when the interval is empty), the base is clamped into it, and the
  channel is closed exactly when \<^verbatim>\<open>Stop\<close> has run.
\<close>

definition dc_low :: "DifficultyConfig \<Rightarrow> u8" where
  "dc_low config = min (dc_Min config) (dc_Max config)"

definition dm_inv :: "DifficultyConfig \<Rightarrow> difficultyManager \<Rightarrow> bool" where
  "dm_inv config m \<longleftrightarrow>
     dm_config m = config \<and> dc_Base config \<le> dc_Max config \<and> dc_low config \<le> dc_Base config \<and>
     unat (dc_low config) \<le> unat (dm_current m) \<and> unat (dm_current m) \<le> unat (dc_Max config) \<and>
     stopChan_closed m = dm_stopped m"

section \<open>Lemmas\<close>

lemma dc_defaults_base:
  "dc_Base (dc_defaults config) \<le> dc_Max (dc_defaults config)"
  "dc_low (dc_defaults config) \<le> dc_Base (dc_defaults config)"
  by (auto simp: dc_defaults_def dc_clamp_def dc_low_def Let_def min_def)

lemma dc_defaults_bounds:
  "dc_Min (dc_defaults config) = (if dc_Min config = 0 then MinDifficulty else dc_Min config)"
  "dc_Max (dc_defaults config) = (if dc_Max config = 0 then MaxDifficulty else dc_Max config)"
  by (simp_all add: dc_defaults_def dc_clamp_def dc_zero_defaults_def Let_def)

lemma unat_ucast_u8 [simp]: "unat (ucast (b :: u8) :: u32) = unat b"
proof -
  have "unat b < 2 ^ 32" using unat_byte_bound [of b] by simp
  then show ?thesis by (simp add: unsigned_ucast_eq take_bit_nat_eq_self)
qed

lemma NewDifficultyManager_inv: "dm_inv (dc_defaults config) (NewDifficultyManager config)"
  using dc_defaults_base [of config]
  by (simp add: NewDifficultyManager_def dm_inv_def Let_def word_le_nat_alt)

text \<open>The stored value is the clamped sum, exactly.\<close>

lemma dm_Update_current:
  "uint (dm_current (dm_Update a r c m)) =
     min (uint (dc_Max (dm_config m)))
       (max (uint (dc_Min (dm_config m)))
         (uint (dc_Base (dm_config m)) + load_adjustment (dm_config m) a r c))"
proof -
  let ?n = "min (uint (dc_Max (dm_config m))) (max (uint (dc_Min (dm_config m)))
         (uint (dc_Base (dm_config m)) + load_adjustment (dm_config m) a r c))"
  have "0 \<le> ?n" by (simp add: le_max_iff_disj)
  moreover have "?n < 2 ^ 8" using uint_lt2p [of "dc_Max (dm_config m)"] by simp
  ultimately have "uint (word_of_int ?n :: u32) = ?n"
    by (simp add: unsigned_of_int take_bit_int_eq_self)
  moreover have "dm_current (dm_Update a r c m) = word_of_int ?n"
  proof -
    have code: "(if hi < (if n < lo then lo else n) then hi else if n < lo then lo else n) =
        min hi (max lo n)" for hi lo n :: int by auto
    have "dm_current (m\<lparr>dm_current := x\<rparr>) = x" for x by simp
    then show ?thesis unfolding dm_Update_def Let_def code by (simp only:)
  qed
  ultimately show ?thesis by (simp only:)
qed

lemma uint_min: "uint (min a b) = min (uint a) (uint b)"
  by (simp add: min_def word_le_def)

lemma uint_le_unat: "uint a \<le> uint b \<longleftrightarrow> unat a \<le> unat b"
proof -
  have "uint a = int (unat a)" "uint b = int (unat b)" by simp_all
  then show ?thesis by linarith
qed

lemma dm_Update_inv: "dm_inv config m \<Longrightarrow> dm_inv config (dm_Update a r c m)"
proof -
  assume inv: "dm_inv config m"
  let ?m = "dm_Update a r c m"
  have cfg: "dm_config ?m = config" "stopChan_closed ?m = stopChan_closed m" "dm_stopped ?m = dm_stopped m"
    using inv by (simp_all add: dm_Update_def dm_inv_def Let_def)
  have c: "dm_config m = config" using inv by (simp add: dm_inv_def)
  have range: "min lo hi \<le> min hi (max lo n) \<and> min hi (max lo n) \<le> hi" for lo hi n :: int by auto
  have "uint (dc_low config) \<le> uint (dm_current ?m) \<and> uint (dm_current ?m) \<le> uint (dc_Max config)"
    unfolding dm_Update_current c dc_low_def uint_min by (rule range)
  then have "unat (dc_low config) \<le> unat (dm_current ?m) \<and> unat (dm_current ?m) \<le> unat (dc_Max config)"
    by (simp only: uint_le_unat)
  then show ?thesis using inv cfg by (simp add: dm_inv_def)
qed

lemma dm_Stop_inv: "dm_inv config m \<Longrightarrow> \<exists>m'. dm_Stop m = Some m' \<and> dm_inv config m'"
  by (auto simp: dm_Stop_def dm_inv_def Let_def)

lemma unat_dm_Current: "dm_inv config m \<Longrightarrow> unat (dm_Current m) = unat (dm_current m)"
proof -
  assume "dm_inv config m"
  then have "unat (dm_current m) < 2 ^ 8"
    using unat_byte_bound [of "dc_Max config"] by (simp add: dm_inv_def)
  then show ?thesis
    by (simp add: dm_Current_def unsigned_ucast_eq take_bit_nat_eq_self)
qed

lemma dm_Current_bounds:
  "dm_inv config m \<Longrightarrow> dc_low config \<le> dm_Current m \<and> dm_Current m \<le> dc_Max config"
  using unat_dm_Current [of config m] by (simp add: dm_inv_def word_le_nat_alt)

lemma dm_step_inv:
  assumes "dm_step gather s e s'" "dm_inv config (sys_dm s)"
  shows "dm_inv config (sys_dm s')"
  using assms(1)
  by cases (use assms(2) dm_Stop_inv [OF assms(2)] in \<open>auto simp: dm_Update_inv\<close>)

lemma dm_runs_inv:
  "runs (dm_step gather) s es s' \<Longrightarrow> dm_inv config (sys_dm s) \<Longrightarrow> dm_inv config (sys_dm s')"
  by (erule runs_inv [where I = "\<lambda>s. dm_inv config (sys_dm s)"]) (auto intro: dm_step_inv)

text \<open>More load never means less difficulty.\<close>

lemma f64_less_le_trans: "f64_less a b \<Longrightarrow> f64_le b c \<Longrightarrow> f64_less a c"
  by (cases a; cases b; cases c) auto

lemma load_adjustment_mono:
  assumes "a \<le> a'" "f64_le r r'" "f64_le c c'"
  shows "load_adjustment config a r c \<le> load_adjustment config a' r' c'"
proof -
  let ?conns = "\<lambda>a. if a > ConnectionThresholdHigh config then 2
    else if a > ConnectionThresholdMedium config then 1 else (0::int)"
  let ?rate = "\<lambda>r. if f64_less (RateThresholdHigh config) r then 2
    else if f64_less (RateThresholdMedium config) r then 1 else (0::int)"
  let ?cpu = "\<lambda>c. if f64_less (CPUThreshold config) c then 1 else (0::int)"
  have sum: "load_adjustment config a r c = ?conns a + ?rate r + ?cpu c" for a r c
    by (simp add: load_adjustment_def Let_def)
  have "?conns a \<le> ?conns a'" using assms(1) by auto
  moreover have "?rate r \<le> ?rate r'" using f64_less_le_trans [OF _ assms(2)] by auto
  moreover have "?cpu c \<le> ?cpu c'" using f64_less_le_trans [OF _ assms(3)] by auto
  ultimately show ?thesis unfolding sum by linarith
qed

lemma load_adjustment_range: "0 \<le> load_adjustment config a r c \<and> load_adjustment config a r c \<le> 5"
  by (simp add: load_adjustment_def Let_def)

subsection \<open>The DifficultyManager interface\<close>

text \<open>
  What the users of a manager rely on: whatever is measured, the difficulty stays in an
  interval fixed at construction, and \<^verbatim>\<open>Stop\<close> returns, any number of times.
\<close>

locale difficulty_manager =
  fixes current :: "'m \<Rightarrow> u8"
    and update :: "int \<Rightarrow> f64 \<Rightarrow> f64 \<Rightarrow> 'm \<Rightarrow> 'm"
    and stop :: "'m \<Rightarrow> 'm option"
    and inv :: "'m \<Rightarrow> bool"
    and low high :: u8
  assumes current_range: "inv m \<Longrightarrow> low \<le> current m \<and> current m \<le> high"
    and update_inv: "inv m \<Longrightarrow> inv (update a r c m)"
    and stop_ok: "inv m \<Longrightarrow> \<exists>m'. stop m = Some m' \<and> inv m' \<and> current m' = current m"
begin

lemma updates_inv: "inv m \<Longrightarrow> inv (fold (\<lambda>(a, r, c). update a r c) us m)"
  by (induction us arbitrary: m) (auto intro: update_inv)

lemma updates_range:
  "inv m \<Longrightarrow> low \<le> current (fold (\<lambda>(a, r, c). update a r c) us m) \<and>
     current (fold (\<lambda>(a, r, c). update a r c) us m) \<le> high"
  by (simp add: current_range updates_inv)

lemma stop_twice: "inv m \<Longrightarrow> \<exists>m' m''. stop m = Some m' \<and> stop m' = Some m''"
  using stop_ok by blast

text \<open>A manager whose interval lies in the generator's always gives it a valid difficulty.\<close>

lemma generates:
  assumes "inv m" "MinDifficulty \<le> low" "high \<le> MaxDifficulty"
    and "is_ok (rand_Read 32 r1)" "is_ok (rand_Read 16 r2)"
  shows "is_ok (Generate g (current m) now r1 r2)"
  using current_range [OF assms(1)] assms by (auto simp: Generate_ok_iff)

end

interpretation dynamic_dm: difficulty_manager
  dm_Current dm_Update dm_Stop "dm_inv config" "dc_low config" "dc_Max config" for config
proof unfold_locales
  show "\<exists>m'. dm_Stop m = Some m' \<and> dm_inv config m' \<and> dm_Current m' = dm_Current m"
    if "dm_inv config m" for m
    using that by (auto simp: dm_Stop_def dm_inv_def dm_Current_def Let_def)
qed (auto simp: dm_Current_bounds dm_Update_inv)

interpretation static_dm: difficulty_manager
  sdm_Current sdm_Update sdm_Stop "\<lambda>m. m = StaticDifficultyManager d" d d for d
  by unfold_locales (simp_all add: sdm_Current_def sdm_Update_def sdm_Stop_def StaticDifficultyManager_def)

end
