(* ===== verification/Pow_Properties.thy ===== *)
theory Pow_Properties
  imports Pow_Example Pow_Difficulty
begin

text \<open>
  The theorems on package \<^verbatim>\<open>internal/pow\<close>: its wire formats, the verifier, the generator, the
  solvers and the difficulty manager, each with an instance on the example of theory
  \<open>Pow_Example\<close>.
\<close>

section \<open>Definitions\<close>

text \<open>The sentinels of the verifier's errors.\<close>

definition verify_sentinels :: "go_error set" where
  "verify_sentinels = {ErrInvalidVersion, ErrInvalidDifficulty, ErrInvalidSignature,
     ErrChallengeExpired, ErrFutureTimestamp, ErrInsufficientWork}"

text \<open>What time says of a challenge: its age in seconds is in the accepted window.\<close>

definition in_window :: "verifierImpl \<Rightarrow> instant \<Rightarrow> i64 \<Rightarrow> bool" where
  "in_window v t ts \<longleftrightarrow>
     - (clockSkew v div time_Second) \<le> t div time_Second - sint ts \<and>
     t div time_Second - sint ts \<le> challengeTimeout v div time_Second + clockSkew v div time_Second"

text \<open>The counters at which a search with a callback reports.\<close>

definition report_due :: "progressSolverImpl \<Rightarrow> u64 \<Rightarrow> bool" where
  "report_due s n \<longleftrightarrow> n mod reportInterval s = 0"

section \<open>Lemmas\<close>

lemma verify_sentinels_distinct:
  "distinct [ErrInvalidVersion, ErrInvalidDifficulty, ErrInvalidSignature, ErrChallengeExpired,
     ErrFutureTimestamp, ErrInsufficientWork]"
  by (simp add: go_errs)

text \<open>\<^verbatim>\<open>errors.Is\<close> of a sentinel, wrapped or not, holds for that sentinel only.\<close>

lemma errors_Is_sentinel:
  assumes "x \<in> verify_sentinels"
  shows "errors_Is x target \<longleftrightarrow> target = x"
  using assms by (auto simp: verify_sentinels_def go_errs)

lemma unique_sentinel:
  assumes "x \<in> verify_sentinels" "\<And>target. errors_Is e target \<longleftrightarrow> target = x"
  shows "\<exists>!target. target \<in> verify_sentinels \<and> errors_Is e target"
  using assms by auto

lemma validateTimestamp_in_window:
  assumes "0 \<le> challengeTimeout v" "challengeTimeout v < 2 ^ 22 * time_Second"
    and "0 \<le> clockSkew v" "clockSkew v < 2 ^ 22 * time_Second"
    and "0 \<le> t" "t < 2 ^ 62" "0 \<le> sint ts" "sint ts < 2 ^ 62"
  shows "validateTimestamp v t ts = None \<longleftrightarrow> in_window v t ts"
proof -
  have "0 \<le> t div time_Second" "t div time_Second < 2 ^ 62" using assms(5,6) by auto
  then show ?thesis
    using assms by (subst validateTimestamp_window) (auto simp: in_window_def Let_def not_less)
qed

text \<open>The sentinel of a rejection and the check that failed.\<close>

lemma verify_error_cause:
  assumes "Verify v t s = Some e"
  shows "\<exists>x \<in> verify_sentinels. (\<forall>target. errors_Is e target \<longleftrightarrow> target = x) \<and>
    (Challenge_Validate (Challenge s) \<noteq> None \<and> x \<in> {ErrInvalidVersion, ErrInvalidDifficulty} \<or>
     x = ErrInvalidSignature \<and> Challenge_Validate (Challenge s) = None \<and> \<not> verifySignature v (Challenge s) \<or>
     x \<in> {ErrChallengeExpired, ErrFutureTimestamp} \<and> Challenge_Validate (Challenge s) = None \<and>
       verifySignature v (Challenge s) \<and> validateTimestamp v t (Timestamp (Challenge s)) \<noteq> None \<or>
     x = ErrInsufficientWork \<and> Challenge_Validate (Challenge s) = None \<and>
       verifySignature v (Challenge s) \<and> validateTimestamp v t (Timestamp (Challenge s)) = None)"
  using assms
proof (cases rule: Verify_Some_cases)
  case fields
  then obtain x m where "x \<in> {ErrInvalidVersion, ErrInvalidDifficulty}" "e = Errorf [] x m"
    using Challenge_Validate_Some by blast
  moreover from this have "x \<in> verify_sentinels" by (auto simp: verify_sentinels_def)
  ultimately show ?thesis using fields errors_Is_sentinel [of x] by (intro bexI [of _ x]) auto
next
  case signature
  then show ?thesis using errors_Is_sentinel [of e]
    by (intro bexI [of _ e]) (auto simp: verify_sentinels_def)
next
  case time
  then have "e \<in> {ErrChallengeExpired, ErrFutureTimestamp}"
    using validateTimestamp_cases [of v t "Timestamp (Challenge s)"] by auto
  then show ?thesis using time errors_Is_sentinel [of e]
    by (intro bexI [of _ e]) (auto simp: verify_sentinels_def)
next
  case work
  then show ?thesis using errors_Is_sentinel [of e]
    by (intro bexI [of _ e]) (auto simp: verify_sentinels_def)
qed

text \<open>Which counters a search reports to its callback.\<close>

lemma progress_loop_reports:
  assumes "progress_loop c d s ctx cb data k reports = (Inr sol, rs)"
  shows "k \<le> Counter sol \<and>
    set rs = set reports \<union> {n. k \<le> n \<and> n \<le> Counter sol \<and> cb \<and> 0 < n \<and> report_due s n}"
  using assms
proof (induction c d s ctx cb data k reports rule: progress_loop.induct)
  case (1 c d s ctx cb data k reports)
  let ?data = "go_copy data ChallengeSize (be_PutUint64 k)"
  let ?rep = "if cb \<and> 0 < k \<and> k mod reportInterval s = 0 then reports @ [k] else reports"
  let ?hit = "hasLeadingZeros (sha256_Sum256 ?data) d"
  note unfold = progress_loop.simps [of c d s ctx cb data k reports]
  have lt: "k < ps_maxIterations s" and alive: "ctx_check ctx k = None"
    using "1.prems" by (auto simp: unfold split: if_splits option.splits)
  have rep: "set ?rep = set reports \<union> {n. n = k \<and> cb \<and> 0 < k \<and> report_due s k}"
    unfolding report_due_def [symmetric] by (cases "cb \<and> 0 < k \<and> report_due s k") auto
  show ?case
  proof (cases ?hit)
    case True
    then have "Counter sol = k" "rs = ?rep"
      using "1.prems" lt alive by (auto simp: unfold Let_def)
    moreover have "{n. k \<le> n \<and> n \<le> k \<and> cb \<and> 0 < n \<and> report_due s n} =
        {n. n = k \<and> cb \<and> 0 < k \<and> report_due s k}"
      by (intro Collect_cong) (metis order_antisym order_refl)
    ultimately show ?thesis using rep by simp
  next
    case False
    then have step: "progress_loop c d s ctx cb ?data (k + 1) ?rep = (Inr sol, rs)"
      using "1.prems" lt alive by (simp add: unfold Let_def)
    have IH: "k + 1 \<le> Counter sol"
      "set rs = set ?rep \<union> {n. k + 1 \<le> n \<and> n \<le> Counter sol \<and> cb \<and> 0 < n \<and> report_due s n}"
      using "1.IH" [OF lt alive refl refl refl False step] by auto
    have split: "k \<le> n \<longleftrightarrow> n = k \<or> k + 1 \<le> n" for n by (rule u64_le_split [OF lt])
    have le: "k \<le> Counter sol" using IH(1) split by blast
    have "{n. k \<le> n \<and> n \<le> Counter sol \<and> cb \<and> 0 < n \<and> report_due s n} =
        {n. n = k \<and> cb \<and> 0 < k \<and> report_due s k} \<union>
        {n. k + 1 \<le> n \<and> n \<le> Counter sol \<and> cb \<and> 0 < n \<and> report_due s n}"
      (is "?L = ?R")
    proof (rule set_eqI)
      show "n \<in> ?L \<longleftrightarrow> n \<in> ?R" for n using le split [of n] by (cases "n = k") auto
    qed
    then show ?thesis using le unfolding IH(2) rep by blast
  qed
qed

lemma Solve_example: "Solve NewSolver (\<lambda>_. None) ex_challenge = Inr ex_solution"
proof -
  have "ctx_check (\<lambda>_. None) m = None" for m by (simp add: ctx_check_def)
  then have "found_from ex_challenge (maxIterations NewSolver) (\<lambda>_. None) 0 ex_solution"
    by (auto simp: found_from_def ex_solution_def NewSolver_def NewSolverWithConfig_def
        DefaultMaxIterations_def)
  then show ?thesis by (simp add: Solve_Inr_iff)
qed

text \<open>A solved challenge in its time window; the keys of the example.\<close>

lemma accepted_in_window:
  assumes "NewGenerator secret = Inr g"
    and v: "NewVerifier \<lparr>vc_Secret = secret, vc_ChallengeTimeout = T, vc_ClockSkew = S\<rparr> = Inr v"
    and T: "0 < T" "T < 2 ^ 22 * time_Second" and S: "0 < S" "S < 2 ^ 22 * time_Second"
    and gen: "Generate g d t0 r1 r2 = Inr c"
    and solved: "Solve s ctx c = Inr sol"
    and t: "0 \<le> t0" "t0 \<le> t" "t < 2 ^ 62"
      "t div time_Second - t0 div time_Second \<le> T div time_Second + S div time_Second"
  shows "Verify v t sol = None"
proof -
  have secret: "gen_secret g = secret" "ver_secret v = secret" "challengeTimeout v = T" "clockSkew v = S"
    using assms(1) v T S by (auto simp: NewGenerator_def NewVerifier_def Let_def split: if_splits)
  have sol: "Challenge sol = c" "hasRequiredLeadingZeros sol"
    using plain_solver.solved_challenge [OF solved] plain_solver.solved_work [OF solved] by auto
  note g = Generate_Inr [OF gen]
  have sec: "0 \<le> t0 div time_Second" "t0 div time_Second < 2 ^ 62" "t0 div time_Second \<le> t div time_Second"
    using t by (auto intro: zdiv_mono1)
  then have ts: "sint (Timestamp c) = t0 div time_Second"
    using g(6) by (simp add: time_Unix_def sint_word_of_int_small)
  have "in_window v t (Timestamp c)"
    using t(4) sec pos_imp_zdiv_nonneg_iff [of time_Second S] S
    by (simp add: in_window_def ts secret)
  then have "validateTimestamp v t (Timestamp c) = None"
    using T S t sec by (subst validateTimestamp_in_window) (simp_all add: secret ts)
  then show ?thesis
    using g sol by (simp add: Verify_None_iff Challenge_Validate_None_iff verifySignature_def secret Let_def)
qed

lemma ex_keys:
  "NewGenerator ex_secret = Inr ex_generator"
  "NewVerifier \<lparr>vc_Secret = ex_secret, vc_ChallengeTimeout = 60 * time_Second, vc_ClockSkew = 30 * time_Second\<rparr> = Inr ex_verifier"
  by (simp_all add: NewGenerator_def ex_generator_def NewVerifier_def ex_verifier_def MinSecretLength_def ex_secret_def)

lemma dm_Update_Current:
  "uint (dm_Current (dm_Update a r c m)) =
    min (uint (dc_Max (dm_config m))) (max (uint (dc_Min (dm_config m)))
      (uint (dc_Base (dm_config m)) + load_adjustment (dm_config m) a r c))"
proof -
  have "uint (dm_current (dm_Update a r c m)) \<le> uint (dc_Max (dm_config m))"
    by (simp add: dm_Update_current)
  also have "\<dots> < 256" using uint_lt2p [of "dc_Max (dm_config m)"] by simp
  finally have "uint (dm_Current (dm_Update a r c m)) = uint (dm_current (dm_Update a r c m))"
    by (simp add: dm_Current_def unsigned_ucast_eq take_bit_int_eq_self)
  then show ?thesis by (simp only: dm_Update_current)
qed

lemma dm_Update_mono:
  assumes "a \<le> a'" "f64_le r r'" "f64_le c c'"
  shows "dm_Current (dm_Update a r c m) \<le> dm_Current (dm_Update a' r' c' m)"
proof -
  have mono: "min hi (max lo x) \<le> min hi (max lo y)" if "x \<le> y" for hi lo x y :: int using that by auto
  show ?thesis
    unfolding word_le_def dm_Update_Current by (intro mono add_left_mono load_adjustment_mono [OF assms])
qed

section \<open>Properties\<close>

subsection \<open>Wire formats\<close>

text \<open>
  C28: The two wire formats are exact in both directions. \<^verbatim>\<open>UnmarshalChallenge\<close> returns a challenge
  for precisely the buffers of 90 bytes, and the challenge it returns is the one whose
  \<^verbatim>\<open>Marshal\<close> is that buffer; the same holds of solutions and the buffers of 98 bytes.
\<close>

theorem wire_formats:
  "(UnmarshalChallenge bs = Inr c \<longleftrightarrow> wf_challenge c \<and> Challenge_Marshal c = bs) \<and>
   (is_ok (UnmarshalChallenge bs) \<longleftrightarrow> length bs = ChallengeSize) \<and>
   (UnmarshalSolution bs = Inr s \<longleftrightarrow> wf_solution s \<and> Solution_Marshal s = bs) \<and>
   (is_ok (UnmarshalSolution bs) \<longleftrightarrow> length bs = SolutionSize)"
  by (simp add: challenge_codec.dec_iff challenge_codec.dec_accepts_iff ChallengeSize_def
      solution_codec.dec_iff solution_codec.dec_accepts_iff SolutionSize_def)

text \<open>
  The layout of a solution on the wire: version, difficulty, the timestamp in big endian,
  resource, nonce, signature and the counter in big endian. The signed part is the same
  without signature and counter.
\<close>

lemma solution_layout:
  assumes "wf_solution s"
  shows "Solution_Marshal s = Challenge_MarshalUnsigned (Challenge s) @ Signature (Challenge s) @ be_PutUint64 (Counter s) \<and>
    Challenge_MarshalUnsigned (Challenge s) =
      [Version (Challenge s), Difficulty (Challenge s)] @ be_PutUint64 (Timestamp (Challenge s)) @
      Resource (Challenge s) @ Nonce (Challenge s)"
proof -
  have "wf_challenge (Challenge s)" using assms by (simp add: wf_solution_def)
  then show ?thesis
    using assms by (simp add: Solution_Marshal_fields Marshal_fields MarshalUnsigned_fields)
qed

lemma solution_layout_instance:
  "Solution_Marshal ex_solution =
     Challenge_MarshalUnsigned ex_challenge @ Signature ex_challenge @ be_PutUint64 0"
  using solution_layout [OF ex_solution_wf] by (simp add: ex_solution_def)

subsection \<open>Verification\<close>

text \<open>
  C29: The byte loop with its masked last byte decides whether the digest, read as a
  big-endian number, is below \<open>2\<close> to the number of bits less the difficulty.
\<close>

theorem leading_zeros_threshold:
  assumes "n \<le> 8 * length hash"
  shows "hasLeadingZeros hash n \<longleftrightarrow> be_nat hash < 2 ^ (8 * length hash - n)"
  by (rule hasLeadingZeros_nat [OF assms])

theorem leading_zeros_threshold_witness:
  "hasLeadingZeros [0, 0x7F] 9 \<and> \<not> hasLeadingZeros [0, 0x80] 9"
  using leading_zeros_threshold [of 9 "[0, 0x7F]"] leading_zeros_threshold [of 9 "[0, 0x80]"]
  by (simp add: be_nat_Cons)

text \<open>
  C8: What \<^verbatim>\<open>Verify\<close> accepts: a challenge of version 1 with a difficulty from 16 to 24, signed
  under the server's secret, at most \<^verbatim>\<open>ChallengeTimeout + ClockSkew\<close> old and at most \<^verbatim>\<open>ClockSkew\<close>
  in the future (in whole seconds), whose solution hashes below the threshold of its own
  difficulty. The durations are those of a configuration (up to 48 days), the instants those
  of the next hundred years.
\<close>

theorem verify_accepts_iff:
  assumes "0 \<le> challengeTimeout v" "challengeTimeout v < 2 ^ 22 * time_Second"
    and "0 \<le> clockSkew v" "clockSkew v < 2 ^ 22 * time_Second"
    and "0 \<le> t" "t < 2 ^ 62" "0 \<le> sint (Timestamp (Challenge s))" "sint (Timestamp (Challenge s)) < 2 ^ 62"
  shows "Verify v t s = None \<longleftrightarrow>
    Version (Challenge s) = 1 \<and> 16 \<le> unat (Difficulty (Challenge s)) \<and> unat (Difficulty (Challenge s)) \<le> 24 \<and>
    Signature (Challenge s) = hmac_sha256 (ver_secret v) (Challenge_MarshalUnsigned (Challenge s)) \<and>
    in_window v t (Timestamp (Challenge s)) \<and>
    be_nat (sha256_Sum256 (Solution_Marshal s)) < 2 ^ (256 - unat (Difficulty (Challenge s)))"
  unfolding Verify_None_iff Challenge_Validate_None_iff validateTimestamp_in_window [OF assms]
    hasRequiredLeadingZeros_nat verifySignature_def Let_def
  by (auto simp: pow_Version_def MinDifficulty_def MaxDifficulty_def word_le_nat_alt)

theorem verify_accepts_iff_witness:
  "Verify ex_verifier (ex_time + 90 * time_Second) ex_solution = None \<and>
   Verify ex_verifier (ex_time + 91 * time_Second) ex_solution \<noteq> None"
proof
  have s: "Challenge ex_solution = ex_challenge" by (simp add: ex_solution_def)
  have p: "0 \<le> challengeTimeout ex_verifier" "challengeTimeout ex_verifier < 2 ^ 22 * time_Second"
    "0 \<le> clockSkew ex_verifier" "clockSkew ex_verifier < 2 ^ 22 * time_Second"
    "0 \<le> sint (Timestamp (Challenge ex_solution))" "sint (Timestamp (Challenge ex_solution)) < 2 ^ 62"
    by (simp_all add: ex_verifier_def ex_solution_def ex_challenge_def)
  note iff = verify_accepts_iff [of ex_verifier _ ex_solution, OF p(1-4) _ _ p(5,6)]
  have "Verify ex_verifier ex_time ex_solution = None" by simp
  then show "Verify ex_verifier (ex_time + 90 * time_Second) ex_solution = None"
    using iff [of ex_time] iff [of "ex_time + 90 * time_Second"]
    by (simp add: ex_time_def in_window_def ex_verifier_def s ex_challenge_def)
  show "Verify ex_verifier (ex_time + 91 * time_Second) ex_solution \<noteq> None"
    using iff [of "ex_time + 91 * time_Second"]
    by (simp add: ex_time_def in_window_def ex_verifier_def s ex_challenge_def)
qed

text \<open>
  C26: Every rejection carries exactly one of the six sentinel errors, and the checks are made
  in order: the work is judged only for a challenge that is well-formed, signed and timely,
  the time only for one that is well-formed and signed.
\<close>

theorem verify_error_order:
  assumes "Verify v t s = Some e"
  shows "(\<exists>!target. target \<in> verify_sentinels \<and> errors_Is e target) \<and>
    (errors_Is e ErrInsufficientWork \<longleftrightarrow>
       Challenge_Validate (Challenge s) = None \<and> verifySignature v (Challenge s) \<and>
       validateTimestamp v t (Timestamp (Challenge s)) = None) \<and>
    (errors_Is e ErrChallengeExpired \<or> errors_Is e ErrFutureTimestamp \<longleftrightarrow>
       Challenge_Validate (Challenge s) = None \<and> verifySignature v (Challenge s) \<and>
       validateTimestamp v t (Timestamp (Challenge s)) \<noteq> None) \<and>
    (errors_Is e ErrInvalidSignature \<longleftrightarrow>
       Challenge_Validate (Challenge s) = None \<and> \<not> verifySignature v (Challenge s))"
proof -
  obtain x where x: "x \<in> verify_sentinels" "\<And>target. errors_Is e target \<longleftrightarrow> target = x"
    and cause: "Challenge_Validate (Challenge s) \<noteq> None \<and> x \<in> {ErrInvalidVersion, ErrInvalidDifficulty} \<or>
      x = ErrInvalidSignature \<and> Challenge_Validate (Challenge s) = None \<and> \<not> verifySignature v (Challenge s) \<or>
      x \<in> {ErrChallengeExpired, ErrFutureTimestamp} \<and> Challenge_Validate (Challenge s) = None \<and>
        verifySignature v (Challenge s) \<and> validateTimestamp v t (Timestamp (Challenge s)) \<noteq> None \<or>
      x = ErrInsufficientWork \<and> Challenge_Validate (Challenge s) = None \<and>
        verifySignature v (Challenge s) \<and> validateTimestamp v t (Timestamp (Challenge s)) = None"
    using verify_error_cause [OF assms] by blast
  show ?thesis
    using unique_sentinel [OF x] cause verify_sentinels_distinct by (auto simp: x(2))
qed

theorem verify_error_order_witness:
  "\<exists>e. Verify \<lparr>ver_secret = ex_secret, challengeTimeout = 0, clockSkew = 0\<rparr> ex_time
     \<lparr>Challenge = ex_challenge\<lparr>Version := 2\<rparr>, Counter = 0\<rparr> = Some e \<and> \<not> errors_Is e ErrInsufficientWork"
proof -
  let ?v = "\<lparr>ver_secret = ex_secret, challengeTimeout = 0, clockSkew = 0\<rparr>"
    and ?s = "\<lparr>Challenge = ex_challenge\<lparr>Version := 2\<rparr>, Counter = 0\<rparr>"
  have bad: "Challenge_Validate (Challenge ?s) \<noteq> None"
    by (simp add: Challenge_Validate_None_iff pow_Version_def)
  then obtain e where e: "Verify ?v ex_time ?s = Some e"
    by (cases "Verify ?v ex_time ?s") (auto simp: Verify_None_iff)
  then show ?thesis using verify_error_order [OF e] bad by auto
qed

subsection \<open>Generation\<close>

text \<open>
  C30: The generator fails exactly for a difficulty outside 16 to 24 or when a read of the
  random source fails. Otherwise the challenge has version 1, the requested difficulty, the
  current second, the random bytes as resource and nonce, and the HMAC of its signed part.
\<close>

theorem generate_spec:
  "(is_ok (Generate g d now r1 r2) \<longleftrightarrow>
      16 \<le> unat d \<and> unat d \<le> 24 \<and> is_ok (rand_Read ResourceSize r1) \<and> is_ok (rand_Read NonceSize r2)) \<and>
   (Generate g d now r1 r2 = Inr c \<longrightarrow>
      Version c = 1 \<and> Difficulty c = d \<and> Timestamp c = time_Unix now \<and>
      rand_Read ResourceSize r1 = Inr (Resource c) \<and> rand_Read NonceSize r2 = Inr (Nonce c) \<and>
      Signature c = hmac_sha256 (gen_secret g) (Challenge_MarshalUnsigned c))"
  using Generate_Inr [of g d now r1 r2 c]
  by (auto simp: Generate_ok_iff MinDifficulty_def MaxDifficulty_def word_le_nat_alt pow_sizes pow_Version_def)

theorem generate_spec_witness:
  "Signature ex_challenge = hmac_sha256 ex_secret (Challenge_MarshalUnsigned ex_challenge)"
  using generate_spec [of ex_generator 16 ex_time "Rand_Bytes (\<lambda>_. 0)" "Rand_Bytes ex_nonce" ex_challenge] ex_generate
  by (simp add: ex_generator_def)

text \<open>
  C5: The whole proof of work is sound and usable: a challenge the server issued, solved by
  the client's solver, is accepted by the verifier with the same secret from the instant of
  issue until \<^verbatim>\<open>ChallengeTimeout + ClockSkew\<close> later.
\<close>

theorem issued_and_solved_verifies:
  assumes "NewGenerator secret = Inr g"
    and v: "NewVerifier \<lparr>vc_Secret = secret, vc_ChallengeTimeout = T, vc_ClockSkew = S\<rparr> = Inr v"
    and T: "0 < T" "T < 2 ^ 22 * time_Second" and S: "0 < S" "S < 2 ^ 22 * time_Second"
    and gen: "Generate g d t0 r1 r2 = Inr c"
    and solved: "Solve s ctx c = Inr sol"
    and t: "0 \<le> t0" "t0 \<le> t" "t < 2 ^ 62"
      "t div time_Second - t0 div time_Second \<le> T div time_Second + S div time_Second"
  shows "Verify v t sol = None"
  using accepted_in_window [OF assms(1) v T S gen solved t] .

theorem issued_and_solved_verifies_witness:
  "Verify ex_verifier (ex_time + 45 * time_Second) ex_solution = None"
proof -
  note Solve_example ex_keys
  then show ?thesis
    by (intro issued_and_solved_verifies [where T = "60 * time_Second" and S = "30 * time_Second",
          OF _ _ _ _ _ _ ex_generate])
      (simp_all add: ex_time_def)
qed

subsection \<open>Solving\<close>

text \<open>
  C27: The solver returns a solution exactly when it is the one with the least solving counter
  below the iteration limit and no cancellation was visible at a check up to there. So an
  uncancelled search finds a solution whenever a counter below the limit solves the challenge.
\<close>

theorem solve_returns_least:
  "(Solve s ctx c = Inr sol \<longleftrightarrow>
     Challenge sol = c \<and> Counter sol < maxIterations s \<and> hasRequiredLeadingZeros sol \<and>
     (\<forall>m < Counter sol. \<not> hasRequiredLeadingZeros \<lparr>Challenge = c, Counter = m\<rparr>) \<and>
     (\<forall>m \<le> Counter sol. m mod contextCheckInterval = 0 \<longrightarrow> ctx m = None)) \<and>
   ((\<forall>m. ctx m = None) \<and> n < maxIterations s \<and> hasRequiredLeadingZeros \<lparr>Challenge = c, Counter = n\<rparr> \<longrightarrow>
     (\<exists>sol. Solve s ctx c = Inr sol \<and> Counter sol \<le> n))"
proof (intro conjI impI)
  have "solves c (Counter sol) \<longleftrightarrow> hasRequiredLeadingZeros sol" if "Challenge sol = c"
    using that by (cases sol) (simp add: solves_def)
  moreover have "(\<forall>m. ctx_check ctx m = None \<longleftrightarrow> (m mod contextCheckInterval = 0 \<longrightarrow> ctx m = None))"
    by (simp add: ctx_check_def)
  ultimately show "Solve s ctx c = Inr sol \<longleftrightarrow>
     Challenge sol = c \<and> Counter sol < maxIterations s \<and> hasRequiredLeadingZeros sol \<and>
     (\<forall>m < Counter sol. \<not> hasRequiredLeadingZeros \<lparr>Challenge = c, Counter = m\<rparr>) \<and>
     (\<forall>m \<le> Counter sol. m mod contextCheckInterval = 0 \<longrightarrow> ctx m = None)"
    unfolding Solve_Inr_iff found_from_def by (auto simp: solves_def)
next
  assume n: "(\<forall>m. ctx m = None) \<and> n < maxIterations s \<and> hasRequiredLeadingZeros \<lparr>Challenge = c, Counter = n\<rparr>"
  then have "\<exists>sol. Solve s ctx c = Inr sol"
    by (intro plain_solver.solve_complete [of ctx c n]) (simp_all add: ctx_check_def solves_def)
  then obtain sol where sol: "Solve s ctx c = Inr sol" by blast
  have "\<not> n < Counter sol"
    using plain_solver.solved_least [OF sol, of n] n by (auto simp: solves_def)
  then show "\<exists>sol. Solve s ctx c = Inr sol \<and> Counter sol \<le> n" using sol by auto
qed

theorem solve_returns_least_witness:
  "Solve NewSolver (\<lambda>_. None) ex_challenge = Inr ex_solution"
  using ex_work
  by (simp add: solve_returns_least)
    (simp add: ex_solution_def NewSolver_def NewSolverWithConfig_def DefaultMaxIterations_def)

text \<open>
  C31: The solver with progress reports finds what the plain solver finds, with or without a
  callback, and a successful search has reported exactly the positive multiples of the
  interval up to the counter it found.
\<close>

theorem progress_equivalent:
  "fst (SolveWithProgress s ctx c cb) = Solve \<lparr>maxIterations = ps_maxIterations s\<rparr> ctx c \<and>
   ps_Solve s ctx c = Solve \<lparr>maxIterations = ps_maxIterations s\<rparr> ctx c \<and>
   (SolveWithProgress s ctx c cb = (Inr sol, reports) \<longrightarrow>
      set reports = {n. cb \<and> 0 < n \<and> n \<le> Counter sol \<and> report_due s n})"
  using progress_loop_reports [of c "unat (Difficulty c)" s ctx cb _ 0 "[]" sol reports]
  by (auto simp: SolveWithProgress_fst ps_Solve_def)
    (auto simp: SolveWithProgress_def Let_def)

theorem progress_equivalent_witness:
  "\<exists>reports. SolveWithProgress (NewSolverWithProgress 0) (\<lambda>_. None) ex_challenge True = (Inr ex_solution, reports) \<and>
     set reports = {}"
proof -
  let ?s = "NewSolverWithProgress 0"
  obtain r reports where p: "SolveWithProgress ?s (\<lambda>_. None) ex_challenge True = (r, reports)" by fastforce
  have "\<lparr>maxIterations = ps_maxIterations ?s\<rparr> = NewSolver"
    by (simp add: NewSolverWithProgress_def NewSolverWithProgressConfig_def NewSolver_def NewSolverWithConfig_def)
  then have "r = Solve NewSolver (\<lambda>_. None) ex_challenge"
    using progress_equivalent [of ?s "\<lambda>_. None" ex_challenge True] p by simp
  then have r: "r = Inr ex_solution" using Solve_example by simp
  have "set reports = {}"
    using progress_equivalent [of ?s "\<lambda>_. None" ex_challenge True ex_solution reports] p r
    by (simp add: ex_solution_def)
  then show ?thesis using p r by simp
qed

subsection \<open>Difficulty\<close>

text \<open>
  C36: However the update loop, direct updates, \<^verbatim>\<open>Stop\<close> and cancellation interleave, the current
  difficulty of a manager is never above its maximum and never below its minimum (or the
  maximum, if that is smaller), and \<^verbatim>\<open>Stop\<close> does not panic. An update then sets it to the base plus
  an adjustment between 0 and 5, clamped to the configured interval, and more load of any kind
  never lowers it.
\<close>

theorem difficulty_in_range:
  assumes "runs (dm_step gather) (dm_system_init config) es s"
    and "a \<le> a'" "f64_le r r'" "f64_le c c'"
  shows "min (dc_Min (dc_defaults config)) (dc_Max (dc_defaults config)) \<le> dm_Current (sys_dm s) \<and>
    dm_Current (sys_dm s) \<le> dc_Max (dc_defaults config) \<and> dm_Stop (sys_dm s) \<noteq> None \<and>
    uint (dm_Current (dm_Update a r c (sys_dm s))) =
      min (uint (dc_Max (dc_defaults config))) (max (uint (dc_Min (dc_defaults config)))
        (uint (dc_Base (dc_defaults config)) + load_adjustment (dc_defaults config) a r c)) \<and>
    load_adjustment (dc_defaults config) a r c \<in> {0..5} \<and>
    dm_Current (dm_Update a r c (sys_dm s)) \<le> dm_Current (dm_Update a' r' c' (sys_dm s))"
proof -
  have inv: "dm_inv (dc_defaults config) (sys_dm s)"
    using dm_runs_inv [OF assms(1)] NewDifficultyManager_inv [of config] by (simp add: dm_system_init_def)
  then have cfg: "dm_config (sys_dm s) = dc_defaults config" by (simp add: dm_inv_def)
  have "min (dc_Min (dc_defaults config)) (dc_Max (dc_defaults config)) \<le> dm_Current (sys_dm s)"
      "dm_Current (sys_dm s) \<le> dc_Max (dc_defaults config)" "dm_Stop (sys_dm s) \<noteq> None"
    using inv dynamic_dm.current_range dynamic_dm.stop_twice by (fastforce simp: dc_low_def)+
  moreover have "dm_Current (dm_Update a r c (sys_dm s)) \<le> dm_Current (dm_Update a' r' c' (sys_dm s))"
    by (rule dm_Update_mono [OF assms(2-4)])
  moreover have "uint (dm_Current (dm_Update a r c (sys_dm s))) =
      min (uint (dc_Max (dc_defaults config))) (max (uint (dc_Min (dc_defaults config)))
        (uint (dc_Base (dc_defaults config)) + load_adjustment (dc_defaults config) a r c))"
    unfolding dm_Update_Current cfg ..
  ultimately show ?thesis using load_adjustment_range by simp
qed

theorem difficulty_in_range_witness:
  "16 \<le> dm_Current (dm_Update 6000 (Fin 200) (Fin 1) (NewDifficultyManager DefaultDifficultyConfig)) \<and>
   dm_Current (dm_Update 10 (Fin 1) (Fin 0) (NewDifficultyManager DefaultDifficultyConfig))
     \<le> dm_Current (dm_Update 2000 (Fin 60) (Fin 0) (NewDifficultyManager DefaultDifficultyConfig))"
proof -
  let ?s = "dm_system_init DefaultDifficultyConfig"
  have run: "runs (dm_step True) ?s [Ev_Update 6000 (Fin 200) (Fin 1)]
      (?s\<lparr>sys_dm := dm_Update 6000 (Fin 200) (Fin 1) (sys_dm ?s)\<rparr>)"
    by (intro runs_step dm_step.Update)
  have "min (dc_Min (dc_defaults DefaultDifficultyConfig)) (dc_Max (dc_defaults DefaultDifficultyConfig))
      \<le> dm_Current (dm_Update 6000 (Fin 200) (Fin 1) (sys_dm ?s))"
    using difficulty_in_range [OF run, of 0 0 "Fin 0" "Fin 0" "Fin 0" "Fin 0"] by simp
  moreover have "dc_Min (dc_defaults DefaultDifficultyConfig) = 16" "dc_Max (dc_defaults DefaultDifficultyConfig) = 24"
    by (simp_all add: dc_defaults_bounds) (simp_all add: DefaultDifficultyConfig_def)
  moreover have "dm_Current (dm_Update 10 (Fin 1) (Fin 0) (sys_dm ?s)) \<le> dm_Current (dm_Update 2000 (Fin 60) (Fin 0) (sys_dm ?s))"
    using difficulty_in_range [OF runs.Nil, where a = 10 and a' = 2000 and r = "Fin 1" and r' = "Fin 60" and c = "Fin 0" and c' = "Fin 0"]
    by simp
  ultimately show ?thesis by (simp add: dm_system_init_def min_def)
qed

end
