(* ===== verification/Protocol_Types.thy ===== *)
theory Protocol_Types
  imports Go_Prelude
begin

text \<open>
  \<^verbatim>\<open>internal/protocol/types.go\<close> and \<^verbatim>\<open>errors.go\<close>: the constants of the wire protocol, message
  types, error codes and the errors a client builds from them. \<^verbatim>\<open>MessageType\<close> and
  \<^verbatim>\<open>ErrorCode\<close> are bytes in Go, with no restriction to the named values: so they are here.
\<close>

section \<open>Definitions\<close>

subsection \<open>Constants\<close>

definition MaxMessageSize :: nat where "MaxMessageSize = 1024"
definition HeaderSize :: nat where "HeaderSize = 3"
definition LengthSize :: nat where "LengthSize = 2"
definition MaxPayloadSize :: nat where "MaxPayloadSize = MaxMessageSize - HeaderSize"

lemmas proto_sizes = MaxMessageSize_def HeaderSize_def LengthSize_def MaxPayloadSize_def

type_synonym MessageType = u8

definition TypeRequestChallenge :: MessageType where "TypeRequestChallenge = 0x01"
definition TypeChallenge :: MessageType where "TypeChallenge = 0x02"
definition TypeSolution :: MessageType where "TypeSolution = 0x03"
definition TypeQuote :: MessageType where "TypeQuote = 0x04"
definition TypeError :: MessageType where "TypeError = 0x05"

lemmas msg_types = TypeRequestChallenge_def TypeChallenge_def TypeSolution_def TypeQuote_def
  TypeError_def

definition MessageType_String :: "MessageType \<Rightarrow> string" where
  "MessageType_String t =
    (if t = TypeRequestChallenge then ''REQUEST_CHALLENGE''
     else if t = TypeChallenge then ''CHALLENGE''
     else if t = TypeSolution then ''SOLUTION''
     else if t = TypeQuote then ''QUOTE''
     else if t = TypeError then ''ERROR''
     else ''UNKNOWN'')"

definition MessageType_IsValid :: "MessageType \<Rightarrow> bool" where
  "MessageType_IsValid t \<longleftrightarrow> t \<ge> TypeRequestChallenge \<and> t \<le> TypeError"

type_synonym ErrorCode = u8

definition ErrCodeInvalidMessage :: ErrorCode where "ErrCodeInvalidMessage = 0x01"
definition ErrCodeInvalidState :: ErrorCode where "ErrCodeInvalidState = 0x02"
definition ErrCodeChallengeExpired :: ErrorCode where "ErrCodeChallengeExpired = 0x03"
definition ErrCodeInvalidSignature :: ErrorCode where "ErrCodeInvalidSignature = 0x04"
definition ErrCodeInvalidSolution :: ErrorCode where "ErrCodeInvalidSolution = 0x05"
definition ErrCodeTooManyAttempts :: ErrorCode where "ErrCodeTooManyAttempts = 0x06"
definition ErrCodeRateLimited :: ErrorCode where "ErrCodeRateLimited = 0x07"
definition ErrCodeServerBusy :: ErrorCode where "ErrCodeServerBusy = 0x08"

lemmas err_codes = ErrCodeInvalidMessage_def ErrCodeInvalidState_def ErrCodeChallengeExpired_def
  ErrCodeInvalidSignature_def ErrCodeInvalidSolution_def ErrCodeTooManyAttempts_def
  ErrCodeRateLimited_def ErrCodeServerBusy_def

definition ErrorCode_String :: "ErrorCode \<Rightarrow> string" where
  "ErrorCode_String e =
    (if e = ErrCodeInvalidMessage then ''ERR_INVALID_MESSAGE''
     else if e = ErrCodeInvalidState then ''ERR_INVALID_STATE''
     else if e = ErrCodeChallengeExpired then ''ERR_CHALLENGE_EXPIRED''
     else if e = ErrCodeInvalidSignature then ''ERR_INVALID_SIGNATURE''
     else if e = ErrCodeInvalidSolution then ''ERR_INVALID_SOLUTION''
     else if e = ErrCodeTooManyAttempts then ''ERR_TOO_MANY_ATTEMPTS''
     else if e = ErrCodeRateLimited then ''ERR_RATE_LIMITED''
     else if e = ErrCodeServerBusy then ''ERR_SERVER_BUSY''
     else ''ERR_UNKNOWN'')"

definition ErrorCode_IsValid :: "ErrorCode \<Rightarrow> bool" where
  "ErrorCode_IsValid e \<longleftrightarrow> e \<ge> ErrCodeInvalidMessage \<and> e \<le> ErrCodeServerBusy"

definition ErrorCode_IsRetryable :: "ErrorCode \<Rightarrow> bool" where
  "ErrorCode_IsRetryable e =
    (if e = ErrCodeInvalidSolution then True
     else if e = ErrCodeRateLimited then True
     else if e = ErrCodeServerBusy then True
     else False)"

definition ErrorCode_Description :: "ErrorCode \<Rightarrow> string" where
  "ErrorCode_Description e =
    (if e = ErrCodeInvalidMessage then ''malformed message''
     else if e = ErrCodeInvalidState then ''wrong message sequence''
     else if e = ErrCodeChallengeExpired then ''challenge timestamp too old''
     else if e = ErrCodeInvalidSignature then ''HMAC verification failed''
     else if e = ErrCodeInvalidSolution then ''hash doesn't meet difficulty requirement''
     else if e = ErrCodeTooManyAttempts then ''exceeded maximum solution attempts''
     else if e = ErrCodeRateLimited then ''too many requests from this IP''
     else if e = ErrCodeServerBusy then ''server connection limit reached''
     else ''unknown error'')"

subsection \<open>Errors received from the server\<close>

text \<open>
  A \<^verbatim>\<open>*ProtocolError\<close> is \<open>Protocol_Error code\<close>; the package's sentinels are pointers to such
  values, and comparing them with \<^verbatim>\<open>errors.Is\<close> compares the codes.
\<close>

definition ProtocolError_Error :: "ErrorCode \<Rightarrow> string" where
  "ProtocolError_Error code =
     concat [''protocol error: '', ErrorCode_String code, '' - '', ErrorCode_Description code]"

definition ProtocolError_Is :: "ErrorCode \<Rightarrow> go_error \<Rightarrow> bool" where
  "ProtocolError_Is code target =
    (case errors_As_ProtocolError target of Some c \<Rightarrow> code = c | None \<Rightarrow> False)"

definition proto_ErrInvalidMessage :: go_error where
  "proto_ErrInvalidMessage = Protocol_Error ErrCodeInvalidMessage"
definition proto_ErrInvalidState :: go_error where
  "proto_ErrInvalidState = Protocol_Error ErrCodeInvalidState"
definition proto_ErrChallengeExpired :: go_error where
  "proto_ErrChallengeExpired = Protocol_Error ErrCodeChallengeExpired"
definition proto_ErrInvalidSignature :: go_error where
  "proto_ErrInvalidSignature = Protocol_Error ErrCodeInvalidSignature"
definition proto_ErrInvalidSolution :: go_error where
  "proto_ErrInvalidSolution = Protocol_Error ErrCodeInvalidSolution"
definition proto_ErrTooManyAttempts :: go_error where
  "proto_ErrTooManyAttempts = Protocol_Error ErrCodeTooManyAttempts"
definition proto_ErrRateLimited :: go_error where
  "proto_ErrRateLimited = Protocol_Error ErrCodeRateLimited"
definition proto_ErrServerBusy :: go_error where
  "proto_ErrServerBusy = Protocol_Error ErrCodeServerBusy"

lemmas proto_sentinels = proto_ErrInvalidMessage_def proto_ErrInvalidState_def
  proto_ErrChallengeExpired_def proto_ErrInvalidSignature_def proto_ErrInvalidSolution_def
  proto_ErrTooManyAttempts_def proto_ErrRateLimited_def proto_ErrServerBusy_def

definition NewProtocolError :: "ErrorCode \<Rightarrow> go_error" where
  "NewProtocolError code = Protocol_Error code"

definition ErrorFromCode :: "ErrorCode \<Rightarrow> go_error" where
  "ErrorFromCode code =
    (if code = ErrCodeInvalidMessage then proto_ErrInvalidMessage
     else if code = ErrCodeInvalidState then proto_ErrInvalidState
     else if code = ErrCodeChallengeExpired then proto_ErrChallengeExpired
     else if code = ErrCodeInvalidSignature then proto_ErrInvalidSignature
     else if code = ErrCodeInvalidSolution then proto_ErrInvalidSolution
     else if code = ErrCodeTooManyAttempts then proto_ErrTooManyAttempts
     else if code = ErrCodeRateLimited then proto_ErrRateLimited
     else if code = ErrCodeServerBusy then proto_ErrServerBusy
     else NewProtocolError code)"

definition IsRetryableError :: "go_error \<Rightarrow> bool" where
  "IsRetryableError err =
    (case errors_As_ProtocolError err of
       Some code \<Rightarrow> ErrorCode_IsRetryable code
     | None \<Rightarrow> False)"

definition ShouldReconnect :: "go_error \<Rightarrow> bool" where
  "ShouldReconnect err =
    (case errors_As_ProtocolError err of
       Some code \<Rightarrow>
         (if code \<in> {ErrCodeInvalidMessage, ErrCodeInvalidState, ErrCodeChallengeExpired,
                      ErrCodeInvalidSignature, ErrCodeTooManyAttempts}
          then True else False)
     | None \<Rightarrow> False)"

text \<open>The text of an error.\<close>

fun error_text :: "go_error \<Rightarrow> string" where
  "error_text (Sentinel name t) = t"
| "error_text (Err_Text t) = t"
| "error_text (Net_Error timeout t) = t"
| "error_text (Protocol_Error code) = ProtocolError_Error code"
| "error_text (Errorf pre e post) = pre @ error_text e @ post"

section \<open>Lemmas\<close>

lemma ErrorFromCode_eq [simp]: "ErrorFromCode code = Protocol_Error code"
  by (simp add: ErrorFromCode_def proto_sentinels NewProtocolError_def)

text \<open>The named codes are the bytes 1 to 8.\<close>

lemma ErrorCode_IsValid_cases:
  "ErrorCode_IsValid e \<longleftrightarrow>
     e \<in> {ErrCodeInvalidMessage, ErrCodeInvalidState, ErrCodeChallengeExpired, ErrCodeInvalidSignature,
          ErrCodeInvalidSolution, ErrCodeTooManyAttempts, ErrCodeRateLimited, ErrCodeServerBusy}"
proof -
  have "ErrorCode_IsValid e \<longleftrightarrow> unat e \<in> {1, 2, 3, 4, 5, 6, 7, 8}"
    by (auto simp: ErrorCode_IsValid_def err_codes word_le_nat_alt)
  also have "\<dots> \<longleftrightarrow> e \<in> {1, 2, 3, 4, 5, 6, 7, 8}"
    by (auto simp: word_unat_eq_iff)
  finally show ?thesis by (simp only: err_codes)
qed

lemma MessageType_IsValid_cases:
  "MessageType_IsValid t \<longleftrightarrow>
     t \<in> {TypeRequestChallenge, TypeChallenge, TypeSolution, TypeQuote, TypeError}"
proof -
  have "MessageType_IsValid t \<longleftrightarrow> unat t \<in> {1, 2, 3, 4, 5}"
    by (auto simp: MessageType_IsValid_def msg_types word_le_nat_alt)
  also have "\<dots> \<longleftrightarrow> t \<in> {1, 2, 3, 4, 5}"
    by (auto simp: word_unat_eq_iff)
  finally show ?thesis by (simp only: msg_types)
qed

text \<open>Wrapping an error any number of times does not change how a client classifies it.\<close>

lemma classify_wrapped [simp]:
  "IsRetryableError (Errorf pre e post) = IsRetryableError e"
  "ShouldReconnect (Errorf pre e post) = ShouldReconnect e"
  by (simp_all add: IsRetryableError_def ShouldReconnect_def)

text \<open>Every named code is retried or leads to a new connection, never both.\<close>

lemma retryable_code: "IsRetryableError (ErrorFromCode code) \<longleftrightarrow> code \<in> {5, 7, 8}"
  by (simp add: IsRetryableError_def ErrorCode_IsRetryable_def err_codes)

lemma reconnect_code: "ShouldReconnect (ErrorFromCode code) \<longleftrightarrow> code \<in> {1, 2, 3, 4, 6}"
  by (simp add: ShouldReconnect_def err_codes)

lemma valid_code: "ErrorCode_IsValid code \<longleftrightarrow> code \<in> {1, 2, 3, 4, 5, 6, 7, 8}"
  unfolding ErrorCode_IsValid_cases err_codes ..

lemma classify_code:
  "ErrorCode_IsValid code \<longleftrightarrow>
     IsRetryableError (ErrorFromCode code) \<or> ShouldReconnect (ErrorFromCode code)"
  "\<not> (IsRetryableError (ErrorFromCode code) \<and> ShouldReconnect (ErrorFromCode code))"
proof -
  show "ErrorCode_IsValid code \<longleftrightarrow>
      IsRetryableError (ErrorFromCode code) \<or> ShouldReconnect (ErrorFromCode code)"
    unfolding retryable_code reconnect_code valid_code by blast
  have "{5, 7, 8} \<inter> {1, 2, 3, 4, 6 :: u8} = {}" by simp
  then show "\<not> (IsRetryableError (ErrorFromCode code) \<and> ShouldReconnect (ErrorFromCode code))"
    unfolding retryable_code reconnect_code by blast
qed

end
