(* ===== verification/Protocol_Message.thy ===== *)
theory Protocol_Message
  imports Protocol_Types Go_Codec
begin

text \<open>
  \<^verbatim>\<open>internal/protocol/message.go\<close>: messages, their wire form
  \<^verbatim>\<open>[length:2][type:1][payload:N]\<close> and the reader and writer of a stream. A \<^verbatim>\<open>nil\<close> payload is
  the empty list (the code tests lengths only).

  A \<^verbatim>\<open>io.Reader\<close> is what it will deliver: bytes, then an error that every later call
  repeats. A \<^verbatim>\<open>Write\<close> is given by its outcome, the number of bytes it took and its error.
  \<^verbatim>\<open>Message.String\<close> is left out: it formats a log line with \<^verbatim>\<open>%q\<close>.
\<close>

section \<open>Definitions\<close>

definition ErrMessageTooLarge :: go_error where
  [go_errs]: "ErrMessageTooLarge = Sentinel ''protocol.ErrMessageTooLarge'' ''message exceeds maximum size''"

definition ErrMessageTooShort :: go_error where
  [go_errs]: "ErrMessageTooShort = Sentinel ''protocol.ErrMessageTooShort'' ''message too short''"

definition ErrInvalidMessageType :: go_error where
  [go_errs]: "ErrInvalidMessageType = Sentinel ''protocol.ErrInvalidMessageType'' ''invalid message type''"

definition ErrUnexpectedEOF :: go_error where
  [go_errs]: "ErrUnexpectedEOF = Sentinel ''protocol.ErrUnexpectedEOF'' ''unexpected end of message''"

record message =
  Type :: MessageType
  Payload :: "byte list"

definition NewMessage :: "MessageType \<Rightarrow> byte list \<Rightarrow> message" where
  "NewMessage msgType payload = \<lparr>Type = msgType, Payload = payload\<rparr>"

definition NewRequestChallenge :: message where
  "NewRequestChallenge = \<lparr>Type = TypeRequestChallenge, Payload = []\<rparr>"

definition NewChallenge :: "byte list \<Rightarrow> message" where
  "NewChallenge challengeBytes = \<lparr>Type = TypeChallenge, Payload = challengeBytes\<rparr>"

definition NewSolution :: "byte list \<Rightarrow> message" where
  "NewSolution solutionBytes = \<lparr>Type = TypeSolution, Payload = solutionBytes\<rparr>"

definition NewQuote :: "string \<Rightarrow> message" where
  "NewQuote quote = \<lparr>Type = TypeQuote, Payload = string_bytes quote\<rparr>"

definition NewError :: "ErrorCode \<Rightarrow> message" where
  "NewError code = \<lparr>Type = TypeError, Payload = [code]\<rparr>"

lemmas msg_constructors = NewMessage_def NewRequestChallenge_def NewChallenge_def NewSolution_def
  NewQuote_def NewError_def

definition Message_Size :: "message \<Rightarrow> nat" where
  "Message_Size m = HeaderSize + length (Payload m)"

definition Message_Validate :: "message \<Rightarrow> go_error option" where
  "Message_Validate m =
    (if \<not> MessageType_IsValid (Type m)
     then Some (Errorf [] ErrInvalidMessageType (concat ['': '', show_nat (unat (Type m))]))
     else if Message_Size m > MaxMessageSize
     then Some (Errorf [] ErrMessageTooLarge
            (concat ['': size '', show_nat (Message_Size m), '' exceeds '', show_nat MaxMessageSize]))
     else None)"

definition Message_Marshal :: "message \<Rightarrow> byte list result" where
  "Message_Marshal m =
    (case Message_Validate m of
       Some e \<Rightarrow> Inl e
     | None \<Rightarrow>
        (let len = word_of_nat (Message_Size m) :: u16;
             buf = make_bytes (unat len);
             buf = go_copy buf 0 (be_PutUint16 len);
             buf = buf[2 := Type m];
             buf = (if 0 < length (Payload m) then go_copy buf 3 (Payload m) else buf)
         in Inr buf))"

subsection \<open>Streams\<close>

record reader =
  rd_data :: "byte list"
  rd_err :: go_error

text \<open>
  \<^verbatim>\<open>io.ReadFull\<close> into a buffer of \<open>n > 0\<close> bytes: an end of file after the first byte is an
  unexpected one; other errors are passed on.
\<close>

definition io_ReadFull :: "nat \<Rightarrow> reader \<Rightarrow> byte list result \<times> reader" where
  "io_ReadFull n r =
    (if n \<le> length (rd_data r) then (Inr (take n (rd_data r)), r\<lparr>rd_data := drop n (rd_data r)\<rparr>)
     else (Inl (if rd_data r \<noteq> [] \<and> rd_err r = io_EOF then io_ErrUnexpectedEOF else rd_err r),
           r\<lparr>rd_data := []\<rparr>))"

definition ReadMessage :: "reader \<Rightarrow> message result \<times> reader" where
  "ReadMessage r =
    (case io_ReadFull LengthSize r of
       (Inl err, r) \<Rightarrow>
         (Inl (if errors_Is err io_EOF then io_EOF
               else if errors_Is err io_ErrUnexpectedEOF then ErrUnexpectedEOF
               else Errorf ''read length: '' err []), r)
     | (Inr lengthBuf, r) \<Rightarrow>
         (let len = unat (be_Uint16 lengthBuf)
          in if len < HeaderSize
             then (Inl (Errorf [] ErrMessageTooShort
                     (concat ['': length '', show_nat len, '' is less than header size '', show_nat HeaderSize])), r)
             else if len > MaxMessageSize
             then (Inl (Errorf [] ErrMessageTooLarge
                     (concat ['': length '', show_nat len, '' exceeds maximum '', show_nat MaxMessageSize])), r)
             else
               let remaining = len - LengthSize
               in case io_ReadFull remaining r of
                    (Inl err, r) \<Rightarrow>
                      (Inl (if errors_Is err io_EOF \<or> errors_Is err io_ErrUnexpectedEOF
                            then ErrUnexpectedEOF else Errorf ''read payload: '' err []), r)
                  | (Inr buf, r) \<Rightarrow>
                      (let msgType = buf ! 0;
                           payload = (if length buf > 1 then drop 1 buf else [])
                       in (Inr \<lparr>Type = msgType, Payload = payload\<rparr>, r))))"

type_synonym write_outcome = "nat \<times> go_error option"

text \<open>The result and the bytes the peer gets.\<close>

definition WriteMessage :: "write_outcome \<Rightarrow> message \<Rightarrow> go_error option \<times> byte list" where
  "WriteMessage out m =
    (case Message_Marshal m of
       Inl e \<Rightarrow> (Some (Errorf ''marshal message: '' e []), [])
     | Inr data \<Rightarrow>
        (case out of
           (n, Some e) \<Rightarrow> (Some (Errorf ''write message: '' e []), take n data)
         | (n, None) \<Rightarrow>
            (if n \<noteq> length data
             then (Some (Err_Text (concat [''short write: wrote '', show_nat n, '' of '',
                           show_nat (length data), '' bytes''])), take n data)
             else (None, data))))"

definition UnmarshalMessage :: "byte list \<Rightarrow> message result" where
  "UnmarshalMessage data =
    (if length data < HeaderSize
     then Inl (Errorf [] ErrMessageTooShort
            (concat ['': got '', show_nat (length data), '' bytes, need at least '', show_nat HeaderSize]))
     else
       let len = unat (be_Uint16 (go_slice data 0 2))
       in if len \<noteq> length data
          then Inl (Err_Text (concat [''length mismatch: header says '', show_nat len, '', got '',
                    show_nat (length data), '' bytes'']))
          else if len > MaxMessageSize
          then Inl (Errorf [] ErrMessageTooLarge
                 (concat ['': length '', show_nat len, '' exceeds maximum '', show_nat MaxMessageSize]))
          else
            let msgType = data ! 2;
                payload = (if length data > HeaderSize then drop HeaderSize data else [])
            in Inr \<lparr>Type = msgType, Payload = payload\<rparr>)"

definition GetErrorCode :: "message \<Rightarrow> ErrorCode" where
  "GetErrorCode m =
    (if Type m \<noteq> TypeError \<or> length (Payload m) < 1 then ErrCodeInvalidMessage else Payload m ! 0)"

text \<open>\<^verbatim>\<open>Message.String\<close>, where \<open>quoted\<close> is the verb \<^verbatim>\<open>%q\<close>, which needs the tables of printable Unicode.\<close>

definition Message_String :: "(string \<Rightarrow> string) \<Rightarrow> message \<Rightarrow> string" where
  "Message_String quoted m =
    (if Type m = TypeError then
       (if length (Payload m) > 0
        then concat [MessageType_String (Type m), '': '', ErrorCode_String (Payload m ! 0)]
        else MessageType_String (Type m))
     else if Type m = TypeQuote then
       concat [MessageType_String (Type m), '': '', quoted (bytes_string (Payload m))]
     else concat [MessageType_String (Type m), '' (payload: '', show_nat (length (Payload m)), '' bytes)''])"

text \<open>\<^verbatim>\<open>ParseErrorMessage\<close> of \<^verbatim>\<open>errors.go\<close>, which needs messages; no error is \<open>None\<close>.\<close>

definition ParseErrorMessage :: "message \<Rightarrow> go_error option" where
  "ParseErrorMessage m =
    (if Type m \<noteq> TypeError then None
     else if length (Payload m) < 1 then Some proto_ErrInvalidMessage
     else (let code = Payload m ! 0 in Some (ErrorFromCode code)))"

subsection \<open>The format\<close>

text \<open>The reference form of a frame, and the size every frame on the wire has.\<close>

definition frame_of :: "message \<Rightarrow> byte list" where
  "frame_of m = be_PutUint16 (word_of_nat (Message_Size m)) @ Type m # Payload m"

definition fits :: "message \<Rightarrow> bool" where
  "fits m \<longleftrightarrow> Message_Size m \<le> MaxMessageSize"

text \<open>\<^verbatim>\<open>ReadMessage\<close> as a function of the bytes alone: what follows them does not matter.\<close>

definition read_frame :: "byte list \<Rightarrow> (message \<times> byte list) option" where
  "read_frame bs =
    (case ReadMessage \<lparr>rd_data = bs, rd_err = io_EOF\<rparr> of
       (Inr m, r) \<Rightarrow> Some (m, rd_data r)
     | (Inl e, r) \<Rightarrow> None)"

section \<open>Lemmas\<close>

lemma length_PutUint16 [simp]: "length (be_PutUint16 v) = 2"
  by (simp add: be_PutUint16_def)

lemma unat_Size [simp]: "fits m \<Longrightarrow> unat (word_of_nat (Message_Size m) :: u16) = Message_Size m"
  by (simp add: fits_def proto_sizes unsigned_of_nat take_bit_nat_eq_self)

lemma length_frame_of [simp]: "length (frame_of m) = Message_Size m"
  by (simp add: frame_of_def Message_Size_def proto_sizes)

lemma Message_Validate_None: "Message_Validate m = None \<longleftrightarrow> MessageType_IsValid (Type m) \<and> fits m"
  by (auto simp: Message_Validate_def fits_def)

lemma Message_Marshal_frame:
  assumes "MessageType_IsValid (Type m)" "fits m"
  shows "Message_Marshal m = Inr (frame_of m)"
proof -
  let ?l = "word_of_nat (Message_Size m) :: u16"
  have "go_copy (make_bytes (Message_Size m)) 0 (be_PutUint16 ?l) =
      be_PutUint16 ?l @ make_bytes (Message_Size m - 2)"
    using go_copy_next [of 0 "[]" "be_PutUint16 ?l" "Message_Size m"]
    by (simp add: Message_Size_def proto_sizes)
  then have "(go_copy (make_bytes (Message_Size m)) 0 (be_PutUint16 ?l))[2 := Type m] =
      be_PutUint16 ?l @ [Type m] @ make_bytes (length (Payload m))"
    using list_update_next [of 2 "be_PutUint16 ?l" "Message_Size m - 2" "Type m"]
    by (simp add: Message_Size_def proto_sizes)
  then have "Message_Marshal m =
      Inr (if 0 < length (Payload m)
           then go_copy ((be_PutUint16 ?l @ [Type m]) @ make_bytes (length (Payload m))) 3 (Payload m)
           else be_PutUint16 ?l @ [Type m] @ make_bytes (length (Payload m)))"
    using assms Message_Validate_None [of m] by (simp add: Message_Marshal_def Let_def)
  also have "\<dots> = Inr (frame_of m)"
    by (subst go_copy_next) (auto simp: frame_of_def)
  finally show ?thesis .
qed

lemma Message_Marshal_Inr_iff:
  "Message_Marshal m = Inr bs \<longleftrightarrow> MessageType_IsValid (Type m) \<and> fits m \<and> bs = frame_of m"
proof (cases "Message_Validate m")
  case None
  then show ?thesis using Message_Marshal_frame by (auto simp: Message_Validate_None)
next
  case (Some e)
  then have "\<not> (MessageType_IsValid (Type m) \<and> fits m)" by (metis Message_Validate_None option.discI)
  then show ?thesis using Some by (auto simp: Message_Marshal_def)
qed

subsection \<open>Reading\<close>

lemma io_ReadFull_ok: "n \<le> length (rd_data r) \<Longrightarrow>
    io_ReadFull n r = (Inr (take n (rd_data r)), r\<lparr>rd_data := drop n (rd_data r)\<rparr>)"
  by (simp add: io_ReadFull_def)

lemma io_ReadFull_Inr:
  "io_ReadFull n r = (Inr bs, r') \<longleftrightarrow>
     length bs = n \<and> rd_data r = bs @ rd_data r' \<and> rd_err r' = rd_err r"
proof
  assume "io_ReadFull n r = (Inr bs, r')"
  then show "length bs = n \<and> rd_data r = bs @ rd_data r' \<and> rd_err r' = rd_err r"
    by (auto simp: io_ReadFull_def split: if_splits)
next
  assume a: "length bs = n \<and> rd_data r = bs @ rd_data r' \<and> rd_err r' = rd_err r"
  then have "r\<lparr>rd_data := drop n (rd_data r)\<rparr> = r'" by (cases r; cases r') simp
  then show "io_ReadFull n r = (Inr bs, r')" using a by (simp add: io_ReadFull_def)
qed

text \<open>A message is read exactly when the stream starts with its frame.\<close>

lemma ReadMessage_Inr_iff:
  "ReadMessage r = (Inr m, r') \<longleftrightarrow>
     fits m \<and> rd_data r = frame_of m @ rd_data r' \<and> rd_err r' = rd_err r"
proof
  assume "ReadMessage r = (Inr m, r')"
  then obtain lb r1 buf where lb: "io_ReadFull 2 r = (Inr lb, r1)"
    and len: "3 \<le> unat (be_Uint16 lb)" "unat (be_Uint16 lb) \<le> 1024"
    and buf: "io_ReadFull (unat (be_Uint16 lb) - 2) r1 = (Inr buf, r')"
    and m: "m = \<lparr>Type = buf ! 0, Payload = if length buf > 1 then drop 1 buf else []\<rparr>"
    by (auto simp: ReadMessage_def Let_def proto_sizes split: prod.splits sum.splits if_splits)
  have l: "length lb = 2" "rd_data r = lb @ buf @ rd_data r'" "rd_err r' = rd_err r"
    "length buf = unat (be_Uint16 lb) - 2"
    using lb buf by (auto simp: io_ReadFull_Inr)
  then obtain t p where b: "buf = t # p" using len(1) by (cases buf) auto
  then have m': "m = \<lparr>Type = t, Payload = p\<rparr>" by (simp add: m)
  have size: "Message_Size m = unat (be_Uint16 lb)"
    using l(4) len(1) by (simp add: Message_Size_def proto_sizes m' b)
  then have "be_PutUint16 (word_of_nat (Message_Size m)) = lb"
    using be_Put_Uint16 [OF l(1)] by simp
  then have "frame_of m = lb @ buf" by (simp add: frame_of_def m' b)
  then show "fits m \<and> rd_data r = frame_of m @ rd_data r' \<and> rd_err r' = rd_err r"
    using l size len(2) by (simp add: fits_def proto_sizes)
next
  assume a: "fits m \<and> rd_data r = frame_of m @ rd_data r' \<and> rd_err r' = rd_err r"
  let ?lb = "be_PutUint16 (word_of_nat (Message_Size m))"
  define r1 where "r1 = r'\<lparr>rd_data := (Type m # Payload m) @ rd_data r'\<rparr>"
  have 1: "io_ReadFull 2 r = (Inr ?lb, r1)"
    using a by (simp add: io_ReadFull_Inr r1_def frame_of_def)
  have 2: "io_ReadFull (Message_Size m - 2) r1 = (Inr (Type m # Payload m), r')"
    by (simp add: io_ReadFull_Inr r1_def Message_Size_def proto_sizes)
  have 3: "unat (be_Uint16 ?lb) = Message_Size m"
    using a be_Uint16_Put [of "word_of_nat (Message_Size m)" "[]"] by simp
  have 4: "3 \<le> Message_Size m" "Message_Size m \<le> 1024"
    using a by (auto simp: fits_def Message_Size_def proto_sizes)
  show "ReadMessage r = (Inr m, r')"
    using 1 2 3 4 by (simp add: ReadMessage_def proto_sizes Let_def)
qed

lemma UnmarshalMessage_Inr_iff: "UnmarshalMessage data = Inr m \<longleftrightarrow> fits m \<and> data = frame_of m"
proof
  assume "UnmarshalMessage data = Inr m"
  then have len: "3 \<le> length data" "unat (be_Uint16 (take 2 data)) = length data" "length data \<le> 1024"
    and m: "m = \<lparr>Type = data ! 2, Payload = if 3 < length data then drop 3 data else []\<rparr>"
    by (auto simp: UnmarshalMessage_def Let_def proto_sizes go_slice_def split: if_splits)
  have p: "Payload m = drop 3 data" by (simp add: m)
  have size: "Message_Size m = length data" using len(1) by (simp add: Message_Size_def p proto_sizes)
  have "be_PutUint16 (word_of_nat (Message_Size m)) = take 2 data"
  proof -
    have "be_PutUint16 (be_Uint16 (take 2 data)) = take 2 data"
      using len(1) by (intro be_Put_Uint16) simp
    then show ?thesis unfolding size len(2) [symmetric] by simp
  qed
  moreover have "Type m # Payload m = drop 2 data"
    using len(1) Cons_nth_drop_Suc [of 2 data] unfolding p by (simp add: m numeral_3_eq_3)
  ultimately have "frame_of m = data" by (simp add: frame_of_def)
  then show "fits m \<and> data = frame_of m" using size len(3) by (simp add: fits_def proto_sizes)
next
  assume a: "fits m \<and> data = frame_of m"
  then have "be_Uint16 (take 2 data) = word_of_nat (Message_Size m)"
    using be_Uint16_Put [of "word_of_nat (Message_Size m)" "Type m # Payload m"]
    by (simp add: frame_of_def be_Uint16_def)
  then have 1: "unat (be_Uint16 (take 2 data)) = Message_Size m" using a by simp
  have 2: "length data = Message_Size m" "Message_Size m \<le> 1024" "3 \<le> Message_Size m"
    "3 < Message_Size m \<longleftrightarrow> Payload m \<noteq> []"
    using a by (auto simp: fits_def Message_Size_def proto_sizes)
  have "data ! 2 = Type m" "drop 3 data = Payload m"
    using a by (simp_all add: frame_of_def nth_append)
  then show "UnmarshalMessage data = Inr m"
    using 1 2 by (simp add: UnmarshalMessage_def Let_def proto_sizes go_slice_def)
qed

subsection \<open>The stream of messages\<close>

interpretation messages: stream_codec frame_of fits read_frame
proof unfold_locales
  fix bs m rest
  have "read_frame bs = Some (m, rest) \<longleftrightarrow>
      (\<exists>r. ReadMessage \<lparr>rd_data = bs, rd_err = io_EOF\<rparr> = (Inr m, r) \<and> rd_data r = rest)"
    by (auto simp: read_frame_def split: prod.splits sum.splits)
  also have "\<dots> \<longleftrightarrow> fits m \<and> bs = frame_of m @ rest"
    by (auto simp: ReadMessage_Inr_iff intro: exI [of _ "\<lparr>rd_data = rest, rd_err = io_EOF\<rparr>"])
  finally show "read_frame bs = Some (m, rest) \<longleftrightarrow> fits m \<and> bs = frame_of m @ rest" .
qed

subsection \<open>Read errors\<close>

text \<open>
  The error of a failed read: a clean end of the stream, a truncated message, a bad length,
  or the wrapped error of the connection.
\<close>

lemma ReadMessage_Inl_wrapped:
  assumes "ReadMessage r = (Inl e, r')"
  shows "\<not> net_Error_Timeout e"
  using assms
  by (auto simp: ReadMessage_def io_ReadFull_def Let_def io_EOF_def ErrUnexpectedEOF_def
      split: prod.splits sum.splits if_splits)

text \<open>Two lists of messages with the same bytes are the same.\<close>

lemma frames_inj:
  assumes "\<forall>m \<in> set ms. fits m" "\<forall>m \<in> set ms'. fits m"
    and "concat (map frame_of ms) = concat (map frame_of ms')"
  shows "ms = ms'"
  using assms
proof (induction ms arbitrary: ms')
  case Nil
  then show ?case by (cases ms') (auto simp: frame_of_def)
next
  case (Cons m ms)
  then obtain m' ns where ms': "ms' = m' # ns" by (cases ms') (auto simp: frame_of_def)
  have "fits m" "fits m'" "frame_of m @ concat (map frame_of ms) = frame_of m' @ concat (map frame_of ns)"
    using Cons.prems by (simp_all add: ms')
  then have "m = m' \<and> concat (map frame_of ms) = concat (map frame_of ns)"
    by (rule messages.frame_prefix_free)
  then show ?case using Cons.IH [of ns] Cons.prems(1,2) by (simp add: ms')
qed

section \<open>Properties\<close>

text \<open>
  C11: A message that \<^verbatim>\<open>WriteMessage\<close> has written without an error is read back by \<^verbatim>\<open>ReadMessage\<close>
  from any stream that starts with these bytes: the same message, and the rest of the stream
  is left for the next call. It took at most 1024 bytes.
\<close>

theorem written_message_read_back:
  assumes "WriteMessage out m = (None, bytes)"
  shows "ReadMessage \<lparr>rd_data = bytes @ rest, rd_err = e\<rparr> = (Inr m, \<lparr>rd_data = rest, rd_err = e\<rparr>) \<and>
    length bytes \<le> MaxMessageSize"
proof -
  have "Message_Marshal m = Inr bytes"
    using assms by (auto simp: WriteMessage_def split: sum.splits prod.splits option.splits if_splits)
  then have "fits m" "bytes = frame_of m" by (auto simp: Message_Marshal_Inr_iff)
  then show ?thesis by (simp add: ReadMessage_Inr_iff fits_def)
qed

theorem written_message_read_back_witness:
  "ReadMessage \<lparr>rd_data = [0, 4, 5, 8] @ [0, 3], rd_err = io_EOF\<rparr> =
     (Inr (NewError ErrCodeServerBusy), \<lparr>rd_data = [0, 3], rd_err = io_EOF\<rparr>)"
proof -
  have "WriteMessage (4, None) (NewError ErrCodeServerBusy) = (None, [0, 4, 5, 8])"
  proof -
    let ?m = "NewError ErrCodeServerBusy"
    have "Message_Size ?m = 4" by (simp add: Message_Size_def NewError_def proto_sizes)
    moreover have "MessageType_IsValid (Type ?m)"
      by (simp add: NewError_def MessageType_IsValid_def msg_types)
    ultimately have "Message_Marshal ?m = Inr (be_bytes 2 4 @ [Type ?m] @ Payload ?m)"
      by (subst Message_Marshal_frame) (simp_all add: fits_def proto_sizes frame_of_def be_PutUint16_def)
    moreover have "be_bytes 2 4 = [0, 4]" unfolding numeral_2_eq_2 by simp
    ultimately have "Message_Marshal ?m = Inr [0, 4, 5, 8]"
      by (simp add: NewError_def msg_types err_codes)
    then show ?thesis unfolding WriteMessage_def by simp
  qed
  then show ?thesis using written_message_read_back by blast
qed

text \<open>
  C12: What \<^verbatim>\<open>ReadMessage\<close> accepts, exactly: a stream that starts with the frame of the message
  (its length in big endian, its type, its payload), of at most 1024 bytes in all. It takes
  that frame off the stream and nothing more; it does not check the type.
\<close>

theorem read_message_exact:
  "ReadMessage r = (Inr m, r') \<longleftrightarrow>
     Message_Size m \<le> 1024 \<and> rd_err r' = rd_err r \<and>
     rd_data r = be_PutUint16 (word_of_nat (Message_Size m)) @ [Type m] @ Payload m @ rd_data r'"
  by (auto simp: ReadMessage_Inr_iff fits_def MaxMessageSize_def frame_of_def)

text \<open>
  The parser of a complete buffer, \<^verbatim>\<open>UnmarshalMessage\<close>, accepts exactly the buffers that
  \<^verbatim>\<open>ReadMessage\<close> reads to their end, with the same message.
\<close>

lemma unmarshal_equiv_read:
  "UnmarshalMessage data = Inr m \<longleftrightarrow>
     ReadMessage \<lparr>rd_data = data, rd_err = e\<rparr> = (Inr m, \<lparr>rd_data = [], rd_err = e\<rparr>)"
  by (auto simp: UnmarshalMessage_Inr_iff ReadMessage_Inr_iff)

text \<open>
  C35: Every error code the protocol defines is either one after which the client retries or
  one after which it reconnects, and never both; an unknown code is neither. Wrapping the
  error does not change this.
\<close>

theorem error_codes_partitioned:
  "(ErrorCode_IsValid code \<longleftrightarrow>
      IsRetryableError (ErrorFromCode code) \<or> ShouldReconnect (ErrorFromCode code)) \<and>
   \<not> (IsRetryableError (ErrorFromCode code) \<and> ShouldReconnect (ErrorFromCode code)) \<and>
   ParseErrorMessage (NewError code) = Some (ErrorFromCode code) \<and>
   IsRetryableError (Errorf pre (ErrorFromCode code) post) = ErrorCode_IsRetryable code"
  using classify_code [of code]
  by (simp add: ParseErrorMessage_def NewError_def) (simp add: IsRetryableError_def)

text \<open>
  A read that fails because of a deadline is reported by \<^verbatim>\<open>ReadMessage\<close> as a wrapped error,
  which the type assertion \<^verbatim>\<open>err.(net.Error)\<close> of the connection handler does not recognise.
\<close>

lemma read_timeout_hidden:
  assumes "ReadMessage r = (Inl err, r')" "rd_err r = Net_Error True text"
  shows "\<not> net_Error_Timeout err"
  using ReadMessage_Inl_wrapped [OF assms(1)] .

lemma read_timeout_hidden_instance:
  "\<exists>err r'. ReadMessage \<lparr>rd_data = [0], rd_err = Net_Error True ''i/o timeout''\<rparr> = (Inl err, r') \<and>
     err = Errorf ''read length: '' (Net_Error True ''i/o timeout'') [] \<and> \<not> net_Error_Timeout err"
proof -
  let ?r = "\<lparr>rd_data = [0], rd_err = Net_Error True ''i/o timeout''\<rparr>"
  have "ReadMessage ?r = (Inl (Errorf ''read length: '' (Net_Error True ''i/o timeout'') []), ?r\<lparr>rd_data := []\<rparr>)"
    by (simp add: ReadMessage_def io_ReadFull_def proto_sizes io_EOF_def io_ErrUnexpectedEOF_def)
  then show ?thesis using read_timeout_hidden [of ?r] by auto
qed

end
