(* ===== verification/Rate_Limiter.thy ===== *)
theory Rate_Limiter
  imports Go_Float "HOL-Library.AList" "HOL-Library.Multiset"
begin

text \<open>
  \<^verbatim>\<open>internal/ratelimit/limiter.go\<close>: token buckets per IP address, spread over shards by an
  FNV-1a hash, with eviction, periodic clean-up and float64 token counts.

  A shard's map is an association list with distinct keys. Go iterates over a map in any
  order: the order of the one loop whose result depends on it (\<^verbatim>\<open>evictOldestFromShard\<close>) is
  the argument \<open>order\<close>, a permutation of the keys. \<^verbatim>\<open>nowFunc\<close> is the argument \<open>now\<close>.
  \<^verbatim>\<open>Allow\<close> and \<^verbatim>\<open>cleanup\<close> are given first as they run alone. In the concurrent executions a
  goroutine holds the lock of one shard at a time, and other goroutines run between its
  accesses to the shared counter.
\<close>

unbundle bit_operations_syntax

section \<open>Definitions\<close>

subsection \<open>Data\<close>

record limiter_Config =
  rl_Rate :: f64
  rl_Burst :: int
  rl_CleanupInterval :: duration
  rl_CleanupAge :: duration
  rl_MaxBuckets :: int
  rl_ShardCount :: int

definition ratelimit_DefaultConfig :: limiter_Config where
  "ratelimit_DefaultConfig =
    \<lparr>rl_Rate = Fin 10, rl_Burst = 20, rl_CleanupInterval = 1 * time_Minute,
     rl_CleanupAge = 5 * time_Minute, rl_MaxBuckets = 100000, rl_ShardCount = 16\<rparr>"

record bucket =
  tokens :: f64
  lastSeen :: instant

type_synonym shard = "(string \<times> bucket) list"

record limiter =
  shards :: "shard list"
  shardCount :: int
  rate :: f64
  burst :: int
  maxBuckets :: int
  bucketCount :: int
  rl_stopChan_closed :: bool
  stopOnce_done :: bool
  cleanupInterval :: duration
  cleanupAge :: duration

definition ratelimit_New :: "limiter_Config \<Rightarrow> limiter" where
  "ratelimit_New cfg =
    (let count = rl_ShardCount cfg;
         count = (if count \<le> 0 then 16 else count)
     in \<lparr>shards = replicate (nat count) [], shardCount = count, rate = rl_Rate cfg,
         burst = rl_Burst cfg, maxBuckets = rl_MaxBuckets cfg, bucketCount = 0,
         rl_stopChan_closed = False, stopOnce_done = False,
         cleanupInterval = rl_CleanupInterval cfg, cleanupAge = rl_CleanupAge cfg\<rparr>)"

definition ratelimit_NewWithDefaults :: limiter where
  "ratelimit_NewWithDefaults = ratelimit_New ratelimit_DefaultConfig"

subsection \<open>Operations\<close>

fun fnv1a_loop :: "u32 \<Rightarrow> byte list \<Rightarrow> u32" where
  "fnv1a_loop hash [] = hash"
| "fnv1a_loop hash (b # bs) = fnv1a_loop ((hash XOR ucast b) * 16777619) bs"

text \<open>The index of the shard; a division by zero panics (\<open>None\<close>).\<close>

definition getShard :: "limiter \<Rightarrow> string \<Rightarrow> nat option" where
  "getShard l ip =
    (let hash = fnv1a_loop 2166136261 (string_bytes ip);
         n = word_of_int (shardCount l) :: u32
     in if n = 0 then None else Some (unat (hash mod n)))"

definition totalBuckets :: "limiter \<Rightarrow> int" where
  "totalBuckets l = bucketCount l"

fun evict_scan :: "shard \<Rightarrow> string list \<Rightarrow> string \<Rightarrow> instant \<Rightarrow> string" where
  "evict_scan s [] oldestIP oldestTime = oldestIP"
| "evict_scan s (ip # order) oldestIP oldestTime =
    (case map_of s ip of
       None \<Rightarrow> evict_scan s order oldestIP oldestTime
     | Some b \<Rightarrow>
        (if oldestIP = [] \<or> lastSeen b < oldestTime
         then evict_scan s order ip (lastSeen b)
         else evict_scan s order oldestIP oldestTime))"

definition evictOldestFromShard :: "string list \<Rightarrow> nat \<Rightarrow> limiter \<Rightarrow> limiter" where
  "evictOldestFromShard order i l =
    (let s = shards l ! i;
         oldestIP = evict_scan s order [] 0
     in if oldestIP \<noteq> []
        then l\<lparr>shards := (shards l)[i := AList.delete oldestIP s], bucketCount := bucketCount l - 1\<rparr>
        else l)"

text \<open>The part of \<^verbatim>\<open>Allow\<close> after the bucket is found: refill, cap, take a token.\<close>

definition bucket_take :: "limiter \<Rightarrow> instant \<Rightarrow> bucket \<Rightarrow> bool \<times> bucket" where
  "bucket_take l now b =
    (let elapsed = Duration_Seconds (time_Sub now (lastSeen b));
         b = b\<lparr>tokens := f64_add (tokens b) (f64_mul elapsed (rate l))\<rparr>;
         b = (if f64_less (f64_of_int (burst l)) (tokens b)
              then b\<lparr>tokens := f64_of_int (burst l)\<rparr> else b);
         b = b\<lparr>lastSeen := now\<rparr>
     in if f64_le (Fin 1) (tokens b)
        then (True, b\<lparr>tokens := f64_sub (tokens b) (Fin 1)\<rparr>)
        else (False, b))"

definition new_bucket :: "limiter \<Rightarrow> instant \<Rightarrow> bucket" where
  "new_bucket l now = \<lparr>tokens = f64_of_int (burst l), lastSeen = now\<rparr>"

text \<open>
  The steps of \<^verbatim>\<open>Allow\<close> under the lock of shard \<open>i\<close>: the check of the limit, taking a token from a
  bucket that is there, and creating a bucket first.
\<close>

definition at_limit :: "limiter \<Rightarrow> bool" where
  "at_limit l \<longleftrightarrow> maxBuckets l > 0 \<and> totalBuckets l \<ge> maxBuckets l"

definition allow_take :: "nat \<Rightarrow> instant \<Rightarrow> string \<Rightarrow> bucket \<Rightarrow> limiter \<Rightarrow> bool \<times> limiter" where
  "allow_take i now ip b l =
    (let (ok, b) = bucket_take l now b
     in (ok, l\<lparr>shards := (shards l)[i := AList.update ip b (shards l ! i)]\<rparr>))"

definition allow_create :: "nat \<Rightarrow> instant \<Rightarrow> string \<Rightarrow> limiter \<Rightarrow> bool \<times> limiter" where
  "allow_create i now ip l =
    (let b = new_bucket l now;
         l = l\<lparr>shards := (shards l)[i := AList.update ip b (shards l ! i)]\<rparr>;
         l = l\<lparr>bucketCount := bucketCount l + 1\<rparr>
     in allow_take i now ip b l)"

text \<open>\<^verbatim>\<open>Allow\<close> with nothing else running.\<close>

definition Allow :: "string list \<Rightarrow> instant \<Rightarrow> string \<Rightarrow> limiter \<Rightarrow> (bool \<times> limiter) option" where
  "Allow order now ip l =
    (case getShard l ip of
       None \<Rightarrow> None
     | Some i \<Rightarrow>
        Some (case map_of (shards l ! i) ip of
                Some b \<Rightarrow> allow_take i now ip b l
              | None \<Rightarrow>
                 allow_create i now ip (if at_limit l then evictOldestFromShard order i l else l)))"

text \<open>\<^verbatim>\<open>stopOnce.Do\<close>; closing a closed channel would panic (\<open>None\<close>).\<close>

definition ratelimit_Close :: "limiter \<Rightarrow> limiter option" where
  "ratelimit_Close l =
    (if stopOnce_done l then Some l
     else if rl_stopChan_closed l then None
     else Some (l\<lparr>stopOnce_done := True, rl_stopChan_closed := True\<rparr>))"

definition stale :: "limiter \<Rightarrow> instant \<Rightarrow> bucket \<Rightarrow> bool" where
  "stale l now b \<longleftrightarrow> time_Sub now (lastSeen b) > cleanupAge l"

text \<open>One iteration of the inner loop that finds a stale bucket, and the two loops.\<close>

definition delete_bucket :: "nat \<Rightarrow> string \<Rightarrow> limiter \<Rightarrow> limiter" where
  "delete_bucket i ip l =
    l\<lparr>shards := (shards l)[i := AList.delete ip (shards l ! i)], bucketCount := bucketCount l - 1\<rparr>"

definition cleanup_shard :: "instant \<Rightarrow> nat \<Rightarrow> limiter \<Rightarrow> limiter" where
  "cleanup_shard now i l =
    (let s = shards l ! i;
         kept = filter (\<lambda>(ip, b). \<not> stale l now b) s
     in l\<lparr>shards := (shards l)[i := kept],
          bucketCount := bucketCount l - int (length s - length kept)\<rparr>)"

definition cleanup :: "instant \<Rightarrow> limiter \<Rightarrow> limiter" where
  "cleanup now l = fold (cleanup_shard now) [0..<length (shards l)] l"

record limiter_Stats =
  ActiveBuckets :: int

definition ratelimit_Stats :: "limiter \<Rightarrow> limiter_Stats" where
  "ratelimit_Stats l = \<lparr>ActiveBuckets = totalBuckets l\<rparr>"

text \<open>The wrapper with a context: \<open>done\<close> says whether the context is done at the call.\<close>

definition AllowWithContext ::
  "bool \<Rightarrow> string list \<Rightarrow> instant \<Rightarrow> string \<Rightarrow> limiter \<Rightarrow> (bool \<times> limiter) option" where
  "AllowWithContext done order now ip l = (if done then Some (False, l) else Allow order now ip l)"

subsection \<open>Executions\<close>

text \<open>
  Goroutines share a limiter. Each shard has a lock of its own, and \<^verbatim>\<open>bucketCount\<close> is an atomic
  counter that is read and written without a common lock, so a step of the system is what a
  goroutine does between two accesses to the counter. Who holds the lock of a shard, and how
  far it has got: a request for an address without a bucket, made at an instant, that is
  about to load the counter, to evict, or to create the bucket; or the clean-up.
\<close>

datatype holder = Hold_New string instant | Hold_Evict string instant | Hold_Create string instant | Hold_Cleanup

fun holder_request :: "holder \<Rightarrow> (string \<times> instant) option" where
  "holder_request (Hold_New ip now) = Some (ip, now)"
| "holder_request (Hold_Evict ip now) = Some (ip, now)"
| "holder_request (Hold_Create ip now) = Some (ip, now)"
| "holder_request Hold_Cleanup = None"

text \<open>
  The system: the limiter, the clock, the state of the clean-up loop, the locks of the shards,
  and the \<^verbatim>\<open>cleanup\<close> in progress, if any: the instant it read at its start and its shard.
\<close>

record limiter_system =
  ls_limiter :: limiter
  ls_clock :: instant
  ls_loop :: loop_status
  ls_locks :: "nat \<rightharpoonup> holder"
  ls_cleanup :: "(instant \<times> nat) option"

definition limiter_start :: "limiter_Config \<Rightarrow> instant \<Rightarrow> limiter_system" where
  "limiter_start cfg now =
    \<lparr>ls_limiter = ratelimit_New cfg, ls_clock = now, ls_loop = ticker_loop (rl_CleanupInterval cfg),
     ls_locks = Map.empty, ls_cleanup = None\<rparr>"

datatype limiter_event =
    Lim_Found string instant bool
  | Lim_Lock string instant | Lim_Check string | Lim_Evict string string | Lim_Create string bool
  | Lim_Cleanup instant | Lim_CleanupLock | Lim_Delete string | Lim_CleanupUnlock | Lim_CleanupEnd
  | Lim_Return | Lim_Close | Lim_Time instant

text \<open>
  \<^verbatim>\<open>Found\<close> is the whole of \<^verbatim>\<open>Allow\<close> for an address that has a bucket: it touches nothing but its
  shard, whose lock it holds. The other requests take the lock and read the clock, load the
  counter, evict if it is at the limit, and create the bucket, with steps of other goroutines
  in between. The clean-up reads the clock once and then goes through the shards. The
  monotonic clock does not go back; it may also advance with nothing happening.
\<close>

inductive limiter_step :: "limiter_system \<Rightarrow> limiter_event \<Rightarrow> limiter_system \<Rightarrow> bool" where
  Found: "getShard (ls_limiter s) ip = Some i \<Longrightarrow> ls_locks s i = None \<Longrightarrow> ls_clock s \<le> now \<Longrightarrow>
     map_of (shards (ls_limiter s) ! i) ip = Some b \<Longrightarrow> allow_take i now ip b (ls_limiter s) = (ok, l) \<Longrightarrow>
     limiter_step s (Lim_Found ip now ok) (s\<lparr>ls_limiter := l, ls_clock := now\<rparr>)"
| Lock: "getShard (ls_limiter s) ip = Some i \<Longrightarrow> ls_locks s i = None \<Longrightarrow> ls_clock s \<le> now \<Longrightarrow>
     map_of (shards (ls_limiter s) ! i) ip = None \<Longrightarrow>
     limiter_step s (Lim_Lock ip now) (s\<lparr>ls_locks := (ls_locks s)(i \<mapsto> Hold_New ip now), ls_clock := now\<rparr>)"
| Check: "ls_locks s i = Some (Hold_New ip now) \<Longrightarrow>
     limiter_step s (Lim_Check ip)
       (s\<lparr>ls_locks := (ls_locks s)(i \<mapsto> if at_limit (ls_limiter s) then Hold_Evict ip now else Hold_Create ip now)\<rparr>)"
| Evict: "ls_locks s i = Some (Hold_Evict ip now) \<Longrightarrow> mset order = mset (map fst (shards (ls_limiter s) ! i)) \<Longrightarrow>
     limiter_step s (Lim_Evict ip (evict_scan (shards (ls_limiter s) ! i) order [] 0))
       (s\<lparr>ls_limiter := evictOldestFromShard order i (ls_limiter s),
          ls_locks := (ls_locks s)(i \<mapsto> Hold_Create ip now)\<rparr>)"
| Create: "ls_locks s i = Some (Hold_Create ip now) \<Longrightarrow> allow_create i now ip (ls_limiter s) = (ok, l) \<Longrightarrow>
     limiter_step s (Lim_Create ip ok) (s\<lparr>ls_limiter := l, ls_locks := (ls_locks s)(i := None)\<rparr>)"
| Cleanup: "ls_loop s = Loop_Running \<Longrightarrow> ls_cleanup s = None \<Longrightarrow> ls_clock s \<le> now \<Longrightarrow>
     limiter_step s (Lim_Cleanup now) (s\<lparr>ls_clock := now, ls_cleanup := Some (now, 0)\<rparr>)"
| CleanupLock: "ls_cleanup s = Some (now, i) \<Longrightarrow> i < length (shards (ls_limiter s)) \<Longrightarrow> ls_locks s i = None \<Longrightarrow>
     limiter_step s Lim_CleanupLock (s\<lparr>ls_locks := (ls_locks s)(i \<mapsto> Hold_Cleanup)\<rparr>)"
| Delete: "ls_cleanup s = Some (now, i) \<Longrightarrow> ls_locks s i = Some Hold_Cleanup \<Longrightarrow>
     map_of (shards (ls_limiter s) ! i) ip = Some b \<Longrightarrow> stale (ls_limiter s) now b \<Longrightarrow>
     limiter_step s (Lim_Delete ip) (s\<lparr>ls_limiter := delete_bucket i ip (ls_limiter s)\<rparr>)"
| CleanupUnlock: "ls_cleanup s = Some (now, i) \<Longrightarrow> ls_locks s i = Some Hold_Cleanup \<Longrightarrow>
     list_all (\<lambda>(ip, b). \<not> stale (ls_limiter s) now b) (shards (ls_limiter s) ! i) \<Longrightarrow>
     limiter_step s Lim_CleanupUnlock
       (s\<lparr>ls_locks := (ls_locks s)(i := None), ls_cleanup := Some (now, i + 1)\<rparr>)"
| CleanupEnd: "ls_cleanup s = Some (now, i) \<Longrightarrow> length (shards (ls_limiter s)) \<le> i \<Longrightarrow>
     limiter_step s Lim_CleanupEnd (s\<lparr>ls_cleanup := None\<rparr>)"
| Return: "ls_loop s = Loop_Running \<Longrightarrow> ls_cleanup s = None \<Longrightarrow> rl_stopChan_closed (ls_limiter s) \<Longrightarrow>
     limiter_step s Lim_Return (s\<lparr>ls_loop := Loop_Returned\<rparr>)"
| Close: "ratelimit_Close (ls_limiter s) = Some l \<Longrightarrow>
     limiter_step s Lim_Close (s\<lparr>ls_limiter := l\<rparr>)"
| Time: "ls_clock s \<le> now \<Longrightarrow> limiter_step s (Lim_Time now) (s\<lparr>ls_clock := now\<rparr>)"

subsection \<open>Invariants\<close>

text \<open>The bookkeeping: keys are distinct and in their shard, the counter counts the buckets.\<close>

definition limiter_inv :: "limiter \<Rightarrow> bool" where
  "limiter_inv l \<longleftrightarrow>
     0 < shardCount l \<and> shardCount l < 2 ^ 32 \<and> int (length (shards l)) = shardCount l \<and>
     bucketCount l = int (sum_list (map length (shards l))) \<and>
     (\<forall>i < length (shards l). distinct (map fst (shards l ! i)) \<and>
        (\<forall>ip \<in> set (map fst (shards l ! i)). getShard l ip = Some i)) \<and>
     rl_stopChan_closed l = stopOnce_done l"

text \<open>A bucket's tokens are a number between zero and the burst.\<close>

definition bucket_ok :: "limiter \<Rightarrow> instant \<Rightarrow> bucket \<Rightarrow> bool" where
  "bucket_ok l now b \<longleftrightarrow>
     (\<exists>q. tokens b = Fin q \<and> 0 \<le> q \<and> q \<le> of_int (burst l)) \<and> lastSeen b \<le> now"

definition params_ok :: "limiter \<Rightarrow> bool" where
  "params_ok l \<longleftrightarrow>
     1 \<le> burst l \<and> burst l < 2 ^ 53 \<and> (\<exists>r. rate l = Fin r \<and> 0 \<le> r \<and> r \<le> 2 ^ 64)"

definition tokens_inv :: "limiter \<Rightarrow> instant \<Rightarrow> bool" where
  "tokens_inv l now \<longleftrightarrow> params_ok l \<and> (\<forall>s \<in> set (shards l). \<forall>(ip, b) \<in> set s. bucket_ok l now b)"

text \<open>Replacing one shard, with the counter adjusted: what every operation comes down to.\<close>

definition set_shard :: "nat \<Rightarrow> shard \<Rightarrow> limiter \<Rightarrow> limiter" where
  "set_shard i s l =
    l\<lparr>shards := (shards l)[i := s],
      bucketCount := bucketCount l + int (length s) - int (length (shards l ! i))\<rparr>"

definition evicted :: "string list \<Rightarrow> shard \<Rightarrow> shard" where
  "evicted order s =
    (let oldestIP = evict_scan s order [] 0 in if oldestIP \<noteq> [] then AList.delete oldestIP s else s)"

text \<open>The shard and the answer \<^verbatim>\<open>Allow\<close> leaves behind.\<close>

definition allow_bucket :: "limiter \<Rightarrow> instant \<Rightarrow> string \<Rightarrow> shard \<Rightarrow> bucket" where
  "allow_bucket l now ip s = (case map_of s ip of Some b \<Rightarrow> b | None \<Rightarrow> new_bucket l now)"

definition evicts :: "limiter \<Rightarrow> string \<Rightarrow> shard \<Rightarrow> bool" where
  "evicts l ip s \<longleftrightarrow> map_of s ip = None \<and> maxBuckets l > 0 \<and> bucketCount l \<ge> maxBuckets l"

definition allow_shard :: "string list \<Rightarrow> limiter \<Rightarrow> instant \<Rightarrow> string \<Rightarrow> shard \<Rightarrow> shard" where
  "allow_shard order l now ip s =
     AList.update ip (snd (bucket_take l now (allow_bucket l now ip s)))
       (if evicts l ip s then evicted order s else s)"

text \<open>The bucket of an address, if there is one.\<close>

definition bucket_of :: "limiter \<Rightarrow> string \<Rightarrow> bucket option" where
  "bucket_of l ip = (case getShard l ip of None \<Rightarrow> None | Some i \<Rightarrow> map_of (shards l ! i) ip)"

text \<open>What a request can add to a bucket besides what time gives: the rounding errors.\<close>

definition bucket_gain :: "limiter \<Rightarrow> bucket \<Rightarrow> instant \<Rightarrow> rat" where
  "bucket_gain l b now =
    of_int (now - lastSeen b) / of_int time_Second * (case rate l of Fin r \<Rightarrow> r | _ \<Rightarrow> 0) * (1 + 1 / 2 ^ 50)
    + of_int (burst l) / 2 ^ 51"

definition bucket_credit :: "bucket \<Rightarrow> rat" where
  "bucket_credit b = (case tokens b of Fin q \<Rightarrow> q | _ \<Rightarrow> 0)"

section \<open>Lemmas\<close>

subsection \<open>Shards\<close>

lemma getShard_less:
  assumes "limiter_inv l" shows "\<exists>i. getShard l ip = Some i \<and> i < length (shards l)"
proof -
  let ?n = "word_of_int (shardCount l) :: u32"
  have "uint ?n = shardCount l"
    using assms by (simp add: limiter_inv_def unsigned_of_int take_bit_int_eq_self)
  moreover have "uint ?n = int (unat ?n)" "int (length (shards l)) = shardCount l" "0 < shardCount l"
    using assms by (simp_all add: limiter_inv_def)
  ultimately have n: "unat ?n = length (shards l)" "0 < length (shards l)" by linarith+
  then have nz: "?n \<noteq> 0" by (metis less_irrefl unsigned_0)
  have "unat (h mod ?n) < length (shards l)" for h
    using n unat_mod [of h ?n] by simp
  then show ?thesis using nz by (simp add: getShard_def Let_def)
qed

lemma getShard_cong: "shardCount l' = shardCount l \<Longrightarrow> getShard l' ip = getShard l ip"
  by (simp add: getShard_def)

lemma AList_update_twice: "AList.update k v' (AList.update k v al) = AList.update k v' al"
  by (induction al) auto

lemma length_AList_update:
  "length (AList.update k v al) = (if k \<in> set (map fst al) then length al else Suc (length al))"
  by (induction al) auto

lemma AList_delete_idem: "k \<notin> set (map fst al) \<Longrightarrow> AList.delete k al = al"
  by (induction al) auto

lemma length_AList_delete:
  "distinct (map fst al) \<Longrightarrow> k \<in> set (map fst al) \<Longrightarrow> Suc (length (AList.delete k al)) = length al"
proof (induction al)
  case (Cons a al)
  then show ?case using AList_delete_idem [of k al] by (cases a) auto
qed simp

text \<open>The scan for the oldest bucket returns one of the keys, or nothing.\<close>

lemma evict_scan_mem: "evict_scan s order old t \<in> insert old (set (map fst s))"
proof (induction order arbitrary: old t)
  case (Cons ip order)
  show ?case
  proof (cases "map_of s ip")
    case (Some b)
    then have "ip \<in> set (map fst s)" by (force dest: map_of_SomeD)
    then show ?thesis using Some Cons [of ip "lastSeen b"] Cons [of old t] by auto
  qed (use Cons in simp)
qed simp

lemma length_evicted:
  assumes "distinct (map fst s)"
  shows "length (evicted order s) =
    (if evict_scan s order [] 0 = [] then length s else length s - 1)"
  using evict_scan_mem [of s order "[]" 0] length_AList_delete [OF assms]
  by (force simp: evicted_def Let_def)

lemma evicted_keys: "set (map fst (evicted order s)) \<subseteq> set (map fst s)"
  by (auto simp: evicted_def Let_def AList.delete_eq)

lemma distinct_evicted: "distinct (map fst s) \<Longrightarrow> distinct (map fst (evicted order s))"
  by (simp add: evicted_def Let_def distinct_delete)

text \<open>With no empty key the scan finds a bucket that nobody has used longer.\<close>

lemma evict_scan_oldest:
  assumes "[] \<notin> set order" "\<forall>ip \<in> set order. map_of s ip \<noteq> None"
    and "old \<noteq> [] \<Longrightarrow> \<exists>b. map_of s old = Some b \<and> lastSeen b = t" "old \<noteq> [] \<or> order \<noteq> []"
  shows "\<exists>b. map_of s (evict_scan s order old t) = Some b \<and> evict_scan s order old t \<noteq> [] \<and>
    (old \<noteq> [] \<longrightarrow> lastSeen b \<le> t) \<and>
    (\<forall>ip \<in> set order. \<forall>b'. map_of s ip = Some b' \<longrightarrow> lastSeen b \<le> lastSeen b')"
  using assms
proof (induction order arbitrary: old t)
  case (Cons ip order)
  then obtain b where b: "map_of s ip = Some b" by auto
  let ?take = "old = [] \<or> lastSeen b < t"
  let ?old = "if ?take then ip else old" and ?t = "if ?take then lastSeen b else t"
  have step: "evict_scan s (ip # order) old t = evict_scan s order ?old ?t" by (simp add: b)
  have "?old \<noteq> []" "\<exists>b'. map_of s ?old = Some b' \<and> lastSeen b' = ?t"
    using Cons.prems(1,3) b by auto
  then obtain b0 where b0: "map_of s (evict_scan s order ?old ?t) = Some b0"
    "evict_scan s order ?old ?t \<noteq> []" "lastSeen b0 \<le> ?t"
    "\<forall>ip \<in> set order. \<forall>b'. map_of s ip = Some b' \<longrightarrow> lastSeen b0 \<le> lastSeen b'"
    using Cons.IH [of ?old ?t] Cons.prems(1,2) by (auto simp only: list.set insert_iff)
  then have "lastSeen b0 \<le> lastSeen b" "old \<noteq> [] \<longrightarrow> lastSeen b0 \<le> t" by (auto split: if_splits)
  then show ?case unfolding step using b0 b by auto
qed auto

subsection \<open>Every operation replaces a shard\<close>

lemma bucket_take_cong:
  assumes "rate l' = rate l" "burst l' = burst l"
  shows "bucket_take l' now b = bucket_take l now b"
  unfolding bucket_take_def assms ..

lemma set_shard_simps [simp]:
  "shards (set_shard i s l) = (shards l)[i := s]"
  "shardCount (set_shard i s l) = shardCount l" "rate (set_shard i s l) = rate l"
  "burst (set_shard i s l) = burst l" "maxBuckets (set_shard i s l) = maxBuckets l"
  "cleanupAge (set_shard i s l) = cleanupAge l"
  "rl_stopChan_closed (set_shard i s l) = rl_stopChan_closed l"
  "stopOnce_done (set_shard i s l) = stopOnce_done l"
  "bucketCount (set_shard i s l) = bucketCount l + int (length s) - int (length (shards l ! i))"
  by (simp_all add: set_shard_def)

lemma evict_set_shard:
  assumes "distinct (map fst (shards l ! i))"
  shows "evictOldestFromShard order i l = set_shard i (evicted order (shards l ! i)) l"
proof (cases "evict_scan (shards l ! i) order [] 0 = []")
  case True
  then show ?thesis by (simp add: evictOldestFromShard_def set_shard_def evicted_def)
next
  case False
  then have "evict_scan (shards l ! i) order [] 0 \<in> set (map fst (shards l ! i))"
    using evict_scan_mem [of "shards l ! i" order "[]" 0] by auto
  then have "Suc (length (AList.delete (evict_scan (shards l ! i) order [] 0) (shards l ! i))) =
      length (shards l ! i)"
    by (rule length_AList_delete [OF assms])
  then show ?thesis using False
    by (simp add: evictOldestFromShard_def set_shard_def evicted_def Let_def)
qed

lemma allow_take_set_shard:
  assumes "map_of (shards l ! i) ip = Some b"
  shows "allow_take i now ip b l =
    (fst (bucket_take l now b), set_shard i (AList.update ip (snd (bucket_take l now b)) (shards l ! i)) l)"
proof -
  have "ip \<in> fst ` set (shards l ! i)" using assms by (force dest: map_of_SomeD)
  then show ?thesis by (simp add: allow_take_def set_shard_def length_AList_update split: prod.splits)
qed

lemma allow_create_set_shard:
  assumes "map_of (shards l ! i) ip = None" "i < length (shards l)"
  shows "allow_create i now ip l =
    (fst (bucket_take l now (new_bucket l now)),
     set_shard i (AList.update ip (snd (bucket_take l now (new_bucket l now))) (shards l ! i)) l)"
proof -
  let ?l = "l\<lparr>shards := (shards l)[i := AList.update ip (new_bucket l now) (shards l ! i)],
    bucketCount := bucketCount l + 1\<rparr>"
  have "ip \<notin> fst ` set (shards l ! i)" using assms(1) by (simp add: map_of_eq_None_iff)
  moreover have "bucket_take ?l now b = bucket_take l now b" for b by (rule bucket_take_cong) simp_all
  ultimately show ?thesis using assms(2)
    by (simp add: allow_create_def allow_take_def set_shard_def length_AList_update AList_update_twice Let_def
        split: prod.splits)
qed

lemma delete_set_shard:
  assumes "distinct (map fst (shards l ! i))" "map_of (shards l ! i) ip = Some b"
  shows "delete_bucket i ip l = set_shard i (AList.delete ip (shards l ! i)) l"
proof -
  have "ip \<in> set (map fst (shards l ! i))" using assms(2) by (force dest: map_of_SomeD)
  from length_AList_delete [OF assms(1) this] show ?thesis by (simp add: delete_bucket_def set_shard_def)
qed

lemma Allow_set_shard:
  assumes "limiter_inv l"
  obtains i where "getShard l ip = Some i" "i < length (shards l)"
    "Allow order now ip l =
      Some (fst (bucket_take l now (allow_bucket l now ip (shards l ! i))),
            set_shard i (allow_shard order l now ip (shards l ! i)) l)"
proof -
  obtain i where i: "getShard l ip = Some i" "i < length (shards l)"
    using getShard_less [OF assms] by blast
  let ?s = "shards l ! i"
  have dist: "distinct (map fst ?s)" using assms i by (simp add: limiter_inv_def)
  have "Allow order now ip l =
      Some (fst (bucket_take l now (allow_bucket l now ip ?s)), set_shard i (allow_shard order l now ip ?s) l)"
  proof (cases "map_of ?s ip")
    case (Some b)
    then show ?thesis
      using i by (simp add: Allow_def allow_take_set_shard allow_shard_def allow_bucket_def evicts_def)
  next
    case None
    define s1 where "s1 = (if evicts l ip ?s then evicted order ?s else ?s)"
    define l1 where "l1 = (if at_limit l then evictOldestFromShard order i l else l)"
    have ev: "at_limit l \<longleftrightarrow> evicts l ip ?s"
      using None by (simp add: evicts_def at_limit_def totalBuckets_def)
    have l1: "l1 = set_shard i s1 l"
      by (simp add: l1_def s1_def ev evict_set_shard [OF dist] set_shard_def)
    have "ip \<notin> set (map fst ?s)" using None by (simp add: map_of_eq_None_iff)
    then have "map_of s1 ip = None" using evicted_keys [of order ?s] by (auto simp: s1_def map_of_eq_None_iff)
    then have "map_of (shards l1 ! i) ip = None" "i < length (shards l1)" using i(2) by (simp_all add: l1)
    note create = allow_create_set_shard [OF this, of now]
    have nb: "new_bucket l1 now = new_bucket l now" by (simp add: new_bucket_def l1)
    have "bucket_take l1 now b = bucket_take l now b" for b by (rule bucket_take_cong) (simp_all add: l1)
    moreover have "set_shard i x l1 = set_shard i x l" for x using i(2) by (simp add: l1 set_shard_def)
    ultimately show ?thesis
      using create i None
      by (simp add: Allow_def l1_def [symmetric] nb allow_shard_def allow_bucket_def s1_def [symmetric])
        (simp add: l1)
  qed
  then show thesis using i that by blast
qed

subsection \<open>The bookkeeping invariant\<close>

lemma ratelimit_New_inv: "rl_ShardCount cfg < 2 ^ 32 \<Longrightarrow> limiter_inv (ratelimit_New cfg)"
  by (simp add: limiter_inv_def ratelimit_New_def Let_def)

lemma limiter_inv_set_shard:
  assumes inv: "limiter_inv l" and i: "i < length (shards l)"
    and s: "distinct (map fst s)" "\<forall>ip \<in> set (map fst s). getShard l ip = Some i"
  shows "limiter_inv (set_shard i s l)"
proof -
  have "length (shards l ! i) \<le> sum_list (map length (shards l))"
    using elem_le_sum_list [of i "map length (shards l)"] i by simp
  then have "int (sum_list (map length ((shards l)[i := s]))) =
      int (sum_list (map length (shards l))) + int (length s) - int (length (shards l ! i))"
    using i by (simp add: map_update sum_list_update)
  moreover have "getShard (set_shard i s l) ip = getShard l ip" for ip
    by (rule getShard_cong) simp
  ultimately show ?thesis
    using inv i s by (auto simp: limiter_inv_def nth_list_update)
qed

lemma AList_update_keys: "set (map fst (AList.update k v al)) = insert k (set (map fst al))"
  by (induction al) auto

lemma allow_shard_keys:
  "set (map fst (allow_shard order l now ip s)) \<subseteq> insert ip (set (map fst s))"
  using evicted_keys [of order s] unfolding allow_shard_def AList_update_keys by auto

lemma distinct_allow_shard:
  "distinct (map fst s) \<Longrightarrow> distinct (map fst (allow_shard order l now ip s))"
  by (simp add: allow_shard_def distinct_update distinct_evicted)

lemma Allow_inv:
  assumes "limiter_inv l" "Allow order now ip l = Some (ok, l')"
  shows "limiter_inv l'"
proof -
  obtain i where i: "getShard l ip = Some i" "i < length (shards l)"
    and l': "l' = set_shard i (allow_shard order l now ip (shards l ! i)) l"
    using Allow_set_shard [OF assms(1), of ip order now] assms(2) by auto
  have "distinct (map fst (shards l ! i))" "\<forall>ip \<in> set (map fst (shards l ! i)). getShard l ip = Some i"
    using assms(1) i(2) by (auto simp: limiter_inv_def)
  moreover from this(2) have "\<forall>ip' \<in> set (map fst (allow_shard order l now ip (shards l ! i))). getShard l ip' = Some i"
    using i(1) allow_shard_keys [of order l now ip "shards l ! i"] by blast
  ultimately show ?thesis
    unfolding l' using i assms(1) by (intro limiter_inv_set_shard) (simp_all add: distinct_allow_shard)
qed

lemma cleanup_shard_set_shard:
  "cleanup_shard now i l = set_shard i (filter (\<lambda>(ip, b). \<not> stale l now b) (shards l ! i)) l"
  by (simp add: cleanup_shard_def set_shard_def Let_def of_nat_diff algebra_simps)

lemma cleanup_shard_inv:
  assumes "limiter_inv l" "i < length (shards l)"
  shows "limiter_inv (cleanup_shard now i l)"
  unfolding cleanup_shard_set_shard
  by (rule limiter_inv_set_shard) (use assms in \<open>auto simp: limiter_inv_def distinct_map_filter\<close>)

lemma Close_inv: "limiter_inv l \<Longrightarrow> \<exists>l'. ratelimit_Close l = Some l' \<and> limiter_inv l' \<and> shards l' = shards l"
  by (auto simp: ratelimit_Close_def limiter_inv_def getShard_def)

subsection \<open>Tokens\<close>

text \<open>One request against a bucket, in rational numbers and roundings.\<close>

lemma bucket_take_eq:
  assumes par: "params_ok l" "rate l = Fin r" and q: "tokens b = Fin q" "0 \<le> q" "q \<le> of_int (burst l)"
    and S: "Duration_Seconds (time_Sub now (lastSeen b)) = Fin S" "0 \<le> S" "S \<le> 2 ^ 64"
  defines "x \<equiv> min (of_int (burst l)) (rnd (q + rnd (S * r)))"
  shows "bucket_take l now b =
    (1 \<le> x, \<lparr>tokens = Fin (if 1 \<le> x then rnd (x - 1) else x), lastSeen = now\<rparr>)"
proof -
  have r: "0 \<le> r" "r \<le> 2 ^ 64" and B: "1 \<le> burst l" "burst l < 2 ^ 53"
    using par by (auto simp: params_ok_def)
  have fB: "f64_of_int (burst l) = Fin (of_int (burst l))" using B by (intro f64_of_int_exact) simp
  have "of_int (burst l) \<le> (of_int (2 ^ 53) :: rat)" using B(2) by (simp only: of_int_le_iff)
  then have Bq: "of_int (burst l) \<le> (2 ^ 53 :: rat)" by simp
  have "S * r \<le> 2 ^ 64 * 2 ^ 64" using S r by (intro mult_mono) auto
  then have Sr: "0 \<le> S * r" "S * r \<le> 2 ^ 128" using S r by simp_all
  have big: "(2::rat) ^ 128 + 2 ^ 53 \<le> 2 ^ 129" "(2::rat) ^ 128 \<le> 2 ^ 1023" "(2::rat) ^ 129 \<le> 2 ^ 1023"
    "(2::rat) ^ 53 \<le> 2 ^ 1023"
    by simp_all
  have P: "f64_mul (Fin S) (Fin r) = Fin (rnd (S * r))"
    using Sr big by (simp add: f64_of_rat_Fin)
  have P0: "0 \<le> rnd (S * r)" "rnd (S * r) \<le> 2 ^ 128"
    using rnd_nonneg [OF Sr(1)] rnd_mono [OF Sr(2)] by (simp_all only: rnd_pow2)
  have sum: "f64_add (Fin q) (Fin (rnd (S * r))) = Fin (rnd (q + rnd (S * r)))"
    using P0 q Bq big unfolding f64_add.simps by (intro f64_of_rat_Fin) linarith
  have tk: "f64_add (tokens b) (f64_mul (Duration_Seconds (time_Sub now (lastSeen b))) (rate l)) =
      Fin (rnd (q + rnd (S * r)))"
    unfolding q S par P sum ..
  have upd: "b\<lparr>tokens := t, lastSeen := now\<rparr> = \<lparr>tokens = t, lastSeen = now\<rparr>"
    "b\<lparr>lastSeen := now, tokens := t\<rparr> = \<lparr>tokens = t, lastSeen = now\<rparr>" for t by (cases b; simp)+
  have x: "x \<le> of_int (burst l)" by (simp add: x_def)
  have dec: "f64_sub (Fin x) (Fin 1) = Fin (rnd (x - 1))" if "1 \<le> x"
    using that x Bq big unfolding f64_sub_def f64_neg.simps f64_add.simps
    by (subst f64_of_rat_Fin) (linarith, simp)
  show ?thesis
  proof (cases "of_int (burst l) < rnd (q + rnd (S * r))")
    case True
    then have "x = of_int (burst l)" by (simp add: x_def)
    then show ?thesis
      using True dec by (simp add: bucket_take_def Let_def tk fB upd)
  next
    case False
    then have "x = rnd (q + rnd (S * r))" by (simp add: x_def)
    then show ?thesis
      using False dec by (simp add: bucket_take_def Let_def tk fB upd)
  qed
qed

lemma refill_arith:
  fixes c x q P Sr Er B :: rat
  assumes "P \<le> Sr * (1 + 1 / 2 ^ 53) + 1 / 2 ^ 100" "x \<le> (q + P) * (1 + 1 / 2 ^ 53) + 1 / 2 ^ 100"
    and "c \<le> x + B / 2 ^ 53 + 1 / 2 ^ 100" "Sr \<le> Er * (1 + 1 / 2 ^ 51)" "0 \<le> Er"
    and "0 \<le> q" "q \<le> B" "1 \<le> B"
  shows "c \<le> q + Er * (1 + 1 / 2 ^ 50) + B / 2 ^ 51"
  using assms by (simp add: field_simps)

lemma bucket_take_credit:
  assumes par: "params_ok l" and b: "bucket_ok l now b"
  shows "bucket_ok l now (snd (bucket_take l now b)) \<and>
    0 \<le> bucket_credit (snd (bucket_take l now b)) \<and>
    bucket_credit (snd (bucket_take l now b)) + (if fst (bucket_take l now b) then 1 else 0)
      \<le> bucket_credit b + bucket_gain l b now"
proof -
  obtain q where q: "tokens b = Fin q" "0 \<le> q" "q \<le> of_int (burst l)" and t: "lastSeen b \<le> now"
    using b by (auto simp: bucket_ok_def)
  obtain r where r: "rate l = Fin r" "0 \<le> r" and B: "1 \<le> burst l" "burst l < 2 ^ 53"
    using par by (auto simp: params_ok_def)
  let ?d = "time_Sub now (lastSeen b)"
  have d: "0 \<le> ?d" "?d \<le> max_duration" "?d \<le> now - lastSeen b" using t by (auto simp: time_Sub_def)
  obtain S where S: "Duration_Seconds ?d = Fin S" "0 \<le> S"
    "S \<le> of_int ?d / of_int time_Second * (1 + 1 / 2 ^ 51)"
    using Duration_Seconds_upper [OF d(1,2)] by blast
  let ?B = "of_int (burst l) :: rat" and ?E = "of_int (now - lastSeen b) / of_int time_Second :: rat"
  have Bq: "1 \<le> ?B" using B(1) by simp
  have "of_int ?d \<le> (of_int (2 ^ 63) :: rat)" using d(2) by (simp only: of_int_le_iff)
  then have S64: "S \<le> 2 ^ 64" using S(3) by simp
  have "of_int ?d \<le> (of_int (now - lastSeen b) :: rat)" using d(3) by (simp only: of_int_le_iff)
  then have SE: "S \<le> ?E * (1 + 1 / 2 ^ 51)" using S(3) by simp
  define x where "x = min ?B (rnd (q + rnd (S * r)))"
  have take: "bucket_take l now b = (1 \<le> x, \<lparr>tokens = Fin (if 1 \<le> x then rnd (x - 1) else x), lastSeen = now\<rparr>)"
    unfolding x_def by (rule bucket_take_eq [OF par r(1) q S(1,2) S64])
  have P0: "0 \<le> S * r" using S(2) r(2) by simp
  have Y0: "0 \<le> q + rnd (S * r)" using q(2) rnd_nonneg [OF P0] by simp
  have x0: "0 \<le> x" "x \<le> ?B" using Bq rnd_nonneg [OF Y0] by (auto simp: x_def)
  have c: "0 \<le> (if 1 \<le> x then rnd (x - 1) else x)" using x0 rnd_nonneg [of "x - 1"] by simp
  have c2: "(if 1 \<le> x then rnd (x - 1) else x) \<le> ?B"
    using x0 B rnd64.round_take_one(2) [of x "burst l"] by (auto simp: x_def)
  have "S * r \<le> ?E * (1 + 1 / 2 ^ 51) * r" using SE r(2) by (rule mult_right_mono)
  then have Er: "S * r \<le> (?E * r) * (1 + 1 / 2 ^ 51)" by (simp only: ac_simps)
  have Er0: "0 \<le> ?E * r" using t r(2) by simp
  have 1: "rnd (S * r) \<le> S * r * (1 + 1 / 2 ^ 53) + 1 / 2 ^ 100" using P0 by (rule rnd_upper)
  have 2: "x \<le> (q + rnd (S * r)) * (1 + 1 / 2 ^ 53) + 1 / 2 ^ 100"
    using rnd_upper [OF Y0] by (simp add: x_def min_le_iff_disj)
  have 3: "(if 1 \<le> x then rnd (x - 1) else x) + (if 1 \<le> x then 1 else 0) \<le> x + ?B / 2 ^ 53 + 1 / 2 ^ 100"
  proof (cases "1 \<le> x")
    case True
    then have "rnd (x - 1) \<le> (x - 1) * (1 + 1 / 2 ^ 53) + 1 / 2 ^ 100" by (intro rnd_upper) simp
    then show ?thesis using True x0 by (simp add: field_simps)
  qed (use Bq in simp)
  have "(if 1 \<le> x then rnd (x - 1) else x) + (if 1 \<le> x then 1 else 0)
      \<le> q + ?E * r * (1 + 1 / 2 ^ 50) + ?B / 2 ^ 51"
    using 1 2 3 Er Er0 q(2,3) Bq by (rule refill_arith)
  then show ?thesis
    using c c2 t by (simp add: take bucket_ok_def bucket_credit_def bucket_gain_def q r)
qed

end
