(* ===== verification/Rate_Limiter_Runs.thy ===== *)
theory Rate_Limiter_Runs
  imports Rate_Limiter
begin

text \<open>
  What the rate limiter guarantees over its concurrent executions (\<open>limiter_step\<close> of theory
  \<open>Rate_Limiter\<close>): \<^verbatim>\<open>Allow\<close> and \<^verbatim>\<open>cleanup\<close> on their own are executions of it, the bookkeeping and
  the token counts stay consistent, the number of buckets is bounded, an address does not
  affect another, and the requests granted to an address are bounded by the burst plus the
  rate times the time, with one more burst for every time its bucket is dropped. The last is
  an amortised argument over the interface \<open>quota\<close>.
\<close>

section \<open>Definitions\<close>

text \<open>
  What holds of the holder of a lock: a request that is about to create a bucket is in the
  shard of its address, which has no bucket, and has read the clock.
\<close>

definition lock_ok :: "limiter \<Rightarrow> instant \<Rightarrow> nat \<Rightarrow> holder \<Rightarrow> bool" where
  "lock_ok l t i h \<longleftrightarrow> i < length (shards l) \<and>
     (case holder_request h of
        None \<Rightarrow> True
      | Some (ip, now) \<Rightarrow> getShard l ip = Some i \<and> map_of (shards l ! i) ip = None \<and> now \<le> t)"

definition locks_inv :: "limiter_system \<Rightarrow> bool" where
  "locks_inv s \<longleftrightarrow>
     (\<forall>i h. ls_locks s i = Some h \<longrightarrow> lock_ok (ls_limiter s) (ls_clock s) i h) \<and>
     (\<forall>now i. ls_cleanup s = Some (now, i) \<longrightarrow> now \<le> ls_clock s)"

definition system_ok :: "limiter_system \<Rightarrow> bool" where
  "system_ok s \<longleftrightarrow>
     limiter_inv (ls_limiter s) \<and> tokens_inv (ls_limiter s) (ls_clock s) \<and> locks_inv s"

text \<open>The invariants of one shard.\<close>

definition shard_ok :: "limiter \<Rightarrow> instant \<Rightarrow> nat \<Rightarrow> shard \<Rightarrow> bool" where
  "shard_ok l t i x \<longleftrightarrow> distinct (map fst x) \<and>
     (\<forall>ip \<in> set (map fst x). getShard l ip = Some i) \<and> (\<forall>(ip, b) \<in> set x. bucket_ok l t b)"

text \<open>The requests of an address that were answered in a list of events, and those granted.\<close>

fun is_request :: "string \<Rightarrow> limiter_event \<Rightarrow> bool" where
  "is_request ip (Lim_Found ip' now ok) = (ip' = ip)"
| "is_request ip (Lim_Create ip' ok) = (ip' = ip)"
| "is_request ip e = False"

fun is_granted :: "string \<Rightarrow> limiter_event \<Rightarrow> bool" where
  "is_granted ip (Lim_Found ip' now ok) = (ip' = ip \<and> ok)"
| "is_granted ip (Lim_Create ip' ok) = (ip' = ip \<and> ok)"
| "is_granted ip e = False"

text \<open>The bucket of an address is dropped: evicted for another address, or cleaned up.\<close>

fun is_evicted :: "string \<Rightarrow> limiter_event \<Rightarrow> bool" where
  "is_evicted ip (Lim_Evict ip' oldestIP) = (oldestIP = ip \<and> ip \<noteq> [])"
| "is_evicted ip e = False"

fun is_deleted :: "string \<Rightarrow> limiter_event \<Rightarrow> bool" where
  "is_deleted ip (Lim_Delete ip') = (ip' = ip)"
| "is_deleted ip e = False"

definition requests :: "string \<Rightarrow> limiter_event list \<Rightarrow> nat" where
  "requests ip es = length (filter (is_request ip) es)"

definition granted :: "string \<Rightarrow> limiter_event list \<Rightarrow> nat" where
  "granted ip es = length (filter (is_granted ip) es)"

definition evictions :: "string \<Rightarrow> limiter_event list \<Rightarrow> nat" where
  "evictions ip es = length (filter (is_evicted ip) es)"

definition deletions :: "string \<Rightarrow> limiter_event list \<Rightarrow> nat" where
  "deletions ip es = length (filter (is_deleted ip) es)"

text \<open>The clean-ups begun, and whether the one in progress may still drop the bucket of an address.\<close>

fun is_cleanup :: "limiter_event \<Rightarrow> bool" where
  "is_cleanup (Lim_Cleanup now) = True"
| "is_cleanup e = False"

definition cleanups :: "limiter_event list \<Rightarrow> nat" where
  "cleanups es = length (filter is_cleanup es)"

definition to_delete :: "string \<Rightarrow> limiter_system \<Rightarrow> bool" where
  "to_delete ip s =
    (case (ls_cleanup s, getShard (ls_limiter s) ip) of
       (Some (now, j), Some i) \<Rightarrow>
         j < i \<or> j = i \<and> \<not> (ls_locks s i = Some Hold_Cleanup \<and> bucket_of (ls_limiter s) ip = None)
     | _ \<Rightarrow> False)"

text \<open>What time adds to a bucket, with the largest rounding error.\<close>

definition refill :: "rat \<Rightarrow> int \<Rightarrow> rat" where
  "refill r d = of_int d / of_int time_Second * r * (1 + 1 / 2 ^ 50)"

text \<open>When the address's request that holds its lock, if there is one, read the clock.\<close>

definition request_of :: "string \<Rightarrow> holder option \<Rightarrow> instant option" where
  "request_of ip h =
    (case Option.bind h holder_request of
       None \<Rightarrow> None
     | Some (ip', now) \<Rightarrow> if ip' = ip then Some now else None)"

definition request_time :: "limiter_system \<Rightarrow> string \<Rightarrow> instant option" where
  "request_time s ip = Option.bind (getShard (ls_limiter s) ip) (\<lambda>i. request_of ip (ls_locks s i))"

text \<open>The requests an address could make at once now, at most.\<close>

definition potential :: "rat \<Rightarrow> string \<Rightarrow> limiter_system \<Rightarrow> rat" where
  "potential r ip s =
    (case bucket_of (ls_limiter s) ip of
       Some b \<Rightarrow> bucket_credit b + refill r (ls_clock s - lastSeen b)
     | None \<Rightarrow> of_int (burst (ls_limiter s)) +
         (case request_time s ip of None \<Rightarrow> 0 | Some now \<Rightarrow> refill r (ls_clock s - now)))"

text \<open>A bucket is full again before the clean-up may remove it.\<close>

definition refills_before_cleanup :: "duration \<Rightarrow> int \<Rightarrow> rat \<Rightarrow> bool" where
  "refills_before_cleanup age B r \<longleftrightarrow> 0 \<le> age \<and> of_int B \<le> of_int age / of_int time_Second * r"

definition quota_inv :: "rat \<Rightarrow> int \<Rightarrow> duration \<Rightarrow> limiter_system \<Rightarrow> bool" where
  "quota_inv r B age s \<longleftrightarrow> system_ok s \<and> rate (ls_limiter s) = Fin r \<and> burst (ls_limiter s) = B \<and>
     cleanupAge (ls_limiter s) = age"

text \<open>What an event may cost beyond the refill: rounding, and a full bucket for a dropped one.\<close>

definition event_cost :: "rat \<Rightarrow> int \<Rightarrow> duration \<Rightarrow> string \<Rightarrow> limiter_event \<Rightarrow> rat" where
  "event_cost r B age ip e =
     of_bool (is_request ip e) * of_int B / 2 ^ 51 + of_bool (is_evicted ip e) * of_int B +
     of_bool (is_deleted ip e \<and> \<not> refills_before_cleanup age B r) * of_int B"

text \<open>
  The cap on the number of buckets, for addresses that are not the empty string. A shard may
  still take a bucket without giving one up if it is empty, or if its lock is held by a
  request that is about to create one.
\<close>

definition may_add :: "limiter_system \<Rightarrow> nat \<Rightarrow> bool" where
  "may_add s i \<longleftrightarrow> shards (ls_limiter s) ! i = [] \<or> (\<exists>ip now. ls_locks s i = Some (Hold_Create ip now))"

definition slack :: "limiter_system \<Rightarrow> int" where
  "slack s = (\<Sum>i < length (shards (ls_limiter s)). of_bool (may_add s i))"

definition cap_inv :: "limiter_system \<Rightarrow> bool" where
  "cap_inv s \<longleftrightarrow> 0 < maxBuckets (ls_limiter s) \<and>
     (\<forall>x \<in> set (shards (ls_limiter s)). [] \<notin> set (map fst x)) \<and>
     (\<forall>i now. request_of [] (ls_locks s i) \<noteq> Some now) \<and>
     bucketCount (ls_limiter s) + slack s \<le> maxBuckets (ls_limiter s) + shardCount (ls_limiter s) - 1"

section \<open>Lemmas\<close>

subsection \<open>Lookups\<close>

lemma map_of_filter_values:
  "distinct (map fst al) \<Longrightarrow>
     map_of (filter (\<lambda>(k, v). P v) al) k = (case map_of al k of Some v \<Rightarrow> if P v then Some v else None | None \<Rightarrow> None)"
proof (induction al)
  case (Cons kv al)
  have "k \<notin> fst ` set al \<Longrightarrow> map_of (filter (\<lambda>(k, v). P v) al) k = None"
    by (auto simp: map_of_eq_None_iff)
  with Cons show ?case by (cases kv) (auto simp: map_of_eq_None_iff [symmetric] split: option.splits)
qed simp

lemma ball_list_update: "\<forall>s \<in> set xs. P s \<Longrightarrow> P x \<Longrightarrow> \<forall>s \<in> set (xs[i := x]). P s"
  using set_update_subset_insert [of xs i x] by blast

lemma bucket_of_set_shard:
  assumes "limiter_inv l" "i < length (shards l)"
  shows "bucket_of (set_shard i s l) ip =
    (if getShard l ip = Some i then map_of s ip else bucket_of l ip)"
proof -
  have "getShard (set_shard i s l) ip = getShard l ip" by (rule getShard_cong) simp
  then show ?thesis using assms(2) by (auto simp: bucket_of_def split: option.split)
qed

text \<open>\<^verbatim>\<open>Allow\<close> leaves the address with the bucket it took from.\<close>

lemma Allow_bucket:
  assumes "limiter_inv l" "Allow order now ip l = Some (ok, l')"
  defines "b \<equiv> (case bucket_of l ip of Some b \<Rightarrow> b | None \<Rightarrow> new_bucket l now)"
  shows "bucket_of l' ip = Some (snd (bucket_take l now b))" "ok = fst (bucket_take l now b)"
proof -
  obtain i where i: "getShard l ip = Some i" "i < length (shards l)"
    and eq: "Allow order now ip l =
      Some (fst (bucket_take l now (allow_bucket l now ip (shards l ! i))),
            set_shard i (allow_shard order l now ip (shards l ! i)) l)"
    using Allow_set_shard [OF assms(1)] by metis
  have "allow_bucket l now ip (shards l ! i) = b"
    by (simp add: b_def allow_bucket_def bucket_of_def i)
  then show "bucket_of l' ip = Some (snd (bucket_take l now b))" "ok = fst (bucket_take l now b)"
    using eq assms(2) i
    by (auto simp: bucket_of_set_shard [OF assms(1) i(2)] allow_shard_def update_conv)
qed

text \<open>Another address keeps its bucket unless it is the one evicted.\<close>

lemma Allow_other:
  assumes inv: "limiter_inv l" "Allow order now ip l = Some (ok, l')" and "ip' \<noteq> ip"
  shows "bucket_of l' ip' = bucket_of l ip' \<or>
    (bucket_of l' ip' = None \<and> maxBuckets l > 0 \<and> bucketCount l \<ge> maxBuckets l)"
proof -
  obtain i where i: "getShard l ip = Some i" "i < length (shards l)"
    and l': "l' = set_shard i (allow_shard order l now ip (shards l ! i)) l"
    using Allow_set_shard [OF inv(1), of ip order now] inv(2) by auto
  show ?thesis
  proof (cases "getShard l ip' = Some i")
    case True
    have "bucket_of l' ip' =
        map_of (if evicts l ip (shards l ! i) then evicted order (shards l ! i) else shards l ! i) ip'"
      using True assms(3) by (simp add: l' bucket_of_set_shard [OF inv(1) i(2)] allow_shard_def update_conv)
    moreover have "map_of (evicted order s) ip' = map_of s ip' \<or> map_of (evicted order s) ip' = None" for s
      by (simp add: evicted_def Let_def delete_conv)
    ultimately show ?thesis using True by (auto simp: bucket_of_def evicts_def)
  qed (simp add: l' bucket_of_set_shard [OF inv(1) i(2)])
qed

lemma cleanup_bucket:
  assumes "limiter_inv l" "i < length (shards l)"
  shows "bucket_of (cleanup_shard now i l) ip =
    (if getShard l ip = Some i
     then (case bucket_of l ip of Some b \<Rightarrow> if stale l now b then None else Some b | None \<Rightarrow> None)
     else bucket_of l ip)"
proof -
  have "distinct (map fst (shards l ! i))" using assms by (simp add: limiter_inv_def)
  then have "map_of (filter (\<lambda>(ip, b). \<not> stale l now b) (shards l ! i)) ip =
      (case map_of (shards l ! i) ip of Some b \<Rightarrow> if \<not> stale l now b then Some b else None | None \<Rightarrow> None)"
    by (rule map_of_filter_values)
  then show ?thesis
    unfolding cleanup_shard_set_shard bucket_of_set_shard [OF assms]
    by (simp add: bucket_of_def split: option.split)
qed

subsection \<open>Consistency\<close>

lemma tokens_inv_set_shard:
  assumes "tokens_inv l t" "t \<le> now" "\<forall>(ip, b) \<in> set s. bucket_ok l now b"
  shows "tokens_inv (set_shard i s l) now"
proof -
  have "bucket_ok l now b" if "s' \<in> set ((shards l)[i := s])" "(ip, b) \<in> set s'" for s' ip b
  proof (cases "s' = s")
    case False
    then have "s' \<in> set (shards l)" using that(1) set_update_subset_insert by fastforce
    then have "bucket_ok l t b" using assms(1) that(2) by (auto simp: tokens_inv_def)
    then show ?thesis using assms(2) by (auto simp: bucket_ok_def)
  qed (use assms(3) that(2) in auto)
  then show ?thesis
    using assms(1) by (auto simp: tokens_inv_def params_ok_def bucket_ok_def)
qed

lemma set_AList_update: "set (AList.update k v al) \<subseteq> insert (k, v) (set al)"
  by (induction al) auto

lemma set_evicted: "set (evicted order s) \<subseteq> set s"
  by (auto simp: evicted_def Let_def AList.delete_eq)

lemma new_bucket_ok: "params_ok l \<Longrightarrow> bucket_ok l now (new_bucket l now)"
  by (auto simp: params_ok_def bucket_ok_def new_bucket_def f64_of_int_exact)

lemma tokens_inv_bucket:
  assumes "tokens_inv l t" "limiter_inv l" "bucket_of l ip = Some b" shows "bucket_ok l t b"
proof -
  obtain i where i: "getShard l ip = Some i" "i < length (shards l)"
    using getShard_less [OF assms(2)] by blast
  then have "(ip, b) \<in> set (shards l ! i)" using assms(3) by (auto simp: bucket_of_def dest: map_of_SomeD)
  then show ?thesis using assms(1) i(2) by (fastforce simp: tokens_inv_def)
qed

lemma Close_fields:
  "ratelimit_Close l = Some l' \<Longrightarrow>
     shards l' = shards l \<and> shardCount l' = shardCount l \<and> rate l' = rate l \<and> burst l' = burst l \<and>
     maxBuckets l' = maxBuckets l \<and> bucketCount l' = bucketCount l \<and> cleanupAge l' = cleanupAge l"
  by (auto simp: ratelimit_Close_def split: if_splits)

lemma Close_bucket: "ratelimit_Close l = Some l' \<Longrightarrow> bucket_of l' ip = bucket_of l ip"
  using Close_fields [of l l'] getShard_cong [of l' l ip] by (simp add: bucket_of_def split: option.split)

lemma bucket_ok_mono: "bucket_ok l t b \<Longrightarrow> t \<le> t' \<Longrightarrow> bucket_ok l t' b"
  by (auto simp: bucket_ok_def)

lemma shard_ok_nth:
  assumes "limiter_inv l" "tokens_inv l t" "i < length (shards l)" "t \<le> t'"
  shows "shard_ok l t' i (shards l ! i)"
  using assms nth_mem [OF assms(3)] bucket_ok_mono [OF _ assms(4)]
  by (fastforce simp: shard_ok_def limiter_inv_def tokens_inv_def)

lemma system_shard_ok:
  "system_ok s \<Longrightarrow> i < length (shards (ls_limiter s)) \<Longrightarrow> ls_clock s \<le> t \<Longrightarrow>
     shard_ok (ls_limiter s) t i (shards (ls_limiter s) ! i)"
  using shard_ok_nth unfolding system_ok_def by blast

lemma shard_ok_update:
  assumes "shard_ok l t i x" "getShard l ip = Some i" "bucket_ok l t b"
  shows "shard_ok l t i (AList.update ip b x)"
  using assms set_AList_update [of ip b x] AList_update_keys [of ip b x]
  by (auto simp: shard_ok_def distinct_update simp del: set_map)

lemma shard_ok_delete: "shard_ok l t i x \<Longrightarrow> shard_ok l t i (AList.delete ip x)"
  by (auto simp: shard_ok_def AList.delete_eq distinct_map_filter)

lemma shard_ok_evicted: "shard_ok l t i x \<Longrightarrow> shard_ok l t i (evicted order x)"
  by (simp add: evicted_def Let_def shard_ok_delete)

lemma bucket_take_ok: "params_ok l \<Longrightarrow> bucket_ok l now b \<Longrightarrow> bucket_ok l now (snd (bucket_take l now b))"
  using bucket_take_credit by blast

lemma set_shard_same: "i < length (shards l) \<Longrightarrow> set_shard i (shards l ! i) l = l"
  by (simp add: set_shard_def)

text \<open>A step that replaces one shard and hands over its lock.\<close>

lemma system_ok_change:
  assumes ok: "system_ok s" and i: "i < length (shards (ls_limiter s))"
    and s': "ls_limiter s' = set_shard i x (ls_limiter s)" "ls_clock s \<le> ls_clock s'"
      "ls_locks s' = (ls_locks s)(i := h)"
    and x: "shard_ok (ls_limiter s) (ls_clock s') i x"
    and h: "\<And>h'. h = Some h' \<Longrightarrow> lock_ok (ls_limiter s') (ls_clock s') i h'"
    and c: "\<And>now j. ls_cleanup s' = Some (now, j) \<Longrightarrow> now \<le> ls_clock s'"
  shows "system_ok s'"
proof -
  have inv: "limiter_inv (ls_limiter s)" "tokens_inv (ls_limiter s) (ls_clock s)" "locks_inv s"
    using ok by (simp_all add: system_ok_def)
  have "limiter_inv (ls_limiter s')" "tokens_inv (ls_limiter s') (ls_clock s')"
    unfolding s'(1) using x
    by (auto simp: shard_ok_def intro!: limiter_inv_set_shard [OF inv(1) i] tokens_inv_set_shard [OF inv(2) s'(2)])
  moreover have "lock_ok (ls_limiter s') (ls_clock s') j h'" if "ls_locks s' j = Some h'" for j h'
  proof (cases "j = i")
    case True
    then show ?thesis using that h s'(3) by simp
  next
    case False
    then have "lock_ok (ls_limiter s) (ls_clock s) j h'"
      using that s'(3) inv(3) by (simp add: locks_inv_def)
    moreover have "getShard (ls_limiter s') ip = getShard (ls_limiter s) ip" for ip
      by (rule getShard_cong) (simp add: s'(1))
    ultimately show ?thesis
      using False s' by (auto simp: lock_ok_def split: option.splits)
  qed
  ultimately show ?thesis using c by (auto simp: system_ok_def locks_inv_def)
qed

lemma locks_inv_lock: "system_ok s \<Longrightarrow> ls_locks s i = Some h \<Longrightarrow> lock_ok (ls_limiter s) (ls_clock s) i h"
  by (simp add: system_ok_def locks_inv_def)

lemma locks_inv_request:
  "system_ok s \<Longrightarrow> ls_locks s i = Some h \<Longrightarrow> holder_request h = Some (ip, now) \<Longrightarrow>
     i < length (shards (ls_limiter s)) \<and> getShard (ls_limiter s) ip = Some i \<and>
     map_of (shards (ls_limiter s) ! i) ip = None \<and> now \<le> ls_clock s"
  by (auto dest: locks_inv_lock simp: lock_ok_def)

lemma map_of_evicted_None: "map_of x ip = None \<Longrightarrow> map_of (evicted order x) ip = None"
  by (simp add: evicted_def Let_def delete_conv)

text \<open>What each operation does to the shards.\<close>

lemma Found_change:
  assumes "system_ok s" "getShard (ls_limiter s) ip = Some i" "ls_clock s \<le> now"
    and "map_of (shards (ls_limiter s) ! i) ip = Some b" "allow_take i now ip b (ls_limiter s) = (ok, l)"
  shows "i < length (shards (ls_limiter s)) \<and> bucket_ok (ls_limiter s) now b \<and>
    ok = fst (bucket_take (ls_limiter s) now b) \<and>
    l = set_shard i (AList.update ip (snd (bucket_take (ls_limiter s) now b)) (shards (ls_limiter s) ! i)) (ls_limiter s) \<and>
    shard_ok (ls_limiter s) now i (AList.update ip (snd (bucket_take (ls_limiter s) now b)) (shards (ls_limiter s) ! i))"
proof -
  let ?l = "ls_limiter s"
  have inv: "limiter_inv ?l" "tokens_inv ?l (ls_clock s)" and par: "params_ok ?l"
    using assms(1) by (auto simp: system_ok_def tokens_inv_def)
  have i: "i < length (shards ?l)" using getShard_less [OF inv(1), of ip] assms(2) by auto
  have x: "shard_ok ?l now i (shards ?l ! i)" using shard_ok_nth [OF inv i assms(3)] .
  then have b: "bucket_ok ?l now b" using map_of_SomeD [OF assms(4)] by (auto simp: shard_ok_def)
  show ?thesis
    using i b assms(2,5) allow_take_set_shard [OF assms(4)] shard_ok_update [OF x assms(2) bucket_take_ok [OF par b]]
    by simp
qed

lemma Create_change:
  assumes "system_ok s" "ls_locks s i = Some (Hold_Create ip now)" "allow_create i now ip (ls_limiter s) = (ok, l)"
  defines "b \<equiv> new_bucket (ls_limiter s) now"
  shows "bucket_ok (ls_limiter s) now b \<and> ok = fst (bucket_take (ls_limiter s) now b) \<and>
    l = set_shard i (AList.update ip (snd (bucket_take (ls_limiter s) now b)) (shards (ls_limiter s) ! i)) (ls_limiter s) \<and>
    shard_ok (ls_limiter s) (ls_clock s) i
      (AList.update ip (snd (bucket_take (ls_limiter s) now b)) (shards (ls_limiter s) ! i))"
proof -
  let ?l = "ls_limiter s"
  have inv: "limiter_inv ?l" "tokens_inv ?l (ls_clock s)" and par: "params_ok ?l"
    using assms(1) by (auto simp: system_ok_def tokens_inv_def)
  have i: "i < length (shards ?l)" "getShard ?l ip = Some i" "map_of (shards ?l ! i) ip = None" "now \<le> ls_clock s"
    using locks_inv_request [OF assms(1,2), of ip now] by simp_all
  have b: "bucket_ok ?l now b" unfolding b_def by (rule new_bucket_ok [OF par])
  have "bucket_ok ?l (ls_clock s) (snd (bucket_take ?l now b))"
    using bucket_ok_mono [OF bucket_take_ok [OF par b] i(4)] .
  then show ?thesis
    using b assms(3) allow_create_set_shard [OF i(3,1)] shard_ok_update [OF shard_ok_nth [OF inv i(1) order_refl] i(2)]
    by (simp add: b_def)
qed

lemma Evict_change:
  assumes "system_ok s" "i < length (shards (ls_limiter s))"
  shows "evictOldestFromShard order i (ls_limiter s) = set_shard i (evicted order (shards (ls_limiter s) ! i)) (ls_limiter s) \<and>
    shard_ok (ls_limiter s) (ls_clock s) i (evicted order (shards (ls_limiter s) ! i))"
proof -
  have "shard_ok (ls_limiter s) (ls_clock s) i (shards (ls_limiter s) ! i)"
    using system_shard_ok [OF assms(1,2) order_refl] .
  then show ?thesis by (simp add: shard_ok_evicted evict_set_shard shard_ok_def [of _ _ _ "shards _ ! _"])
qed

lemma Delete_change:
  assumes "system_ok s" "i < length (shards (ls_limiter s))" "map_of (shards (ls_limiter s) ! i) ip = Some b"
  shows "delete_bucket i ip (ls_limiter s) = set_shard i (AList.delete ip (shards (ls_limiter s) ! i)) (ls_limiter s) \<and>
    shard_ok (ls_limiter s) (ls_clock s) i (AList.delete ip (shards (ls_limiter s) ! i)) \<and>
    bucket_ok (ls_limiter s) (ls_clock s) b"
proof -
  have "shard_ok (ls_limiter s) (ls_clock s) i (shards (ls_limiter s) ! i)"
    using system_shard_ok [OF assms(1,2) order_refl] .
  note x = this
  have "distinct (map fst (shards (ls_limiter s) ! i))" "bucket_ok (ls_limiter s) (ls_clock s) b"
    using x map_of_SomeD [OF assms(3)] by (auto simp: shard_ok_def)
  then show ?thesis using delete_set_shard [OF _ assms(3)] shard_ok_delete [OF x] by blast
qed

lemma system_ok_lock:
  assumes "system_ok s" "i < length (shards (ls_limiter s))"
    and "ls_limiter s' = ls_limiter s" "ls_clock s \<le> ls_clock s'" "ls_locks s' = (ls_locks s)(i := h)"
    and "\<And>h'. h = Some h' \<Longrightarrow> lock_ok (ls_limiter s) (ls_clock s') i h'"
    and "\<And>t j. ls_cleanup s' = Some (t, j) \<Longrightarrow> t \<le> ls_clock s'"
  shows "system_ok s'"
  by (rule system_ok_change [OF assms(1,2), of _ "shards (ls_limiter s) ! i" h])
    (use assms system_shard_ok in \<open>auto simp: set_shard_same\<close>)

lemma locks_inv_cleanup: "system_ok s \<Longrightarrow> ls_cleanup s = Some (now, i) \<Longrightarrow> now \<le> ls_clock s"
  by (simp add: system_ok_def locks_inv_def)

lemma system_ok_clock:
  assumes ok: "system_ok s" and s': "ls_limiter s' = ls_limiter s" "ls_locks s' = ls_locks s" "ls_clock s \<le> ls_clock s'"
    and c: "\<And>now j. ls_cleanup s' = Some (now, j) \<Longrightarrow> now \<le> ls_clock s'"
  shows "system_ok s'"
proof -
  have "0 < length (shards (ls_limiter s))" using ok by (auto simp: system_ok_def limiter_inv_def)
  moreover have "lock_ok (ls_limiter s) (ls_clock s') 0 h" if "ls_locks s 0 = Some h" for h
    using locks_inv_lock [OF ok that] s'(3) by (auto simp: lock_ok_def split: option.splits)
  ultimately show ?thesis
    by (intro system_ok_lock [OF ok, where h = "ls_locks s 0"]) (use s' c in auto)
qed

lemma system_ok_step:
  assumes "limiter_step s e s'" and ok: "system_ok s" shows "system_ok s'"
  using assms(1)
proof cases
  case (Found ip i now b g l)
  note ch = Found_change [OF ok Found(3,5,6,7)]
  show ?thesis
    by (rule system_ok_change [OF ok ch [THEN conjunct1], where h = None])
      (use ch Found locks_inv_cleanup [OF ok] in \<open>force+\<close>)
next
  case (Lock ip i now)
  then have "i < length (shards (ls_limiter s))"
    using getShard_less [of "ls_limiter s" ip] ok by (auto simp: system_ok_def)
  then show ?thesis
    by (rule system_ok_lock [OF ok, where h = "Some (Hold_New ip now)"])
      (use Lock locks_inv_cleanup [OF ok] \<open>i < _\<close> in \<open>force simp: lock_ok_def\<close>)+
next
  case (Check i ip now)
  have i: "i < length (shards (ls_limiter s))" using locks_inv_request [OF ok Check(3), of ip now] by simp
  show ?thesis
    by (rule system_ok_lock [OF ok i, where h = "ls_locks s' i"])
      (use Check locks_inv_request [OF ok Check(3), of ip now] locks_inv_cleanup [OF ok] in \<open>auto simp: lock_ok_def\<close>)
next
  case (Evict i ip now order)
  have i: "i < length (shards (ls_limiter s))" "getShard (ls_limiter s) ip = Some i"
    "map_of (shards (ls_limiter s) ! i) ip = None" "now \<le> ls_clock s"
    using locks_inv_request [OF ok Evict(3), of ip now] by simp_all
  have "getShard (ls_limiter s') ip = getShard (ls_limiter s) ip"
    by (rule getShard_cong) (simp add: Evict Evict_change [OF ok i(1)])
  then show ?thesis
    by (intro system_ok_change [OF ok i(1), where x = "evicted order (shards (ls_limiter s) ! i)" and h = "Some (Hold_Create ip now)"])
      (use Evict_change [OF ok i(1)] Evict i locks_inv_cleanup [OF ok] in \<open>auto simp: lock_ok_def map_of_evicted_None\<close>)
next
  case (Create i ip now g l)
  have i: "i < length (shards (ls_limiter s))" using locks_inv_request [OF ok Create(3), of ip now] by simp
  show ?thesis
    by (rule system_ok_change [OF ok i, where h = None])
      (use Create_change [OF ok Create(3,4)] Create locks_inv_cleanup [OF ok] in \<open>force+\<close>)
next
  case (Delete now i ip b)
  have i: "i < length (shards (ls_limiter s))" using locks_inv_lock [OF ok Delete(4)] by (simp add: lock_ok_def)
  show ?thesis
    by (rule system_ok_change [OF ok i, where h = "Some Hold_Cleanup"])
      (use Delete_change [OF ok i Delete(5)] Delete i locks_inv_cleanup [OF ok] in \<open>force simp: lock_ok_def\<close>)+
next
  case (Cleanup now)
  then show ?thesis by (intro system_ok_clock [OF ok]) auto
next
  case (CleanupLock now i)
  show ?thesis
    by (rule system_ok_lock [OF ok CleanupLock(4), where h = "Some Hold_Cleanup"])
      (use CleanupLock locks_inv_cleanup [OF ok] in \<open>auto simp: lock_ok_def\<close>)
next
  case (CleanupUnlock now i)
  then have "i < length (shards (ls_limiter s))" using locks_inv_lock [OF ok] by (auto simp: lock_ok_def)
  then show ?thesis
    by (rule system_ok_lock [OF ok, where h = None]) (use CleanupUnlock locks_inv_cleanup [OF ok] in auto)
next
  case (Time now)
  then show ?thesis using locks_inv_cleanup [OF ok] by (intro system_ok_clock [OF ok]) force+
next
  case (Close l)
  have "limiter_inv l"
    using ok Close(3) Close_inv [of "ls_limiter s"] by (auto simp: system_ok_def)
  moreover have "lock_ok l = lock_ok (ls_limiter s)"
    using getShard_cong [of l "ls_limiter s"] Close_fields [OF Close(3)] by (simp add: lock_ok_def fun_eq_iff split: option.split)
  ultimately show ?thesis
    using ok Close_fields [OF Close(3)] Close(2)
    by (auto simp: system_ok_def tokens_inv_def bucket_ok_def params_ok_def locks_inv_def)
qed (use ok in \<open>auto simp: system_ok_def locks_inv_def\<close>)

subsection \<open>Amortised bounds\<close>

text \<open>
  The interface of a resource handed out against a credit: no step spends more than the
  credit it uses up, the income from time and an error per event.
\<close>

locale quota =
  fixes step :: "'s \<Rightarrow> 'e \<Rightarrow> 's \<Rightarrow> bool"
    and inv :: "'s \<Rightarrow> bool"
    and spent :: "'e \<Rightarrow> bool"
    and credit income :: "'s \<Rightarrow> rat"
    and err :: "'e \<Rightarrow> rat"
  assumes step_inv: "inv s \<Longrightarrow> step s e s' \<Longrightarrow> inv s'"
    and credit_nonneg: "inv s \<Longrightarrow> 0 \<le> credit s"
    and step_credit: "inv s \<Longrightarrow> step s e s' \<Longrightarrow>
      credit s' + of_bool (spent e) \<le> credit s + (income s' - income s) + err e"
begin

lemma runs_credit:
  assumes "runs step s es s'" "inv s"
  shows "inv s' \<and> credit s' + of_nat (length (filter spent es))
    \<le> credit s + (income s' - income s) + sum_list (map err es)"
  using assms
proof induction
  case (Snoc s es s' e s'')
  then have "inv s'" by simp
  then show ?case using Snoc step_credit [of s' e s''] step_inv [of s' e s''] by (auto split: if_splits)
qed simp

lemma runs_spent:
  assumes "runs step s es s'" "inv s"
  shows "of_nat (length (filter spent es)) \<le> credit s + (income s' - income s) + sum_list (map err es)"
  using runs_credit [OF assms] credit_nonneg [of s'] by linarith

end

lemma refill_add: "refill r (d + d') = refill r d + refill r d'"
  by (simp add: refill_def add_divide_distrib algebra_simps)

lemma refill_diff: "refill r (d - d') = refill r d - refill r d'"
  using refill_add [of r "d - d'" d'] by simp

lemma refill_nonneg: "0 \<le> d \<Longrightarrow> 0 \<le> r \<Longrightarrow> 0 \<le> refill r d"
  by (simp add: refill_def)

lemma bucket_gain_refill:
  "rate l = Fin r \<Longrightarrow> bucket_gain l b now = refill r (now - lastSeen b) + of_int (burst l) / 2 ^ 51"
  by (simp add: bucket_gain_def refill_def)

text \<open>Who holds a lock matters to the potential only for the address of the holder.\<close>

lemma request_of_simps [simp]:
  "request_of ip None = None" "request_of ip (Some Hold_Cleanup) = None"
  "request_of ip (Some (Hold_New ip' now)) = (if ip' = ip then Some now else None)"
  "request_of ip (Some (Hold_Evict ip' now)) = (if ip' = ip then Some now else None)"
  "request_of ip (Some (Hold_Create ip' now)) = (if ip' = ip then Some now else None)"
  by (simp_all add: request_of_def)

lemma request_time_change:
  assumes "shardCount (ls_limiter s') = shardCount (ls_limiter s)" "ls_locks s' = (ls_locks s)(i := h)"
  shows "request_time s' ip =
    (if getShard (ls_limiter s) ip = Some i then request_of ip h else request_time s ip)"
  using getShard_cong [OF assms(1), of ip] assms(2)
  by (cases "getShard (ls_limiter s) ip") (auto simp: request_time_def)

lemma request_time_shard: "getShard (ls_limiter s) ip = Some i \<Longrightarrow> request_time s ip = request_of ip (ls_locks s i)"
  by (simp add: request_time_def)

lemma request_time_clock:
  assumes "system_ok s" "request_time s ip = Some now" shows "now \<le> ls_clock s"
proof -
  obtain i h where "ls_locks s i = Some h" "request_of ip (Some h) = Some now"
    using assms(2) by (auto simp: request_time_def request_of_def split: bind_splits option.splits)
  then show ?thesis
    using locks_inv_request [OF assms(1), of i h] by (auto simp: request_of_def split: option.splits if_splits)
qed

lemma bucket_of_update:
  assumes "limiter_inv l" "getShard l ip = Some i"
  shows "bucket_of (set_shard i (AList.update ip b (shards l ! i)) l) ip' =
    (if ip' = ip then Some b else bucket_of l ip')"
proof -
  have "i < length (shards l)" using getShard_less [OF assms(1), of ip] assms(2) by auto
  from bucket_of_set_shard [OF assms(1) this] show ?thesis
    using assms(2) by (simp add: update_conv bucket_of_def)
qed

text \<open>An address that is left alone gains what time gives it.\<close>

lemma potential_idle:
  assumes "bucket_of (ls_limiter s') ip = bucket_of (ls_limiter s) ip" "request_time s' ip = request_time s ip"
    and "burst (ls_limiter s') = burst (ls_limiter s)" "ls_clock s \<le> ls_clock s'" "0 \<le> r"
  shows "potential r ip s' \<le> potential r ip s + refill r (ls_clock s' - ls_clock s)"
  using assms refill_nonneg [of "ls_clock s' - ls_clock s" r]
  by (auto simp: potential_def refill_diff split: option.split)

lemma potential_nonneg:
  assumes ok: "system_ok s" and r: "0 \<le> r" shows "0 \<le> potential r ip s"
proof -
  have inv: "limiter_inv (ls_limiter s)" "tokens_inv (ls_limiter s) (ls_clock s)" "0 \<le> burst (ls_limiter s)"
    using ok by (auto simp: system_ok_def tokens_inv_def params_ok_def)
  show ?thesis
  proof (cases "bucket_of (ls_limiter s) ip")
    case (Some b)
    then have "bucket_ok (ls_limiter s) (ls_clock s) b" using tokens_inv_bucket inv by blast
    then show ?thesis
      using Some r refill_nonneg [of "ls_clock s - lastSeen b" r]
      by (auto simp: potential_def bucket_ok_def bucket_credit_def)
  next
    case None
    then show ?thesis
      using inv(3) request_time_clock [OF ok, of ip] refill_nonneg [OF _ r]
      by (auto simp: potential_def split: option.split)
  qed
qed

text \<open>A request pays for its token.\<close>

lemma potential_take:
  assumes "params_ok (ls_limiter s)" "rate (ls_limiter s) = Fin r" "bucket_ok (ls_limiter s) now b"
    and "bucket_of (ls_limiter s') ip = Some (snd (bucket_take (ls_limiter s) now b))"
  shows "potential r ip s' + of_bool (fst (bucket_take (ls_limiter s) now b))
    \<le> bucket_credit b + refill r (ls_clock s' - lastSeen b) + of_int (burst (ls_limiter s)) / 2 ^ 51"
proof -
  let ?t = "bucket_take (ls_limiter s) now b"
  have "lastSeen (snd ?t) = now" by (simp add: bucket_take_def Let_def)
  then have pot: "potential r ip s' = bucket_credit (snd ?t) + refill r (ls_clock s' - now)"
    using assms(4) by (simp add: potential_def)
  have "bucket_credit (snd ?t) + of_bool (fst ?t)
      \<le> bucket_credit b + refill r (now - lastSeen b) + of_int (burst (ls_limiter s)) / 2 ^ 51"
    using bucket_take_credit [OF assms(1,3)]
    by (auto simp: bucket_gain_refill [OF assms(2)] add.assoc split: if_splits)
  moreover have "refill r (now - lastSeen b) + refill r (ls_clock s' - now) = refill r (ls_clock s' - lastSeen b)"
    by (simp add: refill_diff)
  ultimately show ?thesis unfolding pot by linarith
qed

lemma system_ok_params:
  assumes "system_ok s" "rate (ls_limiter s) = Fin r"
  shows "limiter_inv (ls_limiter s)" "params_ok (ls_limiter s)" "0 \<le> r" "0 \<le> burst (ls_limiter s)"
  using assms by (auto simp: system_ok_def tokens_inv_def params_ok_def)

lemma potential_Found:
  assumes ok: "system_ok s" "rate (ls_limiter s) = Fin r"
    and st: "getShard (ls_limiter s) ip = Some i" "ls_locks s i = None" "ls_clock s \<le> now"
      "map_of (shards (ls_limiter s) ! i) ip = Some b" "allow_take i now ip b (ls_limiter s) = (g, l)"
  defines "s' \<equiv> s\<lparr>ls_limiter := l, ls_clock := now\<rparr>"
  shows "potential r ip' s' + of_bool (ip = ip' \<and> g)
    \<le> potential r ip' s + refill r (now - ls_clock s) + of_bool (ip = ip') * of_int (burst (ls_limiter s)) / 2 ^ 51"
proof -
  note par = system_ok_params [OF ok] and ch = Found_change [OF ok(1) st(1,3-5)]
  have bo: "bucket_of (ls_limiter s') ip' =
      (if ip' = ip then Some (snd (bucket_take (ls_limiter s) now b)) else bucket_of (ls_limiter s) ip')"
    using ch bucket_of_update [OF par(1) st(1)] by (simp add: s'_def)
  show ?thesis
  proof (cases "ip' = ip")
    case True
    have "bucket_of (ls_limiter s) ip = Some b" using st(1,4) by (simp add: bucket_of_def)
    then have "bucket_credit b + refill r (ls_clock s' - lastSeen b) = potential r ip s + refill r (now - ls_clock s)"
      by (simp add: potential_def s'_def refill_diff)
    then show ?thesis
      using potential_take [OF par(2) ok(2) conjunct1 [OF conjunct2 [OF ch]], of s' ip] bo ch True by simp
  next
    case False
    moreover have "request_time s' ip' = request_time s ip'"
      using request_time_change [of s' s i None ip'] st(1,2) ch
      by (auto simp: s'_def request_time_shard fun_upd_idem)
    ultimately show ?thesis
      using potential_idle [of s' ip' s r] bo ch st(3) par(3) by (simp add: s'_def)
  qed
qed

lemma potential_Create:
  assumes ok: "system_ok s" "rate (ls_limiter s) = Fin r"
    and st: "ls_locks s i = Some (Hold_Create ip now)" "allow_create i now ip (ls_limiter s) = (g, l)"
  defines "s' \<equiv> s\<lparr>ls_limiter := l, ls_locks := (ls_locks s)(i := None)\<rparr>"
  shows "potential r ip' s' + of_bool (ip = ip' \<and> g)
    \<le> potential r ip' s + of_bool (ip = ip') * of_int (burst (ls_limiter s)) / 2 ^ 51"
proof -
  note par = system_ok_params [OF ok] and ch = Create_change [OF ok(1) st] and rq = locks_inv_request [OF ok(1) st(1), of ip now]
  let ?b = "new_bucket (ls_limiter s) now"
  have bo: "bucket_of (ls_limiter s') ip' =
      (if ip' = ip then Some (snd (bucket_take (ls_limiter s) now ?b)) else bucket_of (ls_limiter s) ip')"
    using ch bucket_of_update [OF par(1), of ip i] rq by (simp add: s'_def)
  show ?thesis
  proof (cases "ip' = ip")
    case True
    have "bucket_credit ?b = of_int (burst (ls_limiter s))" "lastSeen ?b = now"
      using par(2) by (auto simp: new_bucket_def bucket_credit_def params_ok_def f64_of_int_exact)
    moreover have "bucket_of (ls_limiter s) ip = None" "request_time s ip = Some now"
      using rq st(1) by (simp_all add: bucket_of_def request_time_shard)
    ultimately have "bucket_credit ?b + refill r (ls_clock s' - lastSeen ?b) = potential r ip s"
      by (simp add: potential_def s'_def)
    then show ?thesis
      using potential_take [OF par(2) ok(2), of now ?b s' ip] bo ch True by simp
  next
    case False
    moreover have "request_time s' ip' = request_time s ip'"
      using request_time_change [of s' s i None ip'] False st(1) ch
      by (auto simp: s'_def request_time_shard)
    ultimately show ?thesis
      using potential_idle [of s' ip' s r] bo ch par(3) by (simp add: s'_def refill_def)
  qed
qed

text \<open>Dropping a bucket gives away a full one at most, and nothing if it is full again.\<close>

lemma potential_drop:
  assumes ok: "system_ok s" "0 \<le> r"
    and s': "ls_limiter s' = set_shard i x (ls_limiter s)" "i < length (shards (ls_limiter s))"
      "ls_clock s' = ls_clock s" "ls_locks s' = (ls_locks s)(i := h)"
    and h: "request_of ip h = request_of ip (ls_locks s i)"
    and x: "\<not> d \<Longrightarrow> map_of x ip = map_of (shards (ls_limiter s) ! i) ip"
      "d \<Longrightarrow> getShard (ls_limiter s) ip = Some i \<Longrightarrow> map_of x ip = None \<and> request_of ip h = None"
  shows "potential r ip s' \<le> potential r ip s + of_bool d * of_int (burst (ls_limiter s))"
proof (cases "d \<and> getShard (ls_limiter s) ip = Some i")
  case True
  have inv: "limiter_inv (ls_limiter s)" using ok by (simp add: system_ok_def)
  have "bucket_of (ls_limiter s') ip = None" "request_time s' ip = None"
    using True x s' bucket_of_set_shard [OF inv s'(2)] request_time_change [of s' s i h ip] by simp_all
  then have "potential r ip s' = of_int (burst (ls_limiter s))" by (simp add: potential_def s'(1))
  then show ?thesis using True potential_nonneg [OF ok] by simp
next
  case False
  have inv: "limiter_inv (ls_limiter s)" and B: "0 \<le> burst (ls_limiter s)"
    using ok by (auto simp: system_ok_def tokens_inv_def params_ok_def)
  have "bucket_of (ls_limiter s') ip = bucket_of (ls_limiter s) ip"
    using False x(1) s' bucket_of_set_shard [OF inv s'(2)] by (auto simp: bucket_of_def)
  moreover have "request_time s' ip = request_time s ip"
    using request_time_change [of s' s i h ip] s' h by (auto simp: request_time_shard)
  ultimately show ?thesis
    using potential_idle [of s' ip s r] s' ok(2) B by (simp add: refill_def)
qed

lemma full_again:
  assumes "bucket_ok l t b" "stale l now b" "now \<le> t" "refills_before_cleanup (cleanupAge l) B r" "0 \<le> r"
  shows "of_int B \<le> bucket_credit b + refill r (t - lastSeen b)"
proof -
  have "0 \<le> bucket_credit b" using assms(1) by (auto simp: bucket_ok_def bucket_credit_def)
  moreover have age: "0 \<le> cleanupAge l" using assms(4) by (simp add: refills_before_cleanup_def)
  then have idle: "cleanupAge l \<le> t - lastSeen b"
    using assms(2,3) by (auto simp: stale_def time_Sub_def max_def min_def split: if_splits)
  then have "of_int (cleanupAge l) \<le> (of_int (t - lastSeen b) :: rat)" by (simp only: of_int_le_iff)
  then have "of_int (cleanupAge l) / of_int time_Second * r \<le> (of_int (t - lastSeen b) / of_int time_Second * r :: rat)"
    using assms(5) by (intro mult_right_mono divide_right_mono) simp_all
  then have "of_int B \<le> (of_int (t - lastSeen b) / of_int time_Second * r :: rat)"
    using assms(4) by (simp add: refills_before_cleanup_def)
  moreover have "of_int (t - lastSeen b) / of_int time_Second * r \<le> refill r (t - lastSeen b)"
  proof -
    have "0 \<le> t - lastSeen b" using age idle by linarith
    then have "0 \<le> (of_int (t - lastSeen b) :: rat)" by (simp only: of_int_0_le_iff)
    then have "0 \<le> of_int (t - lastSeen b) / of_int time_Second * r" using assms(5) by simp
    then show ?thesis by (simp add: refill_def mult.commute)
  qed
  ultimately show ?thesis by linarith
qed

lemma potential_Evict:
  assumes ok: "system_ok s" "0 \<le> r" and h: "ls_locks s i = Some (Hold_Evict ip now)"
  shows "potential r ip' (s\<lparr>ls_limiter := evictOldestFromShard order i (ls_limiter s),
      ls_locks := (ls_locks s)(i \<mapsto> Hold_Create ip now)\<rparr>)
    \<le> potential r ip' s + of_bool (is_evicted ip' (Lim_Evict ip (evict_scan (shards (ls_limiter s) ! i) order [] 0)))
        * of_int (burst (ls_limiter s))"
proof -
  note rq = locks_inv_request [OF ok(1) h, of ip now]
  have "map_of (shards (ls_limiter s) ! i) ip' \<noteq> None" if "evict_scan (shards (ls_limiter s) ! i) order [] 0 = ip'" "ip' \<noteq> []"
    using that evict_scan_mem [of "shards (ls_limiter s) ! i" order "[]" 0] by (auto simp: map_of_eq_None_iff)
  then have "evict_scan (shards (ls_limiter s) ! i) order [] 0 = ip' \<Longrightarrow> ip' \<noteq> [] \<Longrightarrow> ip \<noteq> ip'" using rq by auto
  then show ?thesis
    by (intro potential_drop [OF ok, where i = i and x = "evicted order (shards (ls_limiter s) ! i)"
        and h = "Some (Hold_Create ip now)"])
      (use rq h Evict_change [OF ok(1)] in \<open>auto simp: evicted_def Let_def delete_conv\<close>)
qed

lemma potential_Delete:
  assumes ok: "system_ok s" "0 \<le> r"
    and st: "ls_cleanup s = Some (now, i)" "ls_locks s i = Some Hold_Cleanup"
      "map_of (shards (ls_limiter s) ! i) ip = Some b" "stale (ls_limiter s) now b"
  shows "potential r ip' (s\<lparr>ls_limiter := delete_bucket i ip (ls_limiter s)\<rparr>)
    \<le> potential r ip' s + of_bool (ip = ip' \<and>
        \<not> refills_before_cleanup (cleanupAge (ls_limiter s)) (burst (ls_limiter s)) r) * of_int (burst (ls_limiter s))"
proof -
  let ?s = "s\<lparr>ls_limiter := delete_bucket i ip (ls_limiter s)\<rparr>"
  have inv: "limiter_inv (ls_limiter s)" using ok by (simp add: system_ok_def)
  have i: "i < length (shards (ls_limiter s))" using locks_inv_lock [OF ok(1) st(2)] by (simp add: lock_ok_def)
  have ch: "ls_limiter ?s = set_shard i (AList.delete ip (shards (ls_limiter s) ! i)) (ls_limiter s)"
    "bucket_ok (ls_limiter s) (ls_clock s) b" using Delete_change [OF ok(1) i st(3)] by simp_all
  have drop: "potential r ip' ?s \<le> potential r ip' s + of_bool (ip = ip') * of_int (burst (ls_limiter s))"
    by (rule potential_drop [OF ok ch(1) i, where h = "Some Hold_Cleanup"])
      (use st(2) in \<open>auto simp: delete_conv\<close>)
  show ?thesis
  proof (cases "ip = ip' \<and> refills_before_cleanup (cleanupAge (ls_limiter s)) (burst (ls_limiter s)) r")
    case True
    have shard: "getShard (ls_limiter s) ip = Some i"
      using inv i map_of_SomeD [OF st(3)] by (force simp: limiter_inv_def)
    then have "bucket_of (ls_limiter s) ip = Some b" using st(3) by (simp add: bucket_of_def)
    then have "of_int (burst (ls_limiter s)) \<le> potential r ip s"
      using full_again [OF ch(2) st(4) locks_inv_cleanup [OF ok(1) st(1)] _ ok(2)] True by (simp add: potential_def)
    moreover have "bucket_of (ls_limiter ?s) ip = None"
      unfolding ch(1) using shard by (simp add: bucket_of_set_shard [OF inv i] delete_conv)
    moreover have "request_time ?s ip = None"
      using request_time_change [of ?s s i "Some Hold_Cleanup" ip] ch(1) st(2) shard by (simp add: fun_upd_idem)
    ultimately show ?thesis using True ch(1) by (simp add: potential_def)
  qed (use drop in auto)
qed

text \<open>No step changes the parameters, and the clock does not go back.\<close>

lemma step_params:
  assumes "limiter_step s e s'"
  shows "rate (ls_limiter s') = rate (ls_limiter s) \<and> burst (ls_limiter s') = burst (ls_limiter s) \<and>
    cleanupAge (ls_limiter s') = cleanupAge (ls_limiter s) \<and>
    maxBuckets (ls_limiter s') = maxBuckets (ls_limiter s) \<and>
    shardCount (ls_limiter s') = shardCount (ls_limiter s) \<and> ls_clock s \<le> ls_clock s'"
  using assms
proof cases
  case (Close l)
  then show ?thesis using Close_fields by simp
qed (auto simp: allow_take_def allow_create_def evictOldestFromShard_def delete_bucket_def Let_def split: prod.splits)

lemma quota_inv_step:
  assumes "limiter_step s e s'" "quota_inv r B age s" shows "quota_inv r B age s'"
  using assms system_ok_step [OF assms(1)] step_params [OF assms(1)] by (simp add: quota_inv_def)

lemma potential_same:
  assumes "limiter_step s e s'" "0 \<le> r" "shards (ls_limiter s') = shards (ls_limiter s)"
    and "\<And>i. request_of ip (ls_locks s' i) = request_of ip (ls_locks s i)"
  shows "potential r ip s' \<le> potential r ip s + refill r (ls_clock s' - ls_clock s)"
proof (rule potential_idle)
  have "getShard (ls_limiter s') ip = getShard (ls_limiter s) ip"
    using step_params [OF assms(1)] by (intro getShard_cong) simp
  then show "bucket_of (ls_limiter s') ip = bucket_of (ls_limiter s) ip" "request_time s' ip = request_time s ip"
    using assms(3,4) by (simp_all add: bucket_of_def request_time_def split: option.split)
qed (use assms(2) step_params [OF assms(1)] in simp_all)

lemma potential_Lock:
  assumes ok: "system_ok s" "0 \<le> r"
    and st: "getShard (ls_limiter s) ip = Some i" "ls_locks s i = None" "ls_clock s \<le> now"
      "map_of (shards (ls_limiter s) ! i) ip = None"
  shows "potential r ip' (s\<lparr>ls_locks := (ls_locks s)(i \<mapsto> Hold_New ip now), ls_clock := now\<rparr>)
    \<le> potential r ip' s + refill r (now - ls_clock s)"
proof (cases "ip' = ip")
  case True
  then show ?thesis
    using st refill_nonneg [OF _ ok(2), of "now - ls_clock s"]
    by (simp add: potential_def bucket_of_def request_time_shard) (simp add: refill_def)
next
  case False
  then show ?thesis
    by (intro potential_same [OF limiter_step.Lock [OF st] ok(2), simplified]) (use st in auto)
qed

lemma potential_step:
  assumes inv: "quota_inv r B age s" and step: "limiter_step s e s'"
  shows "potential r ip s' + of_bool (is_granted ip e)
    \<le> potential r ip s + refill r (ls_clock s' - ls_clock s) + event_cost r B age ip e"
proof -
  have ok: "system_ok s" "rate (ls_limiter s) = Fin r" and B: "burst (ls_limiter s) = B" "cleanupAge (ls_limiter s) = age"
    using inv by (auto simp: quota_inv_def)
  note par = system_ok_params [OF ok]
  note idle = potential_same [OF step par(3), of ip]
  have B0: "0 \<le> B" using par(4) B by simp
  show ?thesis
    using step
  proof cases
    case (Found ip' i now b g l)
    then show ?thesis using potential_Found [OF ok Found(3-7), of ip] B by (simp add: event_cost_def)
  next
    case (Lock ip' i now)
    then show ?thesis using potential_Lock [OF ok(1) par(3) Lock(3-6), of ip] by (simp add: event_cost_def)
  next
    case (Evict i ip' now order)
    then show ?thesis
      using potential_Evict [OF ok(1) par(3) Evict(3), of ip order] B by (simp add: event_cost_def refill_def)
  next
    case (Create i ip' now g l)
    then show ?thesis using potential_Create [OF ok Create(3,4), of ip] B by (simp add: event_cost_def refill_def)
  next
    case (Delete now i ip' b)
    then show ?thesis
      using potential_Delete [OF ok(1) par(3) Delete(3-6), of ip] B by (simp add: event_cost_def refill_def)
  next
    case (Close l)
    then show ?thesis using idle Close_fields [OF Close(3)] by (simp add: event_cost_def)
  qed (use idle in \<open>simp_all add: event_cost_def split: if_splits\<close>)
qed

interpretation address_quota: quota
  limiter_step "quota_inv r B age" "is_granted ip" "potential r ip" "\<lambda>s. refill r (ls_clock s)"
  "event_cost r B age ip" for r B age ip
proof unfold_locales
  fix s e s'
  assume "quota_inv r B age s" "limiter_step s e s'"
  then show "quota_inv r B age s'" "potential r ip s' + of_bool (is_granted ip e)
      \<le> potential r ip s + (refill r (ls_clock s') - refill r (ls_clock s)) + event_cost r B age ip e"
    using quota_inv_step potential_step [of r B age s e s' ip] by (blast, simp add: refill_diff)
next
  fix s
  assume "quota_inv r B age s"
  then show "0 \<le> potential r ip s"
    using system_ok_params [of s r] by (intro potential_nonneg) (auto simp: quota_inv_def)
qed

lemma evicted_shorter:
  assumes "mset order = mset (map fst s)" "[] \<notin> set (map fst s)" "distinct (map fst s)" "s \<noteq> []"
  shows "Suc (length (evicted order s)) = length s"
proof -
  have keys: "set order = set (map fst s)" using assms(1) by (metis set_mset_mset)
  moreover have "order \<noteq> []" using assms(1,4) by auto
  ultimately have "evict_scan s order [] 0 \<noteq> []"
    using evict_scan_oldest [of order s "[]" 0] assms(2) by (auto simp: map_of_eq_None_iff)
  then show ?thesis using length_evicted [OF assms(3), of order] assms(4) by (cases s) auto
qed

text \<open>
  The limit on the number of buckets is overshot by less than the number of shards: what a
  shard gains beyond the limit is paid for by the shard itself, which was empty, has lost a
  bucket, or saw a counter below the limit.
\<close>

lemma slack_change:
  assumes "i < length (shards (ls_limiter s))" "length (shards (ls_limiter s')) = length (shards (ls_limiter s))"
    and "\<And>j. j \<noteq> i \<Longrightarrow> may_add s' j = may_add s j"
  shows "slack s' + of_bool (may_add s i) = slack s + of_bool (may_add s' i)"
proof -
  let ?N = "{..<length (shards (ls_limiter s))}"
  have "slack t = of_bool (may_add t i) + (\<Sum>j \<in> ?N - {i}. of_bool (may_add t j))"
    if "length (shards (ls_limiter t)) = length (shards (ls_limiter s))" for t
    unfolding slack_def that using assms(1) by (intro sum.remove) simp_all
  moreover have "(\<Sum>j \<in> ?N - {i}. of_bool (may_add s' j)) = (\<Sum>j \<in> ?N - {i}. of_bool (may_add s j) :: int)"
    using assms(3) by (intro sum.cong) auto
  ultimately show ?thesis using assms(2) by simp
qed

lemma slack_le: "slack s \<le> int (length (shards (ls_limiter s)))"
proof -
  have "slack s \<le> (\<Sum>i < length (shards (ls_limiter s)). 1)" unfolding slack_def by (rule sum_mono) simp
  then show ?thesis by simp
qed

lemma cap_change:
  assumes cap: "cap_inv s" and i: "i < length (shards (ls_limiter s))"
    and s': "ls_limiter s' = set_shard i x (ls_limiter s)" "ls_locks s' = (ls_locks s)(i := h)"
    and x: "[] \<notin> set (map fst x)" "request_of [] h = None"
    and len: "int (length x) + of_bool (may_add s' i) \<le> int (length (shards (ls_limiter s) ! i)) + of_bool (may_add s i)"
  shows "cap_inv s'"
proof -
  have "slack s' + of_bool (may_add s i) = slack s + of_bool (may_add s' i)"
    by (rule slack_change [OF i]) (use s' in \<open>simp_all add: may_add_def\<close>)
  then have "bucketCount (ls_limiter s') + slack s' \<le> bucketCount (ls_limiter s) + slack s"
    using len s'(1) by simp
  moreover have "\<forall>y \<in> set ((shards (ls_limiter s))[i := x]). [] \<notin> set (map fst y)"
    using cap x(1) by (intro ball_list_update) (simp_all add: cap_inv_def)
  ultimately show ?thesis using cap s' x(2) by (auto simp: cap_inv_def)
qed

lemma cap_lock:
  assumes cap: "cap_inv s" and i: "i < length (shards (ls_limiter s))"
    and s': "ls_limiter s' = ls_limiter s" "ls_locks s' = (ls_locks s)(i := h)"
    and h: "request_of [] h = None" "may_add s' i \<Longrightarrow> may_add s i"
  shows "cap_inv s'"
proof (rule cap_change [OF cap i])
  show "[] \<notin> set (map fst (shards (ls_limiter s) ! i))" using cap i by (simp add: cap_inv_def)
qed (use s' h i in \<open>simp_all add: set_shard_same\<close>)

lemma cap_Evict:
  assumes ok: "system_ok s" and cap: "cap_inv s" and h: "ls_locks s i = Some (Hold_Evict ip now)"
    and order: "mset order = mset (map fst (shards (ls_limiter s) ! i))"
  shows "cap_inv (s\<lparr>ls_limiter := evictOldestFromShard order i (ls_limiter s),
      ls_locks := (ls_locks s)(i \<mapsto> Hold_Create ip now)\<rparr>)"
proof -
  let ?x = "shards (ls_limiter s) ! i"
  have i: "i < length (shards (ls_limiter s))" using locks_inv_lock [OF ok h] by (simp add: lock_ok_def)
  have "request_of [] (ls_locks s i) \<noteq> Some now" using cap by (simp add: cap_inv_def)
  then have ip: "ip \<noteq> []" using h by auto
  have x: "[] \<notin> set (map fst ?x)" "distinct (map fst ?x)"
    using cap i ok by (simp_all add: cap_inv_def system_ok_def limiter_inv_def)
  have "int (length (evicted order ?x)) + 1 \<le> int (length ?x) + of_bool (may_add s i)"
  proof (cases "?x = []")
    case True
    then have "evicted order ?x = []" using evict_scan_mem [of "[]" order "[]" 0] by (simp add: evicted_def)
    then show ?thesis using True by (simp add: may_add_def)
  next
    case False
    then show ?thesis using evicted_shorter [OF order x False] by simp
  qed
  then show ?thesis
    by (intro cap_change [OF cap i, where x = "evicted order ?x" and h = "Some (Hold_Create ip now)"])
      (use Evict_change [OF ok i] evicted_keys [of order ?x] x ip in \<open>auto simp: may_add_def\<close>)
qed

lemma cap_Check:
  assumes ok: "system_ok s" and cap: "cap_inv s" and h: "ls_locks s i = Some (Hold_New ip now)"
  shows "cap_inv (s\<lparr>ls_locks := (ls_locks s)(i \<mapsto>
      if at_limit (ls_limiter s) then Hold_Evict ip now else Hold_Create ip now)\<rparr>)" (is "cap_inv ?s")
proof -
  have i: "i < length (shards (ls_limiter s))" using locks_inv_lock [OF ok h] by (simp add: lock_ok_def)
  have "request_of [] (ls_locks s i) \<noteq> Some now" using cap by (simp add: cap_inv_def)
  then have ip: "ip \<noteq> []" using h by auto
  show ?thesis
  proof (cases "at_limit (ls_limiter s)")
    case True
    show ?thesis
      by (rule cap_lock [OF cap i, where h = "Some (Hold_Evict ip now)"]) (use True ip in \<open>auto simp: may_add_def\<close>)
  next
    case False
    then have "bucketCount (ls_limiter s) < maxBuckets (ls_limiter s)"
      using cap by (simp add: at_limit_def totalBuckets_def cap_inv_def)
    moreover have "slack ?s \<le> shardCount (ls_limiter s)"
      using slack_le [of ?s] ok by (simp add: system_ok_def limiter_inv_def)
    ultimately show ?thesis using cap ip False by (auto simp: cap_inv_def)
  qed
qed

lemma length_delete_less:
  assumes "map_of x ip = Some b" shows "length (AList.delete ip x) < length x"
proof -
  have "(ip, b) \<in> set x" using assms by (rule map_of_SomeD)
  then show ?thesis unfolding AList.delete_eq by (rule length_filter_less) simp
qed

lemma cap_inv_step:
  assumes step: "limiter_step s e s'" and ok: "system_ok s" and cap: "cap_inv s"
    and ip: "\<And>now. e \<noteq> Lim_Lock [] now"
  shows "cap_inv s'"
proof -
  let ?l = "ls_limiter s"
  have keys: "i < length (shards ?l) \<Longrightarrow> [] \<notin> set (map fst (shards ?l ! i))" for i
    using cap by (simp add: cap_inv_def)
  show ?thesis
    using step
  proof cases
    case (Found ip i now b g l)
    note ch = Found_change [OF ok Found(3,5-7)]
    have mem: "ip \<in> fst ` set (shards ?l ! i)" using map_of_SomeD [OF Found(6)] by force
    then have "ip \<noteq> []" using keys [OF conjunct1 [OF ch]] by (metis set_map)
    moreover have "(ls_locks s)(i := None) = ls_locks s" using Found(4) by (simp add: fun_upd_idem)
    ultimately show ?thesis
      by (intro cap_change [OF cap, where i = i and h = None
            and x = "AList.update ip (snd (bucket_take ?l now b)) (shards ?l ! i)"])
        (use ch Found keys [of i] mem in \<open>simp_all add: may_add_def length_AList_update update_nonempty dom_update\<close>)
  next
    case (Lock ip' i now)
    then have "i < length (shards ?l)" "ip' \<noteq> []"
      using getShard_less [of ?l ip'] ok ip by (auto simp: system_ok_def)
    then show ?thesis
      by (intro cap_lock [OF cap, where i = i and h = "Some (Hold_New ip' now)"]) (use Lock in \<open>auto simp: may_add_def\<close>)
  next
    case (Check i ip' now)
    then show ?thesis using cap_Check [OF ok cap] by simp
  next
    case (Evict i ip' now order)
    then show ?thesis using cap_Evict [OF ok cap] by simp
  next
    case (Create i ip' now g l)
    note rq = locks_inv_request [OF ok Create(3), of ip' now] and ch = Create_change [OF ok Create(3,4)]
    have new: "ip' \<notin> fst ` set (shards ?l ! i)" using rq by (simp add: map_of_eq_None_iff)
    have "request_of [] (ls_locks s i) \<noteq> Some now" using cap by (simp add: cap_inv_def)
    then have "ip' \<noteq> []" using Create(3) by auto
    then show ?thesis
      by (intro cap_change [OF cap, where i = i and h = None
            and x = "AList.update ip' (snd (bucket_take ?l now (new_bucket ?l now))) (shards ?l ! i)"])
        (use ch Create keys [of i] rq new in \<open>simp_all add: may_add_def length_AList_update update_nonempty dom_update\<close>)
  next
    case (CleanupLock now i)
    show ?thesis
      by (rule cap_lock [OF cap CleanupLock(4), where h = "Some Hold_Cleanup"]) (use CleanupLock in \<open>auto simp: may_add_def\<close>)
  next
    case (Delete now i ip' b)
    have i: "i < length (shards ?l)" using locks_inv_lock [OF ok Delete(4)] by (simp add: lock_ok_def)
    then show ?thesis
      by (intro cap_change [OF cap, where i = i and h = "Some Hold_Cleanup" and x = "AList.delete ip' (shards ?l ! i)"])
        (use Delete_change [OF ok i Delete(5)] Delete keys [of i] length_delete_less [OF Delete(5)]
          in \<open>auto simp: may_add_def AList.delete_eq\<close>)
  next
    case (CleanupUnlock now i)
    have i: "i < length (shards ?l)" using locks_inv_lock [OF ok CleanupUnlock(4)] by (simp add: lock_ok_def)
    show ?thesis
      by (rule cap_lock [OF cap i, where h = None]) (use CleanupUnlock in \<open>auto simp: may_add_def\<close>)
  next
    case (Close l)
    then show ?thesis using cap Close_fields [OF Close(3)] by (simp add: cap_inv_def slack_def may_add_def)
  qed (use cap in \<open>simp_all add: cap_inv_def slack_def may_add_def\<close>)
qed

subsection \<open>Clean-up of all shards\<close>

lemma cleanup_shards_bucket:
  assumes "limiter_inv l" "distinct is" "set is \<subseteq> {..<length (shards l)}"
  shows "limiter_inv (fold (cleanup_shard now) is l) \<and>
    length (shards (fold (cleanup_shard now) is l)) = length (shards l) \<and>
    bucket_of (fold (cleanup_shard now) is l) ip =
      (case getShard l ip of
         None \<Rightarrow> None
       | Some i \<Rightarrow> if i \<in> set is then Option.bind (bucket_of l ip) (\<lambda>b. if stale l now b then None else Some b)
                   else bucket_of l ip)"
  using assms
proof (induction "is" arbitrary: l)
  case Nil
  then show ?case using getShard_less [OF Nil.prems(1), of ip] by auto
next
  case (Cons j js)
  let ?l = "cleanup_shard now j l"
  have j: "j < length (shards l)" using Cons.prems(3) by simp
  have same: "getShard ?l ip = getShard l ip" "length (shards ?l) = length (shards l)" "stale ?l = stale l"
    by (rule getShard_cong) (simp_all add: cleanup_shard_set_shard stale_def fun_eq_iff)
  obtain i where i: "getShard l ip = Some i" using getShard_less [OF Cons.prems(1)] by blast
  have step: "bucket_of ?l ip = (if i = j
      then Option.bind (bucket_of l ip) (\<lambda>b. if stale l now b then None else Some b) else bucket_of l ip)"
    unfolding cleanup_bucket [OF Cons.prems(1) j] i by (simp split: option.split)
  have "limiter_inv ?l" "distinct js" "set js \<subseteq> {..<length (shards ?l)}" "j \<notin> set js"
    using Cons.prems(2,3) same(2) cleanup_shard_inv [OF Cons.prems(1) j] by auto
  note IH = Cons.IH [OF this(1-3)] and fresh = this(4)
  show ?case
  proof (cases "i = j")
    case True
    then show ?thesis using IH fresh unfolding same i step by simp
  next
    case False
    then show ?thesis using IH unfolding same i step by simp
  qed
qed

lemma cleanup_bucket_of:
  assumes "limiter_inv l"
  shows "bucket_of (cleanup now l) ip =
    (case bucket_of l ip of
       None \<Rightarrow> None
     | Some b \<Rightarrow> if time_Sub now (lastSeen b) > cleanupAge l then None else Some b)"
proof -
  obtain i where "getShard l ip = Some i" "i < length (shards l)" using getShard_less [OF assms] by blast
  then show ?thesis
    using cleanup_shards_bucket [OF assms, of "[0..<length (shards l)]" now ip]
    by (auto simp: cleanup_def stale_def lessThan_atLeast0 split: option.split)
qed

subsection \<open>The operations on their own are executions\<close>

lemma Allow_runs:
  assumes "getShard (ls_limiter s) ip = Some i" "ls_locks s i = None" "ls_clock s \<le> now"
    and "mset order = mset (map fst (shards (ls_limiter s) ! i))"
    and al: "Allow order now ip (ls_limiter s) = Some (ok, l)"
  shows "\<exists>es. runs limiter_step s es (s\<lparr>ls_limiter := l, ls_clock := now\<rparr>) \<and>
    requests ip es = 1 \<and> granted ip es = of_bool ok \<and> (\<forall>ip' now. Lim_Lock ip' now \<in> set es \<longrightarrow> ip' = ip)"
proof (cases "map_of (shards (ls_limiter s) ! i) ip")
  case (Some b)
  then have "allow_take i now ip b (ls_limiter s) = (ok, l)" using al assms(1) by (simp add: Allow_def)
  note step = runs_step [where step = limiter_step, OF limiter_step.Found [OF assms(1-3) Some this]]
  show ?thesis using step by (intro exI [of _ "[Lim_Found ip now ok]"]) (simp add: requests_def granted_def)
next
  case None
  let ?l = "ls_limiter s" and ?h = "\<lambda>h. (ls_locks s)(i \<mapsto> h)"
  let ?l' = "if at_limit ?l then evictOldestFromShard order i ?l else ?l"
  have cr: "allow_create i now ip ?l' = (ok, l)" using al assms(1) None by (simp add: Allow_def)
  have unlock: "(ls_locks s)(i := None) = ls_locks s" using assms(2) by (simp add: fun_upd_idem)
  have 1: "limiter_step s (Lim_Lock ip now) (s\<lparr>ls_locks := ?h (Hold_New ip now), ls_clock := now\<rparr>)"
    by (rule limiter_step.Lock [OF assms(1-3) None])
  have 2: "limiter_step (s\<lparr>ls_locks := ?h (Hold_New ip now), ls_clock := now\<rparr>) (Lim_Check ip)
      (s\<lparr>ls_locks := ?h (if at_limit ?l then Hold_Evict ip now else Hold_Create ip now), ls_clock := now\<rparr>)"
    using limiter_step.Check [of "s\<lparr>ls_locks := ?h (Hold_New ip now), ls_clock := now\<rparr>" i ip now] by (cases s) simp
  have 4: "limiter_step (s\<lparr>ls_limiter := ?l', ls_locks := ?h (Hold_Create ip now), ls_clock := now\<rparr>) (Lim_Create ip ok)
      (s\<lparr>ls_limiter := l, ls_clock := now\<rparr>)"
    using limiter_step.Create [of "s\<lparr>ls_limiter := ?l', ls_locks := ?h (Hold_Create ip now), ls_clock := now\<rparr>" i ip now ok l] cr unlock
    by (cases s) simp
  show ?thesis
  proof (cases "at_limit ?l")
    case False
    then have "runs limiter_step s [Lim_Lock ip now, Lim_Check ip, Lim_Create ip ok] (s\<lparr>ls_limiter := l, ls_clock := now\<rparr>)"
      using 1 2 4 by (auto intro!: runs_Cons runs.Nil)
    then show ?thesis
      by (intro exI [of _ "[Lim_Lock ip now, Lim_Check ip, Lim_Create ip ok]"]) (simp add: requests_def granted_def)
  next
    case True
    let ?old = "evict_scan (shards ?l ! i) order [] 0"
    have 3: "limiter_step (s\<lparr>ls_locks := ?h (Hold_Evict ip now), ls_clock := now\<rparr>) (Lim_Evict ip ?old)
        (s\<lparr>ls_limiter := ?l', ls_locks := ?h (Hold_Create ip now), ls_clock := now\<rparr>)"
      using limiter_step.Evict [of "s\<lparr>ls_locks := ?h (Hold_Evict ip now), ls_clock := now\<rparr>" i ip now order] True assms(4)
      by (cases s) simp
    have "runs limiter_step s [Lim_Lock ip now, Lim_Check ip, Lim_Evict ip ?old, Lim_Create ip ok] (s\<lparr>ls_limiter := l, ls_clock := now\<rparr>)"
      using 1 2 3 4 True by (auto intro!: runs_Cons runs.Nil)
    then show ?thesis
      by (intro exI [of _ "[Lim_Lock ip now, Lim_Check ip, Lim_Evict ip ?old, Lim_Create ip ok]"])
        (simp add: requests_def granted_def)
  qed
qed

text \<open>The clean-up of a shard, and of all of them.\<close>

lemma filter_delete:
  "distinct (map fst x) \<Longrightarrow> (k, v) \<in> set x \<Longrightarrow> \<not> P v \<Longrightarrow>
     filter (\<lambda>(k, v). P v) (AList.delete k x) = filter (\<lambda>(k, v). P v) x"
  unfolding AList.delete_eq filter_filter
  by (rule filter_cong) (auto dest: eq_key_imp_eq_value)

lemma deletes_runs:
  assumes "ls_cleanup s = Some (now, i)" "ls_locks s i = Some Hold_Cleanup" "i < length (shards (ls_limiter s))"
    and "distinct (map fst (shards (ls_limiter s) ! i))"
  shows "\<exists>es. runs limiter_step s es (s\<lparr>ls_limiter := cleanup_shard now i (ls_limiter s)\<rparr>)"
  using assms
proof (induction "length (shards (ls_limiter s) ! i)" arbitrary: s rule: less_induct)
  case less
  let ?l = "ls_limiter s" and ?x = "shards (ls_limiter s) ! i"
  show ?case
  proof (cases "\<exists>(ip, b) \<in> set ?x. stale ?l now b")
    case False
    then have "filter (\<lambda>(ip, b). \<not> stale ?l now b) ?x = ?x" by (auto simp: filter_id_conv)
    then have "cleanup_shard now i ?l = ?l"
      using less.prems(3) by (simp add: cleanup_shard_set_shard set_shard_same)
    then show ?thesis using runs.Nil [of limiter_step s] by auto
  next
    case True
    then obtain ip b where b: "(ip, b) \<in> set ?x" "stale ?l now b" by auto
    then have m: "map_of ?x ip = Some b" using less.prems(4) by simp
    let ?s = "s\<lparr>ls_limiter := delete_bucket i ip ?l\<rparr>"
    have d: "delete_bucket i ip ?l = set_shard i (AList.delete ip ?x) ?l" by (rule delete_set_shard [OF less.prems(4) m])
    have st: "stale (set_shard i y ?l) = stale ?l" for y by (simp add: stale_def fun_eq_iff)
    have same: "cleanup_shard now i (delete_bucket i ip ?l) = cleanup_shard now i ?l"
      using filter_delete [OF less.prems(4) b(1), of "\<lambda>v. \<not> stale ?l now v"] b(2) less.prems(3)
      by (simp add: cleanup_shard_set_shard d st) (simp add: set_shard_def)
    have "\<exists>es. runs limiter_step ?s es (?s\<lparr>ls_limiter := cleanup_shard now i (ls_limiter ?s)\<rparr>)"
      by (rule less.hyps) (use less.prems length_delete_less [OF m] in \<open>simp_all add: d distinct_delete\<close>)
    then show ?thesis
      using runs_Cons [where step = limiter_step, OF limiter_step.Delete [OF less.prems(1,2) m b(2)]] same by auto
  qed
qed

lemma cleanup_shard_runs:
  assumes "ls_cleanup s = Some (now, i)" "ls_locks s = Map.empty" "i < length (shards (ls_limiter s))"
    and "distinct (map fst (shards (ls_limiter s) ! i))"
  shows "\<exists>es. runs limiter_step s es
    (s\<lparr>ls_limiter := cleanup_shard now i (ls_limiter s), ls_cleanup := Some (now, Suc i)\<rparr>)"
proof -
  let ?s = "s\<lparr>ls_locks := (ls_locks s)(i \<mapsto> Hold_Cleanup)\<rparr>"
  let ?t = "?s\<lparr>ls_limiter := cleanup_shard now i (ls_limiter s)\<rparr>"
  have 1: "limiter_step s Lim_CleanupLock ?s" by (rule limiter_step.CleanupLock) (use assms in auto)
  obtain es where 2: "runs limiter_step ?s es ?t" using deletes_runs [of ?s now i] assms by auto
  have "limiter_step ?t Lim_CleanupUnlock (?t\<lparr>ls_locks := (ls_locks ?t)(i := None), ls_cleanup := Some (now, i + 1)\<rparr>)"
    by (rule limiter_step.CleanupUnlock)
      (use assms in \<open>auto simp: cleanup_shard_set_shard list_all_iff stale_def\<close>)
  moreover have "?t\<lparr>ls_locks := (ls_locks ?t)(i := None), ls_cleanup := Some (now, i + 1)\<rparr> =
      s\<lparr>ls_limiter := cleanup_shard now i (ls_limiter s), ls_cleanup := Some (now, Suc i)\<rparr>"
    using assms(2) by (cases s) (simp add: fun_eq_iff)
  ultimately show ?thesis
    using runs_append [OF runs_Cons [where step = limiter_step, OF 1 2] runs_step [where step = limiter_step]] by metis
qed

lemma cleanup_runs:
  assumes inv: "limiter_inv (ls_limiter s)" and s: "ls_loop s = Loop_Running" "ls_cleanup s = None"
    "ls_locks s = Map.empty" "ls_clock s \<le> now"
  shows "\<exists>es. runs limiter_step s es (s\<lparr>ls_limiter := cleanup now (ls_limiter s), ls_clock := now\<rparr>)"
proof -
  let ?l = "ls_limiter s" and ?n = "length (shards (ls_limiter s))"
  let ?at = "\<lambda>k. s\<lparr>ls_limiter := fold (cleanup_shard now) [0..<k] ?l, ls_clock := now, ls_cleanup := Some (now, k)\<rparr>"
  have "\<exists>es. runs limiter_step s es (?at k)" if "k \<le> ?n" for k
    using that
  proof (induction k)
    case 0
    have "limiter_step s (Lim_Cleanup now) (?at 0)" using limiter_step.Cleanup [OF s(1,2,4)] by simp
    then show ?case using runs_step by metis
  next
    case (Suc k)
    let ?lk = "fold (cleanup_shard now) [0..<k] ?l"
    have "set [0..<k] \<subseteq> {..<?n}" using Suc.prems by auto
    from cleanup_shards_bucket [OF inv distinct_upt this, of now] have "limiter_inv ?lk \<and> length (shards ?lk) = ?n"
      by blast
    then have "\<exists>es. runs limiter_step (?at k) es ((?at k)\<lparr>ls_limiter := cleanup_shard now k ?lk, ls_cleanup := Some (now, Suc k)\<rparr>)"
      using cleanup_shard_runs [of "?at k" now k] s(3) Suc.prems by (simp add: limiter_inv_def)
    moreover have "(?at k)\<lparr>ls_limiter := cleanup_shard now k ?lk, ls_cleanup := Some (now, Suc k)\<rparr> = ?at (Suc k)"
      by (cases s) simp
    ultimately show ?case using Suc runs_append by (metis Suc_leD)
  qed
  from this [of ?n] obtain es where run: "runs limiter_step s es (?at ?n)" by blast
  have "limiter_step (?at ?n) Lim_CleanupEnd ((?at ?n)\<lparr>ls_cleanup := None\<rparr>)"
    by (rule limiter_step.CleanupEnd [where now = now and i = ?n])
      (use cleanup_shards_bucket [OF inv, of "[0..<?n]" now] in \<open>simp_all add: lessThan_atLeast0\<close>)
  moreover have "(?at ?n)\<lparr>ls_cleanup := None\<rparr> = s\<lparr>ls_limiter := cleanup now ?l, ls_clock := now\<rparr>"
    using s(2) by (cases s) (simp add: cleanup_def)
  ultimately show ?thesis using runs.Snoc [OF run] by metis
qed

subsection \<open>A clean-up drops the bucket of an address once\<close>

lemma bucket_locked:
  assumes step: "limiter_step s e s'" and ok: "system_ok s" and ip: "getShard (ls_limiter s) ip = Some i"
    and lock: "ls_locks s i = Some Hold_Cleanup" and e: "\<not> is_deleted ip e"
  shows "bucket_of (ls_limiter s') ip = bucket_of (ls_limiter s) ip"
proof -
  have inv: "limiter_inv (ls_limiter s)" using ok by (simp add: system_ok_def)
  have frame: "bucket_of (set_shard j x (ls_limiter s)) ip = bucket_of (ls_limiter s) ip"
    if "j < length (shards (ls_limiter s))" "j \<noteq> i \<or> map_of x ip = map_of (shards (ls_limiter s) ! i) ip" for j x
    using that ip bucket_of_set_shard [OF inv that(1), of x ip] by (auto simp: bucket_of_def [of "ls_limiter s"])
  show ?thesis
    using step
  proof cases
    case (Found ip' j now b g l)
    then have "j \<noteq> i" using lock by auto
    then show ?thesis using Found_change [OF ok Found(3,5-7)] frame [of j] Found by simp
  next
    case (Evict j ip' now order)
    then have "j \<noteq> i" using lock by auto
    then show ?thesis
      using locks_inv_lock [OF ok Evict(3)] Evict_change [OF ok, of j order] frame [of j] Evict by (simp add: lock_ok_def)
  next
    case (Create j ip' now g l)
    then have "j \<noteq> i" using lock by auto
    then show ?thesis
      using locks_inv_lock [OF ok Create(3)] Create_change [OF ok Create(3,4)] frame [of j] Create by (simp add: lock_ok_def)
  next
    case (Delete now j ip' b)
    have "j < length (shards (ls_limiter s))" using locks_inv_lock [OF ok Delete(4)] by (simp add: lock_ok_def)
    then show ?thesis
      using Delete_change [OF ok _ Delete(5)] frame [of j "AList.delete ip' (shards (ls_limiter s) ! j)"] Delete e
      by (cases "j = i") (simp_all add: delete_conv)
  next
    case (Close l)
    then show ?thesis using Close_bucket by simp
  qed simp_all
qed

lemma to_delete_step:
  assumes step: "limiter_step s e s'" and ok: "system_ok s"
  shows "of_bool (to_delete ip s') + of_bool (is_deleted ip e) \<le> (of_bool (to_delete ip s) + of_bool (is_cleanup e) :: nat)"
proof -
  obtain i where i: "getShard (ls_limiter s) ip = Some i"
    using getShard_less ok by (force simp: system_ok_def)
  have i': "getShard (ls_limiter s') ip = Some i"
    using getShard_cong [of "ls_limiter s'" "ls_limiter s" ip] step_params [OF step] i by simp
  note locked = bucket_locked [OF step ok i]
  show ?thesis
    using step
  proof cases
    case (Delete now j ip' b)
    have j: "j < length (shards (ls_limiter s))" using locks_inv_lock [OF ok Delete(4)] by (simp add: lock_ok_def)
    have inv: "limiter_inv (ls_limiter s)" using ok by (simp add: system_ok_def)
    show ?thesis
    proof (cases "ip' = ip")
      case True
      have "(ip', b) \<in> set (shards (ls_limiter s) ! j)" by (rule map_of_SomeD [OF Delete(5)])
      then have "j = i" using True i inv j by (force simp: limiter_inv_def)
      moreover have "bucket_of (ls_limiter s') ip = None"
        using Delete_change [OF ok j Delete(5)] Delete True i \<open>j = i\<close>
          bucket_of_set_shard [OF inv j, of "AList.delete ip' (shards (ls_limiter s) ! j)" ip]
        by (simp add: delete_conv)
      ultimately show ?thesis using Delete True i i' by (simp add: to_delete_def bucket_of_def)
    next
      case False
      then show ?thesis using Delete i i' locked by (auto simp: to_delete_def)
    qed
  qed (use i i' locked in \<open>auto simp: to_delete_def split: if_splits option.splits\<close>)
qed

lemma deletions_le_cleanups:
  assumes "runs limiter_step s es s'" "system_ok s"
  shows "deletions ip es + of_bool (to_delete ip s') \<le> cleanups es + of_bool (to_delete ip s) \<and> system_ok s'"
  using assms
proof induction
  case (Snoc s es s' e s'')
  then show ?case
    using to_delete_step [OF Snoc.hyps(2), of ip] system_ok_step [OF Snoc.hyps(2)]
    by (fastforce simp: deletions_def cleanups_def split: if_splits)
qed (simp add: deletions_def cleanups_def)

subsection \<open>From the start\<close>

lemma limiter_start_ok:
  assumes "rl_ShardCount cfg < 2 ^ 32" "1 \<le> rl_Burst cfg" "rl_Burst cfg < 2 ^ 53"
    and "rl_Rate cfg = Fin r" "0 \<le> r" "r \<le> 2 ^ 64"
  shows "system_ok (limiter_start cfg t0)"
proof -
  have "s = []" if "s \<in> set (shards (ratelimit_New cfg))" for s
    using that by (auto simp: ratelimit_New_def Let_def)
  moreover have "params_ok (ratelimit_New cfg)"
    using assms by (auto simp: params_ok_def ratelimit_New_def Let_def)
  ultimately show ?thesis
    using ratelimit_New_inv [OF assms(1)]
    by (fastforce simp: system_ok_def limiter_start_def tokens_inv_def locks_inv_def)
qed

text \<open>The first request of a new bucket is granted.\<close>

lemma new_bucket_take:
  assumes "1 \<le> burst l" "burst l < 2 ^ 53" "rate l = Fin r"
  shows "fst (bucket_take l now (new_bucket l now))"
proof -
  have B: "f64_of_int (burst l) = Fin (of_int (burst l))" using assms by (intro f64_of_int_exact) simp
  have "Duration_Seconds 0 = Fin 0" using Duration_Seconds_eq(1) [of 0] by simp
  moreover have "f64_of_rat 0 = Fin 0" using f64_of_rat_small [of 0] by simp
  moreover have "f64_of_rat (of_int (burst l)) = Fin (of_int (burst l))" using B by (simp add: f64_of_int_def)
  ultimately show ?thesis
    using assms B by (simp add: bucket_take_def new_bucket_def Let_def time_Sub_def)
qed


lemma runs_system_ok: "runs limiter_step s es s' \<Longrightarrow> system_ok s \<Longrightarrow> system_ok s'"
  by (erule runs_inv [where I = system_ok]) (auto intro: system_ok_step)

lemma no_evictions:
  assumes "runs limiter_step s es s'" "maxBuckets (ls_limiter s) \<le> 0" "\<And>i ip now. ls_locks s i \<noteq> Some (Hold_Evict ip now)"
  shows "evictions ip' es = 0 \<and> maxBuckets (ls_limiter s') \<le> 0 \<and> (\<forall>i ip now. ls_locks s' i \<noteq> Some (Hold_Evict ip now))"
  using assms
proof induction
  case (Snoc s es s' e s'')
  then have IH: "evictions ip' es = 0" "maxBuckets (ls_limiter s') \<le> 0" "\<And>i ip now. ls_locks s' i \<noteq> Some (Hold_Evict ip now)"
    by auto
  have "maxBuckets (ls_limiter s'') \<le> 0" using step_params [OF Snoc.hyps(2)] IH(2) by simp
  moreover have "\<not> is_evicted ip' e \<and> (\<forall>i ip now. ls_locks s'' i \<noteq> Some (Hold_Evict ip now))"
    using Snoc.hyps(2) by cases (use IH in \<open>auto simp: at_limit_def\<close>)
  ultimately show ?case using IH(1) by (simp add: evictions_def)
qed (simp add: evictions_def)

lemma event_cost_sum:
  "sum_list (map (event_cost r B age ip) es) =
     of_nat (requests ip es) * of_int B / 2 ^ 51 +
     of_int B * of_nat (evictions ip es + (if refills_before_cleanup age B r then 0 else deletions ip es))"
proof (induction es)
  case (Cons e es)
  have "sum_list (map (event_cost r B age ip) (e # es)) = event_cost r B age ip e + sum_list (map (event_cost r B age ip) es)"
    by simp
  also have "\<dots> = of_nat (requests ip (e # es)) * of_int B / 2 ^ 51 +
      of_int B * of_nat (evictions ip (e # es) + (if refills_before_cleanup age B r then 0 else deletions ip (e # es)))"
    unfolding Cons.IH
    by (simp add: event_cost_def requests_def evictions_def deletions_def field_simps)
  finally show ?case .
qed (simp add: requests_def evictions_def deletions_def)

text \<open>The bound on the granted requests, from the interpretation of the quota.\<close>

lemma granted_le:
  assumes run: "runs limiter_step (limiter_start cfg t0) es s"
    and cfg: "rl_ShardCount cfg < 2 ^ 32" "1 \<le> rl_Burst cfg" "rl_Burst cfg < 2 ^ 53"
      "rl_Rate cfg = Fin r" "0 \<le> r" "r \<le> 2 ^ 64"
  shows "of_nat (granted ip es) \<le>
      of_int (rl_Burst cfg) * (1 + of_nat (evictions ip es +
        (if refills_before_cleanup (rl_CleanupAge cfg) (rl_Burst cfg) r then 0 else deletions ip es)))
      + of_int (ls_clock s - t0) / of_int time_Second * r * (1 + 1 / 2 ^ 50)
      + of_nat (requests ip es) * of_int (rl_Burst cfg) / 2 ^ 51 \<and>
    deletions ip es \<le> cleanups es \<and> (rl_MaxBuckets cfg \<le> 0 \<longrightarrow> evictions ip es = 0)"
proof (intro conjI impI)
  let ?s = "limiter_start cfg t0" and ?B = "rl_Burst cfg" and ?age = "rl_CleanupAge cfg"
  have ok: "system_ok ?s" using cfg by (rule limiter_start_ok)
  have fields: "rate (ls_limiter ?s) = Fin r" "burst (ls_limiter ?s) = ?B"
    "cleanupAge (ls_limiter ?s) = ?age" "maxBuckets (ls_limiter ?s) = rl_MaxBuckets cfg"
    "ls_clock ?s = t0" "ls_locks ?s = Map.empty" "ls_cleanup ?s = None"
    using cfg(4) by (simp_all add: limiter_start_def ratelimit_New_def Let_def)
  have inv: "quota_inv r ?B ?age ?s" using ok fields by (simp add: quota_inv_def)
  obtain i where i: "getShard (ls_limiter ?s) ip = Some i" "i < length (shards (ls_limiter ?s))"
    using getShard_less ok by (force simp: system_ok_def)
  then have "bucket_of (ls_limiter ?s) ip = None"
    by (simp add: bucket_of_def limiter_start_def ratelimit_New_def Let_def)
  then have start: "potential r ip ?s = of_int ?B"
    using i by (simp add: potential_def fields request_time_shard)
  have "of_nat (length (filter (is_granted ip) es)) \<le> potential r ip ?s +
      (refill r (ls_clock s) - refill r (ls_clock ?s)) + sum_list (map (event_cost r ?B ?age ip) es)"
    using address_quota.runs_spent [OF run inv] .
  then show "of_nat (granted ip es) \<le>
      of_int ?B * (1 + of_nat (evictions ip es + (if refills_before_cleanup ?age ?B r then 0 else deletions ip es)))
      + of_int (ls_clock s - t0) / of_int time_Second * r * (1 + 1 / 2 ^ 50) + of_nat (requests ip es) * of_int ?B / 2 ^ 51"
    unfolding granted_def start fields refill_diff [symmetric] event_cost_sum
    by (simp only: refill_def distrib_left mult_1_right)
  show "deletions ip es \<le> cleanups es"
    using deletions_le_cleanups [OF run ok, of ip] by (simp add: to_delete_def fields)
  show "evictions ip es = 0" if "rl_MaxBuckets cfg \<le> 0"
    using no_evictions [OF run, of ip] that fields by simp
qed

lemma buckets_below:
  assumes run: "runs limiter_step (limiter_start cfg t0) es s" and ok: "system_ok (limiter_start cfg t0)"
    and es: "\<And>now. Lim_Lock [] now \<notin> set es"
    and cfg: "0 < rl_MaxBuckets cfg" "0 < rl_ShardCount cfg"
  shows "ActiveBuckets (ratelimit_Stats (ls_limiter s)) \<le> rl_MaxBuckets cfg + rl_ShardCount cfg - 1"
proof -
  let ?s = "limiter_start cfg t0"
  have fields: "maxBuckets (ls_limiter ?s) = rl_MaxBuckets cfg" "shardCount (ls_limiter ?s) = rl_ShardCount cfg"
    "bucketCount (ls_limiter ?s) = 0" "int (length (shards (ls_limiter ?s))) = rl_ShardCount cfg"
    using cfg by (simp_all add: limiter_start_def ratelimit_New_def Let_def)
  have "cap_inv ?s"
    using slack_le [of ?s] fields cfg
    by (auto simp: cap_inv_def) (auto simp: limiter_start_def ratelimit_New_def Let_def)
  with run ok es have "cap_inv s \<and> maxBuckets (ls_limiter s) = maxBuckets (ls_limiter ?s) \<and>
      shardCount (ls_limiter s) = shardCount (ls_limiter ?s)"
  proof (induction ?s es s rule: runs.induct)
    case (Snoc es s e s')
    have "system_ok s" using runs_system_ok [OF Snoc.hyps(1) Snoc.prems(1)] .
    then show ?case using Snoc cap_inv_step [OF Snoc.hyps(3)] step_params [OF Snoc.hyps(3)] by auto
  qed simp
  moreover have "0 \<le> slack s" by (simp add: slack_def sum_nonneg)
  ultimately show ?thesis using fields by (simp add: ratelimit_Stats_def totalBuckets_def cap_inv_def)
qed

text \<open>An example: one request to a limiter with the default configuration.\<close>

lemma ex_limiter_runs:
  obtains es ok s where "runs limiter_step (limiter_start ratelimit_DefaultConfig 0) es s"
    "requests ''10.0.0.1'' es = 1" "ls_clock s = 5" "\<And>now. Lim_Lock [] now \<notin> set es"
    "bucket_of (ls_limiter s) ''10.0.0.1'' \<noteq> None"
proof -
  let ?s = "limiter_start ratelimit_DefaultConfig 0" and ?ip = "''10.0.0.1''"
  have inv: "limiter_inv (ls_limiter ?s)"
    by (simp add: limiter_start_def ratelimit_New_inv ratelimit_DefaultConfig_def)
  obtain i ok l where i: "getShard (ls_limiter ?s) ?ip = Some i" "i < length (shards (ls_limiter ?s))"
    and al: "Allow [] 5 ?ip (ls_limiter ?s) = Some (ok, l)"
    using Allow_set_shard [OF inv, of ?ip "[]" 5] by metis
  then have "shards (ls_limiter ?s) ! i = []"
    by (simp add: limiter_start_def ratelimit_New_def Let_def)
  then obtain es where es: "runs limiter_step ?s es (?s\<lparr>ls_limiter := l, ls_clock := 5\<rparr>)" "requests ?ip es = 1"
      "\<forall>ip' now. Lim_Lock ip' now \<in> set es \<longrightarrow> ip' = ?ip"
    using Allow_runs [OF i(1) _ _ _ al] by (auto simp: limiter_start_def)
  then show thesis using that [OF es(1,2)] Allow_bucket [OF inv al] by force
qed

section \<open>Properties\<close>

text \<open>
  C9: The rate limiter limits. In every execution of the concurrent limiter, from its start at
  \<open>t0\<close> on, the requests granted to an address are at most the burst, plus the rate times the
  elapsed seconds, plus one more burst for every time the address lost its bucket: to an
  eviction, or to a clean-up if a bucket does not refill within \<^verbatim>\<open>CleanupAge\<close>. This is up to
  the rounding of float64: a relative \<open>2 ^ -50\<close> on the refill and a \<open>2 ^ -51\<close>th of the burst
  for every request the address made. A clean-up drops the bucket of an address at most once,
  and without a limit on the buckets nothing is evicted.
\<close>

theorem granted_bound:
  assumes run: "runs limiter_step (limiter_start cfg t0) es s"
    and cfg: "rl_ShardCount cfg < 2 ^ 32" "1 \<le> rl_Burst cfg" "rl_Burst cfg < 2 ^ 53"
      "rl_Rate cfg = Fin r" "0 \<le> r" "r \<le> 2 ^ 64"
  shows "of_nat (granted ip es) \<le>
      of_int (rl_Burst cfg) * (1 + of_nat (evictions ip es +
        (if refills_before_cleanup (rl_CleanupAge cfg) (rl_Burst cfg) r then 0 else deletions ip es)))
      + of_int (ls_clock s - t0) / of_int time_Second * r * (1 + 1 / 2 ^ 50)
      + of_nat (requests ip es) * of_int (rl_Burst cfg) / 2 ^ 51 \<and>
    deletions ip es \<le> cleanups es \<and> (rl_MaxBuckets cfg \<le> 0 \<longrightarrow> evictions ip es = 0)"
  using granted_le [OF run cfg] .

theorem granted_bound_witness:
  "\<exists>es s. runs limiter_step (limiter_start ratelimit_DefaultConfig 0) es s \<and> requests ''10.0.0.1'' es = 1 \<and>
     (of_nat (granted ''10.0.0.1'' es) :: rat) \<le>
       20 * (1 + of_nat (evictions ''10.0.0.1'' es)) + 5 / 10 ^ 9 * 10 * (1 + 1 / 2 ^ 50) + 20 / 2 ^ 51"
proof (rule ex_limiter_runs)
  fix es s
  let ?ip = "''10.0.0.1''"
  assume run: "runs limiter_step (limiter_start ratelimit_DefaultConfig 0) es s"
    and req: "requests ?ip es = 1" and clock: "ls_clock s = 5"
  have "refills_before_cleanup (5 * time_Minute) 20 10" by (simp add: refills_before_cleanup_def)
  then have "(of_nat (granted ?ip es) :: rat) \<le>
      20 * (1 + of_nat (evictions ?ip es)) + of_int (5 - 0) / of_int time_Second * 10 * (1 + 1 / 2 ^ 50) + of_nat 1 * 20 / 2 ^ 51"
    using granted_bound [OF run, of 10 ?ip, THEN conjunct1] req clock by (simp add: ratelimit_DefaultConfig_def)
  then show ?thesis using run req by (intro exI [of _ es] exI [of _ s]) simp
qed

text \<open>
  C32: The limiter's bookkeeping is consistent in every state its goroutines can reach together:
  the atomic counter is the number of buckets in the shards, no shard holds an address twice,
  every address is in its own shard, and every bucket holds between zero and \<^verbatim>\<open>Burst\<close> tokens
  and was last seen in the past. With a limit on the number of buckets, \<^verbatim>\<open>MaxBuckets > 0\<close>, and a
  positive \<^verbatim>\<open>ShardCount\<close>, and if no request comes from the empty address, there are never more
  than \<^verbatim>\<open>MaxBuckets + ShardCount - 1\<close> buckets, although the counter is checked and updated
  under the locks of different shards: requests in several shards may all see it below the
  limit, and at the limit a request evicts from its own shard only, which may be empty.
\<close>

theorem limiter_consistent:
  assumes run: "runs limiter_step (limiter_start cfg t0) es s"
    and cfg: "rl_ShardCount cfg < 2 ^ 32" "1 \<le> rl_Burst cfg" "rl_Burst cfg < 2 ^ 53"
      "rl_Rate cfg = Fin r" "0 \<le> r" "r \<le> 2 ^ 64"
  shows "limiter_inv (ls_limiter s) \<and> tokens_inv (ls_limiter s) (ls_clock s) \<and>
    ((\<forall>now. Lim_Lock [] now \<notin> set es) \<and> 0 < rl_MaxBuckets cfg \<and> 0 < rl_ShardCount cfg \<longrightarrow>
       ActiveBuckets (ratelimit_Stats (ls_limiter s)) \<le> rl_MaxBuckets cfg + rl_ShardCount cfg - 1)"
proof -
  note start = limiter_start_ok [OF cfg, of t0]
  have "system_ok s" using runs_system_ok [OF run start] .
  then show ?thesis
    using buckets_below [OF run start] by (simp add: system_ok_def)
qed

theorem limiter_consistent_witness:
  "\<exists>es s. runs limiter_step (limiter_start ratelimit_DefaultConfig 0) es s \<and>
     bucket_of (ls_limiter s) ''10.0.0.1'' \<noteq> None \<and> limiter_inv (ls_limiter s) \<and> tokens_inv (ls_limiter s) 5 \<and>
     ActiveBuckets (ratelimit_Stats (ls_limiter s)) \<le> 100015"
proof (rule ex_limiter_runs)
  fix es s
  assume run: "runs limiter_step (limiter_start ratelimit_DefaultConfig 0) es s" "ls_clock s = 5"
    "\<And>now. Lim_Lock [] now \<notin> set es" "bucket_of (ls_limiter s) ''10.0.0.1'' \<noteq> None"
  then show ?thesis
    using limiter_consistent [OF run(1), of 10] by (intro exI [of _ es] exI [of _ s]) (simp add: ratelimit_DefaultConfig_def)
qed

text \<open>
  C33: Addresses do not share tokens. A request of one address leaves the bucket of every other
  address as it is, except that a full limiter may drop the other's bucket to make room.
\<close>

theorem allow_isolated:
  assumes "limiter_inv l" "Allow order now ip l = Some (ok, l')" "ip' \<noteq> ip"
  shows "bucket_of l' ip' = bucket_of l ip' \<or>
    bucket_of l' ip' = None \<and> 0 < maxBuckets l \<and> maxBuckets l \<le> totalBuckets l"
  using Allow_other [OF assms] by (auto simp: totalBuckets_def)

theorem allow_isolated_witness:
  "\<exists>ok l'. Allow [] 0 ''10.0.0.1'' ratelimit_NewWithDefaults = Some (ok, l') \<and>
     bucket_of l' ''10.0.0.2'' = bucket_of ratelimit_NewWithDefaults ''10.0.0.2''"
proof -
  have inv: "limiter_inv ratelimit_NewWithDefaults"
    by (simp add: ratelimit_NewWithDefaults_def ratelimit_New_inv ratelimit_DefaultConfig_def)
  obtain ok l' where al: "Allow [] 0 ''10.0.0.1'' ratelimit_NewWithDefaults = Some (ok, l')"
    using Allow_set_shard [OF inv] by metis
  then show ?thesis
    using allow_isolated [OF inv al, of "''10.0.0.2''"]
    by (auto simp: totalBuckets_def ratelimit_NewWithDefaults_def ratelimit_New_def ratelimit_DefaultConfig_def Let_def)
qed

text \<open>
  C34: A limiter with \<^verbatim>\<open>CleanupAge\<close> 0, as \<^verbatim>\<open>cmd/server/main.go\<close> builds it, forgets at every
  clean-up all the requests made before that instant: an address that has used up its
  tokens is granted a request again at once.
\<close>

theorem cleanup_zero_age_resets:
  assumes "limiter_inv l" "cleanupAge l = 0" "1 \<le> burst l" "burst l < 2 ^ 53" "rate l = Fin r"
    and "bucket_of l ip = Some b" "lastSeen b < now"
    and "Allow order now ip (cleanup now l) = Some (ok, l')"
  shows "ok"
proof -
  let ?l = "cleanup now l"
  have inv: "limiter_inv ?l"
    unfolding cleanup_def using cleanup_shards_bucket [OF assms(1)] by (simp add: lessThan_atLeast0)
  have "0 < time_Sub now (lastSeen b)" using assms(7) by (simp add: time_Sub_def)
  then have "bucket_of ?l ip = None" using cleanup_bucket_of [OF assms(1)] assms(2,6) by simp
  then have "ok = fst (bucket_take ?l now (new_bucket ?l now))"
    using Allow_bucket(2) [OF inv assms(8)] by simp
  moreover have "burst (fold (cleanup_shard now) is l) = burst l \<and> rate (fold (cleanup_shard now) is l) = rate l" for "is"
    by (induction "is" arbitrary: l) (simp_all add: cleanup_shard_set_shard)
  then have "burst ?l = burst l" "rate ?l = rate l" by (simp_all add: cleanup_def)
  ultimately show ok
    using new_bucket_take [of ?l r now] assms(3-5) by simp
qed

theorem cleanup_zero_age_resets_witness:
  "\<exists>l b ok l'. bucket_of l ''10.0.0.1'' = Some b \<and> cleanupAge l = 0 \<and>
     Allow [] time_Minute ''10.0.0.1'' (cleanup time_Minute l) = Some (ok, l') \<and> ok"
proof -
  let ?cfg = "ratelimit_DefaultConfig\<lparr>rl_CleanupAge := 0\<rparr>" and ?ip = "''10.0.0.1''"
  let ?l = "ratelimit_New ?cfg"
  have inv: "limiter_inv ?l" by (simp add: ratelimit_New_inv ratelimit_DefaultConfig_def)
  obtain i where al: "Allow [] 0 ?ip ?l = Some (fst (bucket_take ?l 0 (allow_bucket ?l 0 ?ip (shards ?l ! i))),
      set_shard i (allow_shard [] ?l 0 ?ip (shards ?l ! i)) ?l)" (is "_ = Some (_, ?l1)")
    using Allow_set_shard [OF inv] by metis
  have l1: "limiter_inv ?l1" using Allow_inv [OF inv al] .
  have b: "bucket_of ?l1 ?ip = Some (snd (bucket_take ?l 0 (case bucket_of ?l ?ip of Some b \<Rightarrow> b | None \<Rightarrow> new_bucket ?l 0)))"
    (is "_ = Some ?b") using Allow_bucket(1) [OF inv al] .
  have last: "lastSeen ?b < time_Minute" by (simp add: bucket_take_def Let_def)
  have "limiter_inv (cleanup time_Minute ?l1)"
    unfolding cleanup_def using cleanup_shards_bucket [OF l1] by (simp add: lessThan_atLeast0)
  then obtain ok l' where al': "Allow [] time_Minute ?ip (cleanup time_Minute ?l1) = Some (ok, l')"
    using Allow_set_shard by metis
  have "ok"
    by (rule cleanup_zero_age_resets [OF l1 _ _ _ _ b last al', of 10])
      (simp_all add: ratelimit_New_def ratelimit_DefaultConfig_def Let_def)
  moreover have "cleanupAge ?l1 = 0" by (simp add: ratelimit_New_def ratelimit_DefaultConfig_def Let_def)
  ultimately show ?thesis using b al' by blast
qed

end
