(* ===== verification/Conn_Pool.thy ===== *)
theory Conn_Pool
  imports Go_Prelude
begin

text \<open>
  \<^verbatim>\<open>internal/server/pool.go\<close>: a counting semaphore on a buffered channel, with atomic
  counters beside it. The operations are first given as they run alone (\<^verbatim>\<open>Acquire\<close>,
  \<^verbatim>\<open>Release\<close> and so on), then as the atomic steps in which concurrent callers interleave:
  the channel operation and the update of the counter are separate steps in the code.
\<close>

section \<open>Definitions\<close>

text \<open>The channel \<^verbatim>\<open>sem\<close> is the number of elements in it; its capacity is \<^verbatim>\<open>max\<close>.\<close>

record Pool =
  sem :: nat
  pool_max :: int
  active :: int
  waiting :: int

definition NewPool :: "int \<Rightarrow> Pool" where
  "NewPool maxConnections =
    (let maxConnections = (if maxConnections \<le> 0 then 1 else maxConnections)
     in \<lparr>sem = 0, pool_max = maxConnections, active = 0, waiting = 0\<rparr>)"

definition can_send :: "Pool \<Rightarrow> bool" where
  "can_send p \<longleftrightarrow> int (sem p) < pool_max p"

definition Acquire :: "Pool \<Rightarrow> bool \<times> Pool" where
  "Acquire p =
    (if can_send p then (True, p\<lparr>sem := sem p + 1, active := active p + 1\<rparr>) else (False, p))"

text \<open>
  The blocking variants: \<^verbatim>\<open>select\<close> takes a ready case (\<open>pick\<close> decides when both are), and
  blocks when none is (\<open>None\<close>). The count of waiting callers is restored by the \<^verbatim>\<open>defer\<close>.
\<close>

definition AcquireWithContext :: "bool \<Rightarrow> bool \<Rightarrow> Pool \<Rightarrow> (bool \<times> Pool) option" where
  "AcquireWithContext done pick p =
    (let p = p\<lparr>waiting := waiting p + 1\<rparr>
     in if can_send p \<and> (\<not> done \<or> pick)
        then (let p = p\<lparr>sem := sem p + 1, active := active p + 1\<rparr>
              in Some (True, p\<lparr>waiting := waiting p - 1\<rparr>))
        else if done then Some (False, p\<lparr>waiting := waiting p - 1\<rparr>)
        else None)"

definition TryAcquireBlocking :: "bool \<Rightarrow> bool \<Rightarrow> Pool \<Rightarrow> (bool \<times> Pool) option" where
  "TryAcquireBlocking done pick p =
    (let p = p\<lparr>waiting := waiting p + 1\<rparr>
     in if can_send p \<and> (\<not> done \<or> pick)
        then (let p = p\<lparr>sem := sem p + 1, active := active p + 1\<rparr>
              in Some (True, p\<lparr>waiting := waiting p - 1\<rparr>))
        else if done then Some (False, p\<lparr>waiting := waiting p - 1\<rparr>)
        else None)"

definition Release :: "Pool \<Rightarrow> Pool" where
  "Release p = (if 0 < sem p then p\<lparr>sem := sem p - 1, active := active p - 1\<rparr> else p)"

definition Active :: "Pool \<Rightarrow> int" where "Active p = active p"
definition Waiting :: "Pool \<Rightarrow> int" where "Waiting p = waiting p"
definition Available :: "Pool \<Rightarrow> int" where "Available p = pool_max p - active p"
definition Pool_Max :: "Pool \<Rightarrow> int" where "Pool_Max p = pool_max p"
definition IsFull :: "Pool \<Rightarrow> bool" where "IsFull p \<longleftrightarrow> Active p \<ge> pool_max p"

record PoolStats =
  pst_Active :: int
  pst_Available :: int
  pst_Waiting :: int
  pst_Max :: int

definition Pool_Stats :: "Pool \<Rightarrow> PoolStats" where
  "Pool_Stats p =
    (let act = active p
     in \<lparr>pst_Active = act, pst_Available = pool_max p - act, pst_Waiting = waiting p, pst_Max = pool_max p\<rparr>)"

subsection \<open>Concurrent callers\<close>

text \<open>
  Besides the pool: how many callers have put their element into the channel but not yet
  counted themselves (\<open>entering\<close>), hold a slot (\<open>holding\<close>), have taken an element out but
  not yet uncounted themselves (\<open>leaving\<close>), and wait (\<open>waiters\<close>).
\<close>

record pool_system =
  the_pool :: Pool
  entering :: nat
  holding :: nat
  leaving :: nat
  waiters :: nat

definition pool_start :: "int \<Rightarrow> pool_system" where
  "pool_start n = \<lparr>the_pool = NewPool n, entering = 0, holding = 0, leaving = 0, waiters = 0\<rparr>"

datatype pool_event =
  Pool_Send | Pool_Count | Pool_Full | Pool_Receive | Pool_Uncount | Pool_Spurious | Pool_Wait | Pool_Unwait

text \<open>
  \<^verbatim>\<open>Release\<close> is only called by a holder, once. It receives from the channel; its \<^verbatim>\<open>default\<close>
  branch, for a channel that is empty, is the event \<open>Pool_Spurious\<close>.
\<close>

inductive pool_step :: "pool_system \<Rightarrow> pool_event \<Rightarrow> pool_system \<Rightarrow> bool" where
  Send: "can_send (the_pool s) \<Longrightarrow>
     pool_step s Pool_Send
       (s\<lparr>the_pool := (the_pool s)\<lparr>sem := sem (the_pool s) + 1\<rparr>, entering := entering s + 1\<rparr>)"
| Count: "0 < entering s \<Longrightarrow>
     pool_step s Pool_Count
       (s\<lparr>the_pool := (the_pool s)\<lparr>active := active (the_pool s) + 1\<rparr>,
          entering := entering s - 1, holding := holding s + 1\<rparr>)"
| Full: "\<not> can_send (the_pool s) \<Longrightarrow> pool_step s Pool_Full s"
| Receive: "0 < holding s \<Longrightarrow> 0 < sem (the_pool s) \<Longrightarrow>
     pool_step s Pool_Receive
       (s\<lparr>the_pool := (the_pool s)\<lparr>sem := sem (the_pool s) - 1\<rparr>,
          holding := holding s - 1, leaving := leaving s + 1\<rparr>)"
| Uncount: "0 < leaving s \<Longrightarrow>
     pool_step s Pool_Uncount
       (s\<lparr>the_pool := (the_pool s)\<lparr>active := active (the_pool s) - 1\<rparr>, leaving := leaving s - 1\<rparr>)"
| Spurious: "0 < holding s \<Longrightarrow> sem (the_pool s) = 0 \<Longrightarrow>
     pool_step s Pool_Spurious (s\<lparr>holding := holding s - 1\<rparr>)"
| Wait: "pool_step s Pool_Wait
       (s\<lparr>the_pool := (the_pool s)\<lparr>waiting := waiting (the_pool s) + 1\<rparr>, waiters := waiters s + 1\<rparr>)"
| Unwait: "0 < waiters s \<Longrightarrow>
     pool_step s Pool_Unwait
       (s\<lparr>the_pool := (the_pool s)\<lparr>waiting := waiting (the_pool s) - 1\<rparr>, waiters := waiters s - 1\<rparr>)"

definition pool_inv :: "pool_system \<Rightarrow> bool" where
  "pool_inv s \<longleftrightarrow>
     sem (the_pool s) = entering s + holding s \<and> int (sem (the_pool s)) \<le> pool_max (the_pool s) \<and>
     active (the_pool s) = int (holding s + leaving s) \<and> waiting (the_pool s) = int (waiters s)"

text \<open>The pool of callers that run one after the other.\<close>

definition pool_ok :: "Pool \<Rightarrow> bool" where
  "pool_ok p \<longleftrightarrow> active p = int (sem p) \<and> int (sem p) \<le> pool_max p \<and> 0 < pool_max p"

section \<open>Lemmas\<close>

lemma pool_inv_start: "pool_inv (pool_start n)"
  by (simp add: pool_inv_def pool_start_def NewPool_def Let_def)

lemma pool_inv_step:
  assumes "pool_step s e s'" "pool_inv s" shows "pool_inv s'"
  using assms(1) by cases (use assms(2) in \<open>auto simp: pool_inv_def can_send_def\<close>)

lemma pool_max_step: "pool_step s e s' \<Longrightarrow> pool_max (the_pool s') = pool_max (the_pool s)"
  by (induction rule: pool_step.induct) simp_all

lemma pool_runs_inv:
  assumes "runs pool_step (pool_start n) es s"
  shows "pool_inv s \<and> pool_max (the_pool s) = (if n \<le> 0 then 1 else n)"
proof (rule runs_inv [OF assms])
  show "pool_inv (pool_start n) \<and> pool_max (the_pool (pool_start n)) = (if n \<le> 0 then 1 else n)"
    using pool_inv_start [of n] by (simp add: pool_start_def NewPool_def)
qed (auto simp: pool_max_step intro: pool_inv_step)

subsection \<open>The interface of a pool\<close>

text \<open>
  A set of slots as the server uses it: \<open>acquire\<close> succeeds exactly while a slot is free, and
  every success takes one, every \<open>release\<close> gives one back.
\<close>

locale slot_pool =
  fixes acquire :: "'p \<Rightarrow> bool \<times> 'p"
    and release :: "'p \<Rightarrow> 'p"
    and held :: "'p \<Rightarrow> nat"
    and capacity :: "'p \<Rightarrow> nat"
    and ok :: "'p \<Rightarrow> bool"
  assumes held_le: "ok p \<Longrightarrow> held p \<le> capacity p"
    and capacity_pos: "ok p \<Longrightarrow> 0 < capacity p"
    and acquire_ok: "ok p \<Longrightarrow> ok (snd (acquire p))"
    and acquire_iff: "ok p \<Longrightarrow> fst (acquire p) \<longleftrightarrow> held p < capacity p"
    and acquire_held: "ok p \<Longrightarrow> held (snd (acquire p)) = held p + of_bool (fst (acquire p))"
    and acquire_capacity: "ok p \<Longrightarrow> capacity (snd (acquire p)) = capacity p"
    and release_ok: "ok p \<Longrightarrow> ok (release p)"
    and release_held: "ok p \<Longrightarrow> held (release p) = held p - 1"
    and release_capacity: "ok p \<Longrightarrow> capacity (release p) = capacity p"
begin

text \<open>A slot that is released can be acquired again, and the pool is as before.\<close>

lemma acquire_after_release:
  assumes "ok p" "0 < held p"
  shows "fst (acquire (release p))" "held (snd (acquire (release p))) = held p"
proof -
  have r: "ok (release p)" "held (release p) < capacity (release p)"
    using assms held_le [of p] release_ok release_held release_capacity by auto
  then show 1: "fst (acquire (release p))" by (simp add: acquire_iff)
  show "held (snd (acquire (release p))) = held p"
    using r 1 assms by (simp add: acquire_held release_held)
qed

lemma release_after_acquire:
  assumes "ok p" "fst (acquire p)" shows "held (release (snd (acquire p))) = held p"
  using assms by (simp add: acquire_ok acquire_held release_held)

text \<open>\<open>n\<close> callers in a row get \<open>min n\<close> of the free slots.\<close>

lemma acquire_many:
  assumes "ok p"
  shows "ok (((\<lambda>p. snd (acquire p)) ^^ n) p) \<and> capacity (((\<lambda>p. snd (acquire p)) ^^ n) p) = capacity p \<and>
    held (((\<lambda>p. snd (acquire p)) ^^ n) p) = min (held p + n) (capacity p)"
proof (induction n)
  case 0
  then show ?case using assms held_le [of p] by simp
next
  case (Suc n)
  let ?p = "((\<lambda>p. snd (acquire p)) ^^ n) p"
  have "held (snd (acquire ?p)) = min (held p + Suc n) (capacity p)"
    using Suc acquire_held [of ?p] acquire_iff [of ?p] by auto
  then show ?case using Suc acquire_ok [of ?p] acquire_capacity [of ?p] by simp
qed

end

interpretation pool_slots: slot_pool Acquire Release sem "\<lambda>p. nat (pool_max p)" pool_ok
  by unfold_locales
    (auto simp: Acquire_def Release_def pool_ok_def can_send_def split: if_splits)

text \<open>
  A pool with one slot, released by its holder and taken again before the holder has
  decremented the counter.
\<close>

lemma pool_example_run:
  "\<exists>s. runs pool_step (pool_start 1) [Pool_Send, Pool_Count, Pool_Receive, Pool_Send, Pool_Count] s \<and>
     Available (the_pool s) = - 1"
proof -
  let ?p = "\<lambda>k a. \<lparr>sem = k, pool_max = 1, active = a, waiting = 0\<rparr>"
  let ?s = "\<lambda>k a e h l. \<lparr>the_pool = ?p k a, entering = e, holding = h, leaving = l, waiters = 0\<rparr>"
  have "pool_step (pool_start 1) Pool_Send (?s 1 0 1 0 0)"
    "pool_step (?s 1 0 1 0 0) Pool_Count (?s 1 1 0 1 0)"
    "pool_step (?s 1 1 0 1 0) Pool_Receive (?s 0 1 0 0 1)"
    "pool_step (?s 0 1 0 0 1) Pool_Send (?s 1 1 1 0 1)"
    "pool_step (?s 1 1 1 0 1) Pool_Count (?s 1 2 0 1 1)"
    by (simp_all add: pool_step.simps pool_start_def NewPool_def can_send_def)
  then have "runs pool_step (pool_start 1)
      [Pool_Send, Pool_Count, Pool_Receive, Pool_Send, Pool_Count] (?s 1 2 0 1 1)"
    by (blast intro: runs_Cons runs.Nil)
  moreover have "Available (the_pool (?s 1 2 0 1 1)) = - 1" by (simp add: Available_def)
  ultimately show ?thesis by blast
qed

section \<open>Properties\<close>

text \<open>
  C10: No interleaving of callers that release only what they acquired ever has more holders
  than the pool's capacity. The counters are exact up to the callers between their two
  atomic steps: the channel holds an element per holder and per entering caller, \<^verbatim>\<open>Active\<close>
  counts the holders and those that are leaving, so that \<^verbatim>\<open>Available\<close> can be negative by
  at most the number of the latter.
\<close>

theorem pool_concurrent_safe:
  assumes "runs pool_step (pool_start n) es s"
  shows "int (holding s) \<le> (if n \<le> 0 then 1 else n) \<and>
    Active (the_pool s) = int (holding s + leaving s) \<and> Waiting (the_pool s) = int (waiters s) \<and>
    - int (leaving s) \<le> Available (the_pool s)"
  using pool_runs_inv [OF assms] by (auto simp: pool_inv_def Active_def Waiting_def Available_def)

theorem pool_concurrent_safe_witness:
  "\<exists>s. runs pool_step (pool_start 1) [Pool_Send, Pool_Count, Pool_Receive, Pool_Send, Pool_Count] s \<and>
     int (holding s) \<le> 1 \<and> Available (the_pool s) = - 1"
proof -
  obtain s where s: "runs pool_step (pool_start 1) [Pool_Send, Pool_Count, Pool_Receive, Pool_Send, Pool_Count] s"
    "Available (the_pool s) = - 1"
    using pool_example_run by blast
  then show ?thesis using pool_concurrent_safe [OF s(1)] by auto
qed

text \<open>
  The \<^verbatim>\<open>default\<close> branch of \<^verbatim>\<open>Release\<close>, which the comment says should never happen, never
  happens: no execution in which only holders release contains it.
\<close>

lemma release_never_spurious:
  assumes "runs pool_step (pool_start n) es s"
  shows "Pool_Spurious \<notin> set es"
  using assms
proof (induction "pool_start n" es s rule: runs.induct)
  case (Snoc es s' e s'')
  have "pool_inv s'" using pool_runs_inv [OF Snoc.hyps(1)] by simp
  then have "e \<noteq> Pool_Spurious"
    using Snoc.hyps(3) by (auto simp: pool_step.simps pool_inv_def)
  then show ?case using Snoc.hyps by simp
qed simp

end
