(* ===== verification/Quote_Store.thy ===== *)
theory Quote_Store
  imports Protocol_Message "HOL-Library.Sublist"
begin

text \<open>
  \<^verbatim>\<open>internal/quotes/store.go\<close>: the quotes and the loader of a quotes file. A file is what its
  reader delivers; strings are lists of bytes, as in Go, and white space is recognised in
  its UTF-8 encodings. The loop over \<^verbatim>\<open>bufio.Scanner\<close> reads lines of at most 65535 bytes.
\<close>

section \<open>Definitions\<close>

definition DefaultQuote :: string where
  "DefaultQuote = ''The only true wisdom is in knowing you know nothing. - Socrates''"

record memoryStore =
  ms_quotes :: "string list"

text \<open>An error that is declared, but that no function returns.\<close>

definition ErrEmptyFile :: go_error where
  [go_errs]: "ErrEmptyFile = Sentinel ''quotes.ErrEmptyFile'' ''quotes file is empty''"

definition NewMemoryStore :: "string list \<Rightarrow> memoryStore" where
  "NewMemoryStore quotes = \<lparr>ms_quotes = quotes\<rparr>"

text \<open>\<^verbatim>\<open>rand.Int(rand.Reader, max)\<close>: an error, or any number below \<^verbatim>\<open>max\<close>.\<close>

datatype rand_int_outcome = Rand_Int_Fail go_error | Rand_Int_Value nat

fun rand_Int :: "rand_int_outcome \<Rightarrow> nat \<Rightarrow> nat result" where
  "rand_Int (Rand_Int_Fail e) n = Inl e"
| "rand_Int (Rand_Int_Value k) n = Inr (k mod n)"

definition Random :: "rand_int_outcome \<Rightarrow> memoryStore \<Rightarrow> string" where
  "Random r s =
    (if length (ms_quotes s) = 0 then DefaultQuote
     else case rand_Int r (length (ms_quotes s)) of
         Inl err \<Rightarrow> ms_quotes s ! 0
       | Inr n \<Rightarrow> ms_quotes s ! n)"

definition Count :: "memoryStore \<Rightarrow> nat" where
  "Count s = length (ms_quotes s)"

subsection \<open>Loading a file\<close>

text \<open>The encodings of the white space of \<^verbatim>\<open>unicode.IsSpace\<close>.\<close>

definition space_encodings :: "byte list list" where
  "space_encodings =
     [[9], [10], [11], [12], [13], [32], [0xC2, 0x85], [0xC2, 0xA0], [0xE1, 0x9A, 0x80]]
     @ map (\<lambda>b. [0xE2, 0x80, b])
         [0x80, 0x81, 0x82, 0x83, 0x84, 0x85, 0x86, 0x87, 0x88, 0x89, 0x8A, 0xA8, 0xA9, 0xAF]
     @ [[0xE2, 0x81, 0x9F], [0xE3, 0x80, 0x80]]"

definition starts_space :: "byte list \<Rightarrow> byte list option" where
  "starts_space bs = find (\<lambda>w. prefix w bs) space_encodings"

definition ends_space :: "byte list \<Rightarrow> byte list option" where
  "ends_space bs = find (\<lambda>w. suffix w bs) space_encodings"

lemma space_encodings_pos: "w \<in> set space_encodings \<Longrightarrow> 0 < length w"
  by (auto simp: space_encodings_def)

lemma starts_space_shorter: "starts_space bs = Some w \<Longrightarrow> length bs - length w < length bs"
  using space_encodings_pos [of w] prefix_length_le [of w bs]
  unfolding starts_space_def find_Some_iff by (metis diff_less le_trans not_le nth_mem)

lemma ends_space_shorter: "ends_space bs = Some w \<Longrightarrow> length bs - length w < length bs"
  using space_encodings_pos [of w] suffix_length_le [of w bs]
  unfolding ends_space_def find_Some_iff by (metis diff_less le_trans not_le nth_mem)

function trim_left :: "byte list \<Rightarrow> byte list" where
  "trim_left bs = (case starts_space bs of None \<Rightarrow> bs | Some w \<Rightarrow> trim_left (drop (length w) bs))"
  by pat_completeness auto
termination
  by (relation "measure length") (auto dest: starts_space_shorter)

function trim_right :: "byte list \<Rightarrow> byte list" where
  "trim_right bs =
    (case ends_space bs of None \<Rightarrow> bs | Some w \<Rightarrow> trim_right (take (length bs - length w) bs))"
  by pat_completeness auto
termination
  by (relation "measure length") (auto dest: ends_space_shorter)

declare trim_left.simps [simp del] trim_right.simps [simp del]

definition strings_TrimSpace :: "byte list \<Rightarrow> byte list" where
  "strings_TrimSpace bs = trim_right (trim_left bs)"

text \<open>
  \<^verbatim>\<open>bufio.ScanLines\<close>: the bytes up to a newline, less one carriage return before it. The last
  line needs no newline, and there is no empty line after the last newline.
\<close>

definition drop_CR :: "byte list \<Rightarrow> byte list" where
  "drop_CR bs = (if bs \<noteq> [] \<and> last bs = 13 then butlast bs else bs)"

definition bufio_ErrTooLong :: go_error where
  [go_errs]: "bufio_ErrTooLong = Sentinel ''bufio.ErrTooLong'' ''bufio.Scanner: token too long''"

definition MaxScanTokenSize :: nat where "MaxScanTokenSize = 65536"

text \<open>The loop of \<^verbatim>\<open>LoadFromFile\<close> over the bytes that are left, with the quotes found so far.\<close>

function load_loop :: "byte list \<Rightarrow> byte list list \<Rightarrow> byte list list result" where
  "load_loop bs quotes =
    (if bs = [] then Inr quotes
     else
       let raw = takeWhile (\<lambda>b. b \<noteq> 10) bs;
           rest = drop (length raw + 1) bs
       in if length raw \<ge> MaxScanTokenSize then Inl bufio_ErrTooLong
          else
            let line = strings_TrimSpace (drop_CR raw)
            in if line = [] \<or> prefix [35] line then load_loop rest quotes
               else load_loop rest (quotes @ [line]))"
  by pat_completeness auto
termination
  by (relation "measure (\<lambda>(bs, quotes). length bs)") auto

declare load_loop.simps [simp del]

text \<open>Opening may fail; a read error other than the end of file is reported at the end.\<close>

definition LoadFromFile :: "reader result \<Rightarrow> string list result" where
  "LoadFromFile open_result =
    (case open_result of
       Inl err \<Rightarrow> Inl err
     | Inr file \<Rightarrow>
        (case load_loop (rd_data file) [] of
           Inl err \<Rightarrow> Inl err
         | Inr quotes \<Rightarrow>
            (if rd_err file \<noteq> io_EOF then Inl (rd_err file) else Inr (map bytes_string quotes))))"

text \<open>A panic is \<open>None\<close>.\<close>

definition MustLoadFromFile :: "reader result \<Rightarrow> string list option" where
  "MustLoadFromFile open_result =
    (case LoadFromFile open_result of Inl err \<Rightarrow> None | Inr quotes \<Rightarrow> Some quotes)"

definition DefaultQuotes :: "string list" where
  "DefaultQuotes =
    [''The only true wisdom is in knowing you know nothing. - Socrates'',
     ''In the middle of difficulty lies opportunity. - Albert Einstein'',
     ''The unexamined life is not worth living. - Socrates'',
     ''Wisdom begins in wonder. - Socrates'',
     ''The only way to do great work is to love what you do. - Steve Jobs'',
     ''It is not that I'm so smart. But I stay with the questions much longer. - Albert Einstein'',
     ''The measure of intelligence is the ability to change. - Albert Einstein'',
     ''Know thyself. - Ancient Greek Aphorism'',
     ''To be yourself in a world that is constantly trying to make you something else is the greatest accomplishment. - Ralph Waldo Emerson'',
     ''The mind is everything. What you think you become. - Buddha'',
     ''Happiness is not something ready made. It comes from your own actions. - Dalai Lama'',
     ''The best time to plant a tree was 20 years ago. The second best time is now. - Chinese Proverb'',
     ''An unexamined life is not worth living. - Socrates'',
     ''He who knows others is wise; he who knows himself is enlightened. - Lao Tzu'',
     ''The journey of a thousand miles begins with a single step. - Lao Tzu'',
     ''What we think, we become. - Buddha'',
     ''The only thing I know is that I know nothing. - Socrates'',
     ''Life is really simple, but we insist on making it complicated. - Confucius'',
     ''Do not dwell in the past, do not dream of the future, concentrate the mind on the present moment. - Buddha'',
     ''The way to get started is to quit talking and begin doing. - Walt Disney'']"

text \<open>A loaded quote is a non-empty line that is no comment and has no white space around it.\<close>

definition good_line :: "byte list \<Rightarrow> bool" where
  "good_line line \<longleftrightarrow> line \<noteq> [] \<and> \<not> prefix [35] line \<and> starts_space line = None \<and> ends_space line = None"

text \<open>
  The lines of a file, without reference to the loop: what is between the newlines, with no empty
  line after the last one; and bytes that are white space only.
\<close>

fun split_lines :: "byte list \<Rightarrow> byte list list" where
  "split_lines [] = []"
| "split_lines (b # bs) =
    (if b = 10 then [] # split_lines bs
     else case split_lines bs of [] \<Rightarrow> [[b]] | l # ls \<Rightarrow> (b # l) # ls)"

definition is_quote :: "byte list \<Rightarrow> bool" where
  "is_quote line \<longleftrightarrow> line \<noteq> [] \<and> \<not> prefix [35] line"

definition spaces :: "byte list \<Rightarrow> bool" where
  "spaces bs \<longleftrightarrow> (\<exists>ws. set ws \<subseteq> set space_encodings \<and> bs = concat ws)"

section \<open>Lemmas\<close>

lemma Random_mem: "ms_quotes s \<noteq> [] \<Longrightarrow> Random r s \<in> set (ms_quotes s)"
  by (cases r) (auto simp: Random_def)

text \<open>Every quote can be drawn.\<close>

lemma Random_onto:
  "q \<in> set (ms_quotes s) \<Longrightarrow> \<exists>k. Random (Rand_Int_Value k) s = q"
proof -
  assume "q \<in> set (ms_quotes s)"
  then obtain i where "i < length (ms_quotes s)" "q = ms_quotes s ! i" by (auto simp: in_set_conv_nth)
  then have "Random (Rand_Int_Value i) s = q" by (auto simp: Random_def)
  then show ?thesis ..
qed

subsection \<open>The lines kept\<close>

lemma trim_left_no_space: "starts_space (trim_left bs) = None"
proof (induction bs rule: trim_left.induct)
  case (1 bs)
  then show ?case by (cases "starts_space bs") (simp_all add: trim_left.simps [of bs])
qed

lemma trim_right_no_space: "ends_space (trim_right bs) = None"
proof (induction bs rule: trim_right.induct)
  case (1 bs)
  then show ?case by (cases "ends_space bs") (simp_all add: trim_right.simps [of bs])
qed

lemma trim_right_prefix: "prefix (trim_right bs) bs"
proof (induction bs rule: trim_right.induct)
  case (1 bs)
  show ?case
  proof (cases "ends_space bs")
    case None
    then show ?thesis by (simp add: trim_right.simps [of bs])
  next
    case (Some w)
    then have "prefix (trim_right bs) (take (length bs - length w) bs)"
      using 1 by (simp add: trim_right.simps [of bs])
    then show ?thesis by (rule prefix_order.trans) (rule take_is_prefix)
  qed
qed

lemma starts_space_prefix: "starts_space bs = None \<Longrightarrow> prefix cs bs \<Longrightarrow> starts_space cs = None"
  unfolding starts_space_def find_None_iff by (meson prefix_order.trans)

lemma TrimSpace_no_space:
  "starts_space (strings_TrimSpace bs) = None \<and> ends_space (strings_TrimSpace bs) = None"
  using starts_space_prefix [OF trim_left_no_space trim_right_prefix, of bs] trim_right_no_space
  by (simp add: strings_TrimSpace_def)

text \<open>Only white space is trimmed.\<close>

lemma trim_left_spaces: "\<exists>u. spaces u \<and> bs = u @ trim_left bs"
proof (induction bs rule: trim_left.induct)
  case (1 bs)
  show ?case
  proof (cases "starts_space bs")
    case None
    then show ?thesis by (intro exI [of _ "[]"]) (auto simp: trim_left.simps [of bs] spaces_def intro: exI [of _ "[]"])
  next
    case (Some w)
    then have w: "w \<in> set space_encodings" "prefix w bs"
      by (auto simp: starts_space_def find_Some_iff)
    obtain ws where ws: "set ws \<subseteq> set space_encodings" "drop (length w) bs = concat ws @ trim_left (drop (length w) bs)"
      using 1 [OF Some] by (auto simp: spaces_def)
    have "bs = w @ drop (length w) bs" using w(2) by (auto simp: prefix_def)
    also have "\<dots> = concat (w # ws) @ trim_left bs" using ws(2) Some by (simp add: trim_left.simps [of bs])
    finally show ?thesis using w(1) ws(1) unfolding spaces_def by (intro exI [of _ "concat (w # ws)"]) (auto intro!: exI [of _ "w # ws"])
  qed
qed

lemma trim_right_spaces: "\<exists>u. spaces u \<and> bs = trim_right bs @ u"
proof (induction bs rule: trim_right.induct)
  case (1 bs)
  show ?case
  proof (cases "ends_space bs")
    case None
    then show ?thesis by (intro exI [of _ "[]"]) (auto simp: trim_right.simps [of bs] spaces_def intro: exI [of _ "[]"])
  next
    case (Some w)
    let ?b = "take (length bs - length w) bs"
    have w: "w \<in> set space_encodings" "suffix w bs"
      using Some by (auto simp: ends_space_def find_Some_iff)
    obtain ws where ws: "set ws \<subseteq> set space_encodings" "?b = trim_right ?b @ concat ws"
      using 1 [OF Some] by (auto simp: spaces_def)
    have "bs = ?b @ w" using w(2) by (auto simp: suffix_def)
    also have "\<dots> = trim_right bs @ concat (ws @ [w])" using ws(2) Some by (simp add: trim_right.simps [of bs])
    finally show ?thesis using w(1) ws(1) unfolding spaces_def by (intro exI [of _ "concat (ws @ [w])"]) (auto intro!: exI [of _ "ws @ [w]"])
  qed
qed

lemma TrimSpace_spaces: "\<exists>u v. spaces u \<and> spaces v \<and> bs = u @ strings_TrimSpace bs @ v"
  using trim_left_spaces [of bs] trim_right_spaces [of "trim_left bs"] unfolding strings_TrimSpace_def by metis

text \<open>The loop goes through the lines of the file.\<close>

lemma split_lines_unfold:
  "bs \<noteq> [] \<Longrightarrow> split_lines bs = takeWhile (\<lambda>b. b \<noteq> 10) bs # split_lines (drop (length (takeWhile (\<lambda>b. b \<noteq> 10) bs) + 1) bs)"
proof (induction bs)
  case (Cons b bs)
  then show ?case by (cases "bs = []") simp_all
qed simp

lemma split_lines_join:
  "concat (map (\<lambda>l. l @ [10]) (split_lines bs)) = (if bs = [] \<or> last bs = 10 then bs else bs @ [10])"
proof (induction bs)
  case (Cons b bs)
  have "split_lines bs = [] \<longleftrightarrow> bs = []" using split_lines_unfold [of bs] by (cases "bs = []") simp_all
  then show ?case using Cons by (auto split: list.splits)
qed simp

lemma split_lines_no_newline: "l \<in> set (split_lines bs) \<Longrightarrow> 10 \<notin> set l"
  by (induction bs arbitrary: l) (auto split: if_splits list.splits)

lemma load_loop_lines:
  "load_loop bs quotes =
    (if \<exists>l \<in> set (split_lines bs). MaxScanTokenSize \<le> length l then Inl bufio_ErrTooLong
     else Inr (quotes @ filter is_quote (map (\<lambda>l. strings_TrimSpace (drop_CR l)) (split_lines bs))))"
proof (induction bs quotes rule: load_loop.induct)
  case (1 bs quotes)
  define raw where "raw = takeWhile (\<lambda>b. b \<noteq> 10) bs"
  define line where "line = strings_TrimSpace (drop_CR raw)"
  show ?case
  proof (cases "bs = [] \<or> MaxScanTokenSize \<le> length raw")
    case True
    then show ?thesis
      using split_lines_unfold [of bs] by (auto simp: load_loop.simps [of bs] Let_def raw_def)
  next
    case False
    then have raw: "\<not> MaxScanTokenSize \<le> length raw" "bs \<noteq> []" by auto
    have lines: "split_lines bs = raw # split_lines (drop (length raw + 1) bs)"
      using split_lines_unfold [OF raw(2)] by (simp add: raw_def)
    show ?thesis
    proof (cases "is_quote line")
      case False
      then have skip: "line = [] \<or> prefix [35] line" by (auto simp: is_quote_def)
      then have "load_loop bs quotes = load_loop (drop (length raw + 1) bs) quotes"
        using raw by (simp add: load_loop.simps [of bs] Let_def raw_def line_def)
      also note 1(1) [OF raw(2) raw_def refl raw(1) line_def skip]
      finally show ?thesis using False raw(1) by (simp add: lines line_def)
    next
      case True
      then have keep: "\<not> (line = [] \<or> prefix [35] line)" by (auto simp: is_quote_def)
      then have "load_loop bs quotes = load_loop (drop (length raw + 1) bs) (quotes @ [line])"
        using raw by (simp add: load_loop.simps [of bs] Let_def raw_def line_def)
      also note 1(2) [OF raw(2) raw_def refl raw(1) line_def keep]
      finally show ?thesis using True raw(1) by (simp add: lines line_def)
    qed
  qed
qed

section \<open>Properties\<close>

text \<open>
  C40: The quotes of a file are its lines, in order. The lines are what is between the newlines; a
  line of 65536 bytes or more, or a read error, fails the load. Otherwise each line, less a
  carriage return at its end and the white space around it, is a quote unless it is then empty or a
  comment, and no quote starts or ends with white space. A store with these quotes answers with
  one of them, whatever the random source does, and each of them can be drawn; without one it
  answers \<^verbatim>\<open>DefaultQuote\<close>.
\<close>

theorem file_quotes_served:
  assumes lines: "lines = split_lines (rd_data file)"
    and kept: "kept = filter is_quote (map (\<lambda>l. strings_TrimSpace (drop_CR l)) lines)"
  shows "(\<forall>l \<in> set lines. 10 \<notin> set l) \<and>
    concat (map (\<lambda>l. l @ [10]) lines) =
      (if rd_data file = [] \<or> last (rd_data file) = 10 then rd_data file else rd_data file @ [10]) \<and>
    LoadFromFile (Inr file) =
      (if \<exists>l \<in> set lines. 65536 \<le> length l then Inl bufio_ErrTooLong
       else if rd_err file \<noteq> io_EOF then Inl (rd_err file) else Inr (map bytes_string kept)) \<and>
    (\<forall>l \<in> set lines. \<exists>u v. spaces u \<and> spaces v \<and> drop_CR l = u @ strings_TrimSpace (drop_CR l) @ v) \<and>
    (\<forall>q \<in> set kept. good_line q) \<and>
    (if kept = [] then Random r (NewMemoryStore (map bytes_string kept)) = DefaultQuote
     else (\<exists>q \<in> set kept. Random r (NewMemoryStore (map bytes_string kept)) = bytes_string q) \<and>
       (\<forall>q \<in> set kept. \<exists>k. Random (Rand_Int_Value k) (NewMemoryStore (map bytes_string kept)) = bytes_string q))"
proof -
  let ?store = "NewMemoryStore (map bytes_string kept)"
  have "LoadFromFile (Inr file) =
      (if \<exists>l \<in> set lines. 65536 \<le> length l then Inl bufio_ErrTooLong
       else if rd_err file \<noteq> io_EOF then Inl (rd_err file) else Inr (map bytes_string kept))"
    by (simp add: LoadFromFile_def load_loop_lines lines kept MaxScanTokenSize_def)
  moreover have "good_line q" if "q \<in> set kept" for q
    using that TrimSpace_no_space by (auto simp: kept good_line_def is_quote_def)
  moreover have "Random r ?store = DefaultQuote" if "kept = []"
    using that by (simp add: NewMemoryStore_def Random_def)
  moreover have "Random r ?store \<in> bytes_string ` set kept" if "kept \<noteq> []"
    using that Random_mem [of ?store r] by (simp add: NewMemoryStore_def)
  moreover have "\<exists>k. Random (Rand_Int_Value k) ?store = bytes_string q" if "q \<in> set kept" for q
    using that Random_onto [of "bytes_string q" ?store] by (simp add: NewMemoryStore_def)
  ultimately show ?thesis
    using split_lines_no_newline split_lines_join TrimSpace_spaces unfolding lines by auto
qed

theorem file_quotes_served_witness:
  "LoadFromFile (Inr \<lparr>rd_data = [35, 99, 10, 32, 75, 46, 13, 10, 10, 88], rd_err = io_EOF\<rparr>) = Inr [''K.'', ''X''] \<and>
   good_line [75, 46] \<and> Random (Rand_Int_Value 7) (NewMemoryStore [''K.'', ''X'']) \<in> {''K.'', ''X''}"
proof -
  let ?f = "\<lparr>rd_data = [35, 99, 10, 32, 75, 46, 13, 10, 10, 88], rd_err = io_EOF\<rparr>"
  let ?lines = "[[35, 99], [32, 75, 46, 13], [], [88]] :: byte list list" and ?kept = "[[75, 46], [88]] :: byte list list"
  have lines: "?lines = split_lines (rd_data ?f)" by simp
  have kept: "?kept = filter is_quote (map (\<lambda>l. strings_TrimSpace (drop_CR l)) ?lines)"
    by (simp add: is_quote_def drop_CR_def strings_TrimSpace_def trim_left.simps
        trim_right.simps starts_space_def ends_space_def space_encodings_def suffix_def)
  have shown: "bytes_string [75, 46] = ''K.''" "bytes_string [88] = ''X''"
    using bytes_string_bytes [of "''K.''"] bytes_string_bytes [of "''X''"] by (simp_all add: string_bytes_def)
  show ?thesis using file_quotes_served [OF lines kept, of "Rand_Int_Value 7"] shown by auto
qed

end
