(* ===== verification/App_Metrics.thy ===== *)
theory App_Metrics
  imports Go_Float
begin

text \<open>
  \<^verbatim>\<open>internal/metrics/prometheus.go\<close>: which metrics the program registers with the Prometheus
  library and which library call each of its functions makes. The library itself is not part
  of the repository: its calls are collected in order, as values of \<open>metric_call\<close>. The HTTP
  server for the metrics is in the theory \<^verbatim>\<open>Metrics_Server\<close>.
\<close>

section \<open>Definitions\<close>

datatype metric =
    ChallengesIssued | ChallengesSolved | ChallengesFailed | ChallengesExpired
  | CurrentDifficulty | SolveDuration
  | ConnectionsTotal | ConnectionsRejected | ConnectionsActive | ConnectionDuration
  | QuotesServed | RateLimitHits

datatype collector =
    Collector_Counter string string string
  | Collector_CounterVec string string string "string list"
  | Collector_Gauge string string string
  | Collector_Histogram string string string "rat list"

text \<open>The options each field of \<^verbatim>\<open>Metrics\<close> is created with: namespace, name, help text.\<close>

fun metrics_New :: "metric \<Rightarrow> collector" where
  "metrics_New ChallengesIssued =
     Collector_Counter ''pow'' ''challenges_issued_total'' ''Total number of challenges generated''"
| "metrics_New ChallengesSolved =
     Collector_Counter ''pow'' ''challenges_solved_total'' ''Total number of successfully verified solutions''"
| "metrics_New ChallengesFailed =
     Collector_Counter ''pow'' ''challenges_failed_total'' ''Total number of failed verification attempts''"
| "metrics_New ChallengesExpired =
     Collector_Counter ''pow'' ''challenges_expired_total'' ''Total number of expired challenges''"
| "metrics_New CurrentDifficulty =
     Collector_Gauge ''pow'' ''current_difficulty'' ''Current PoW difficulty level in bits''"
| "metrics_New SolveDuration =
     Collector_Histogram ''pow'' ''solve_duration_seconds'' ''Time from challenge issue to solution receipt''
       [1/2, 1, 2, 5, 10, 15, 20, 25, 30, 60]"
| "metrics_New ConnectionsTotal =
     Collector_Counter ''tcp'' ''connections_total'' ''Total number of connections accepted''"
| "metrics_New ConnectionsRejected =
     Collector_CounterVec ''tcp'' ''connections_rejected_total'' ''Total number of connections rejected''
       [''reason'']"
| "metrics_New ConnectionsActive =
     Collector_Gauge ''tcp'' ''connections_active'' ''Current number of active connections''"
| "metrics_New ConnectionDuration =
     Collector_Histogram ''tcp'' ''connection_duration_seconds'' ''Connection lifetime distribution''
       [1/10, 1/2, 1, 5, 10, 30, 60, 70]"
| "metrics_New QuotesServed =
     Collector_Counter ''quotes'' ''served_total'' ''Total number of quotes delivered''"
| "metrics_New RateLimitHits =
     Collector_Counter ''rate'' ''limit_hits_total'' ''Total number of rate limit triggers''"

definition ReasonRateLimited :: string where "ReasonRateLimited = ''rate_limited''"
definition ReasonPoolFull :: string where "ReasonPoolFull = ''pool_full''"

datatype metric_call =
    Metric_Inc metric
  | Metric_IncLabel metric string
  | Metric_Dec metric
  | Metric_Set metric f64
  | Metric_Observe metric f64

text \<open>
  \<^verbatim>\<open>TestMetrics\<close> creates its own collectors, and the order in which it registers them.
\<close>

fun TestMetrics :: "metric \<Rightarrow> collector" where
  "TestMetrics ChallengesIssued =
     Collector_Counter ''pow'' ''challenges_issued_total'' ''Total number of challenges generated''"
| "TestMetrics ChallengesSolved =
     Collector_Counter ''pow'' ''challenges_solved_total'' ''Total number of successfully verified solutions''"
| "TestMetrics ChallengesFailed =
     Collector_Counter ''pow'' ''challenges_failed_total'' ''Total number of failed verification attempts''"
| "TestMetrics ChallengesExpired =
     Collector_Counter ''pow'' ''challenges_expired_total'' ''Total number of expired challenges''"
| "TestMetrics CurrentDifficulty =
     Collector_Gauge ''pow'' ''current_difficulty'' ''Current PoW difficulty level in bits''"
| "TestMetrics SolveDuration =
     Collector_Histogram ''pow'' ''solve_duration_seconds'' ''Time from challenge issue to solution receipt''
       [1/2, 1, 2, 5, 10, 15, 20, 25, 30, 60]"
| "TestMetrics ConnectionsTotal =
     Collector_Counter ''tcp'' ''connections_total'' ''Total number of connections accepted''"
| "TestMetrics ConnectionsRejected =
     Collector_CounterVec ''tcp'' ''connections_rejected_total'' ''Total number of connections rejected''
       [''reason'']"
| "TestMetrics ConnectionsActive =
     Collector_Gauge ''tcp'' ''connections_active'' ''Current number of active connections''"
| "TestMetrics ConnectionDuration =
     Collector_Histogram ''tcp'' ''connection_duration_seconds'' ''Connection lifetime distribution''
       [1/10, 1/2, 1, 5, 10, 30, 60, 70]"
| "TestMetrics QuotesServed =
     Collector_Counter ''quotes'' ''served_total'' ''Total number of quotes delivered''"
| "TestMetrics RateLimitHits =
     Collector_Counter ''rate'' ''limit_hits_total'' ''Total number of rate limit triggers''"

definition TestMetrics_registered :: "metric list" where
  "TestMetrics_registered =
    [ChallengesIssued, ChallengesSolved, ChallengesFailed, ChallengesExpired, CurrentDifficulty, SolveDuration,
     ConnectionsTotal, ConnectionsRejected, ConnectionsActive, ConnectionDuration, QuotesServed, RateLimitHits]"

subsection \<open>The methods of Metrics\<close>

definition RecordChallengeIssued :: metric_call where
  "RecordChallengeIssued = Metric_Inc ChallengesIssued"
definition RecordChallengeSolved :: metric_call where
  "RecordChallengeSolved = Metric_Inc ChallengesSolved"
definition RecordChallengeFailed :: metric_call where
  "RecordChallengeFailed = Metric_Inc ChallengesFailed"
definition RecordChallengeExpired :: metric_call where
  "RecordChallengeExpired = Metric_Inc ChallengesExpired"
definition SetCurrentDifficulty :: "int \<Rightarrow> metric_call" where
  "SetCurrentDifficulty difficulty = Metric_Set CurrentDifficulty (f64_of_int difficulty)"
definition ObserveSolveDuration :: "duration \<Rightarrow> metric_call" where
  "ObserveSolveDuration d = Metric_Observe SolveDuration (Duration_Seconds d)"
definition RecordConnectionAccepted :: metric_call where
  "RecordConnectionAccepted = Metric_Inc ConnectionsTotal"
definition RecordConnectionRejected :: "string \<Rightarrow> metric_call" where
  "RecordConnectionRejected reason = Metric_IncLabel ConnectionsRejected reason"
definition SetActiveConnections :: "int \<Rightarrow> metric_call" where
  "SetActiveConnections count = Metric_Set ConnectionsActive (f64_of_int count)"
definition IncActiveConnections :: metric_call where
  "IncActiveConnections = Metric_Inc ConnectionsActive"
definition DecActiveConnections :: metric_call where
  "DecActiveConnections = Metric_Dec ConnectionsActive"
definition ObserveConnectionDuration :: "duration \<Rightarrow> metric_call" where
  "ObserveConnectionDuration d = Metric_Observe ConnectionDuration (Duration_Seconds d)"
definition RecordQuoteServed :: metric_call where
  "RecordQuoteServed = Metric_Inc QuotesServed"
definition RecordRateLimitHit :: metric_call where
  "RecordRateLimitHit = Metric_Inc RateLimitHits"

subsection \<open>The functions on the default metrics\<close>

definition metrics_ChallengeIssued :: metric_call where
  "metrics_ChallengeIssued = RecordChallengeIssued"
definition metrics_ChallengeSolved :: metric_call where
  "metrics_ChallengeSolved = RecordChallengeSolved"
definition metrics_ChallengeFailed :: metric_call where
  "metrics_ChallengeFailed = RecordChallengeFailed"
definition metrics_ChallengeExpired :: metric_call where
  "metrics_ChallengeExpired = RecordChallengeExpired"
definition metrics_SetDifficulty :: "int \<Rightarrow> metric_call" where
  "metrics_SetDifficulty difficulty = SetCurrentDifficulty difficulty"
definition metrics_SolveDurationObserve :: "duration \<Rightarrow> metric_call" where
  "metrics_SolveDurationObserve d = ObserveSolveDuration d"
definition metrics_ConnectionAccepted :: metric_call where
  "metrics_ConnectionAccepted = RecordConnectionAccepted"
definition metrics_ConnectionRejected :: "string \<Rightarrow> metric_call" where
  "metrics_ConnectionRejected reason = RecordConnectionRejected reason"
definition metrics_ActiveConnections :: "int \<Rightarrow> metric_call" where
  "metrics_ActiveConnections count = SetActiveConnections count"
definition metrics_IncActive :: metric_call where
  "metrics_IncActive = IncActiveConnections"
definition metrics_DecActive :: metric_call where
  "metrics_DecActive = DecActiveConnections"
definition metrics_ConnectionDurationObserve :: "duration \<Rightarrow> metric_call" where
  "metrics_ConnectionDurationObserve d = ObserveConnectionDuration d"
definition metrics_QuoteServed :: metric_call where
  "metrics_QuoteServed = RecordQuoteServed"
definition metrics_RateLimitHit :: metric_call where
  "metrics_RateLimitHit = RecordRateLimitHit"

lemmas metric_calls = RecordChallengeIssued_def RecordChallengeSolved_def RecordChallengeFailed_def
  RecordChallengeExpired_def SetCurrentDifficulty_def ObserveSolveDuration_def
  RecordConnectionAccepted_def RecordConnectionRejected_def SetActiveConnections_def
  IncActiveConnections_def DecActiveConnections_def ObserveConnectionDuration_def
  RecordQuoteServed_def RecordRateLimitHit_def metrics_ChallengeIssued_def
  metrics_ChallengeSolved_def metrics_ChallengeFailed_def metrics_ChallengeExpired_def
  metrics_SetDifficulty_def metrics_SolveDurationObserve_def metrics_ConnectionAccepted_def
  metrics_ConnectionRejected_def metrics_ActiveConnections_def metrics_IncActive_def
  metrics_DecActive_def metrics_ConnectionDurationObserve_def metrics_QuoteServed_def
  metrics_RateLimitHit_def

text \<open>How often a counter was incremented.\<close>

definition count_inc :: "metric \<Rightarrow> metric_call list \<Rightarrow> nat" where
  "count_inc m calls = length (filter (\<lambda>c. c = Metric_Inc m) calls)"

text \<open>The namespace and the name of a collector.\<close>

fun collector_name :: "collector \<Rightarrow> string \<times> string" where
  "collector_name (Collector_Counter ns n h) = (ns, n)"
| "collector_name (Collector_CounterVec ns n h ls) = (ns, n)"
| "collector_name (Collector_Gauge ns n h) = (ns, n)"
| "collector_name (Collector_Histogram ns n h bs) = (ns, n)"

section \<open>Lemmas\<close>

lemma count_inc_simps [simp]:
  "count_inc m [] = 0"
  "count_inc m (c # cs) = of_bool (c = Metric_Inc m) + count_inc m cs"
  "count_inc m (cs @ ds) = count_inc m cs + count_inc m ds"
  by (simp_all add: count_inc_def)

end
