(* ===== verification/Go_World.thy ===== *)
theory Go_World
  imports Protocol_Message App_Metrics Pow_Generator Quote_Store "HOL-Library.State_Monad"
begin

text \<open>
  The outside of a connection, for the code that runs on one: the peer, the clock, the random
  source, the context and the metrics. What the outside will do is fixed in advance and
  arbitrary: the bytes that arrive and the error that follows them, the outcome of the
  \<open>k\<close>-th write or deadline call, the \<open>k\<close>-th reading of the clock, and so on; a counter says
  how many were used. Code that runs on a connection is a computation in the state monad of
  library theory \<open>State_Monad\<close>, over this record or an extension of it.

  The record also keeps what the code did: the bytes it wrote, the deadlines it set, its calls
  of the metrics library and the trace of the messages read and written.
\<close>

section \<open>Definitions\<close>

datatype io_event =
    Io_Read message
  | Io_Write message bool
  | Io_Now instant

record world =
  w_reader :: reader
  w_writes :: "nat \<Rightarrow> write_outcome"
  w_deadlines :: "nat \<Rightarrow> go_error option"
  w_clock :: "nat \<Rightarrow> instant"
  w_rand :: "nat \<Rightarrow> rand_outcome"
  w_randint :: "nat \<Rightarrow> rand_int_outcome"
  w_ctx :: "nat \<Rightarrow> go_error option"
  n_writes :: nat
  n_deadlines :: nat
  n_clock :: nat
  n_rand :: nat
  n_randint :: nat
  n_ctx :: nat
  w_sent :: "byte list"
  w_readDeadline :: "instant option"
  w_writeDeadline :: "instant option"
  w_metrics :: "metric_call list"
  w_trace :: "io_event list"

definition time_Now :: "('a world_scheme, instant) state" where
  "time_Now = State (\<lambda>w. (w_clock w (n_clock w),
     w\<lparr>n_clock := n_clock w + 1, w_trace := w_trace w @ [Io_Now (w_clock w (n_clock w))]\<rparr>))"

definition rand_next :: "('a world_scheme, rand_outcome) state" where
  "rand_next = State (\<lambda>w. (w_rand w (n_rand w), w\<lparr>n_rand := n_rand w + 1\<rparr>))"

definition randint_next :: "('a world_scheme, rand_int_outcome) state" where
  "randint_next = State (\<lambda>w. (w_randint w (n_randint w), w\<lparr>n_randint := n_randint w + 1\<rparr>))"

text \<open>\<^verbatim>\<open>ctx.Err()\<close> at the next look at the context; \<open>None\<close> while it is not done.\<close>

definition ctx_Err :: "('a world_scheme, go_error option) state" where
  "ctx_Err = State (\<lambda>w. (w_ctx w (n_ctx w), w\<lparr>n_ctx := n_ctx w + 1\<rparr>))"

definition SetReadDeadline :: "instant \<Rightarrow> ('a world_scheme, go_error option) state" where
  "SetReadDeadline t = State (\<lambda>w.
     (w_deadlines w (n_deadlines w),
      w\<lparr>n_deadlines := n_deadlines w + 1,
        w_readDeadline := (if w_deadlines w (n_deadlines w) = None then Some t else w_readDeadline w)\<rparr>))"

definition SetWriteDeadline :: "instant \<Rightarrow> ('a world_scheme, go_error option) state" where
  "SetWriteDeadline t = State (\<lambda>w.
     (w_deadlines w (n_deadlines w),
      w\<lparr>n_deadlines := n_deadlines w + 1,
        w_writeDeadline := (if w_deadlines w (n_deadlines w) = None then Some t else w_writeDeadline w)\<rparr>))"

text \<open>\<^verbatim>\<open>SetDeadline\<close> sets both deadlines.\<close>

definition SetDeadline :: "instant \<Rightarrow> ('a world_scheme, go_error option) state" where
  "SetDeadline t = State (\<lambda>w.
     (w_deadlines w (n_deadlines w),
      if w_deadlines w (n_deadlines w) = None
      then w\<lparr>n_deadlines := n_deadlines w + 1, w_readDeadline := Some t, w_writeDeadline := Some t\<rparr>
      else w\<lparr>n_deadlines := n_deadlines w + 1\<rparr>))"

definition conn_ReadMessage :: "('a world_scheme, message result) state" where
  "conn_ReadMessage = State (\<lambda>w.
     (case ReadMessage (w_reader w) of
        (Inl e, r) \<Rightarrow> (Inl e, w\<lparr>w_reader := r\<rparr>)
      | (Inr m, r) \<Rightarrow> (Inr m, w\<lparr>w_reader := r, w_trace := w_trace w @ [Io_Read m]\<rparr>)))"

text \<open>A message that cannot be marshalled is not written; the next write's outcome is kept.\<close>

definition conn_WriteMessage :: "message \<Rightarrow> ('a world_scheme, go_error option) state" where
  "conn_WriteMessage m = State (\<lambda>w.
     (case WriteMessage (w_writes w (n_writes w)) m of
        (err, bytes) \<Rightarrow>
          (err, if is_ok (Message_Marshal m)
                then w\<lparr>n_writes := n_writes w + 1, w_sent := w_sent w @ bytes,
                       w_trace := w_trace w @ [Io_Write m (err = None)]\<rparr>
                else w)))"

definition record_metric :: "metric_call \<Rightarrow> ('a world_scheme, unit) state" where
  "record_metric c = State (\<lambda>w. ((), w\<lparr>w_metrics := w_metrics w @ [c]\<rparr>))"

text \<open>The messages of a trace, in order.\<close>

fun messages_read :: "io_event list \<Rightarrow> message list" where
  "messages_read [] = []"
| "messages_read (Io_Read m # es) = m # messages_read es"
| "messages_read (e # es) = messages_read es"

fun messages_written :: "io_event list \<Rightarrow> message list" where
  "messages_written [] = []"
| "messages_written (Io_Write m ok # es) = m # messages_written es"
| "messages_written (e # es) = messages_written es"

section \<open>Lemmas\<close>

text \<open>How a computation runs, for symbolic evaluation.\<close>

lemma run_bind [simp]:
  "run_state (State_Monad.bind m f) s = (case run_state m s of (a, s') \<Rightarrow> run_state (f a) s')"
  by (simp add: State_Monad.bind_def split: prod.split)

lemma run_return [simp]: "run_state (State_Monad.return a) s = (a, s)"
  by (simp add: State_Monad.return_def)

lemma messages_append [simp]:
  "messages_read (es @ fs) = messages_read es @ messages_read fs"
  "messages_written (es @ fs) = messages_written es @ messages_written fs"
  by (induction es rule: messages_read.induct) simp_all

end
