(* ===== verification/Conn_Handler.thy ===== *)
theory Conn_Handler
  imports Go_World Pow_Verifier
begin

text \<open>
  \<^verbatim>\<open>internal/server/handler.go\<close>: the protocol of one connection, a state machine over the
  messages it reads. The Go functions mutate \<^verbatim>\<open>cc *connectionContext\<close> and use \<^verbatim>\<open>conn\<close> and
  \<^verbatim>\<open>ctx\<close>: here they are computations on a \<open>session\<close>, the world of theory \<open>Go_World\<close>
  extended by the fields of \<^verbatim>\<open>connectionContext\<close>. The logger and the remote address, which only
  the log lines use, are left out. \<^verbatim>\<open>Verify\<close> reads the clock when it is called.
\<close>

section \<open>Definitions\<close>

subsection \<open>State\<close>

datatype connectionState = stateConnected | stateChallenging | stateAuthorized | stateCompleted

fun connectionState_String :: "connectionState \<Rightarrow> string" where
  "connectionState_String stateConnected = ''CONNECTED''"
| "connectionState_String stateChallenging = ''CHALLENGING''"
| "connectionState_String stateAuthorized = ''AUTHORIZED''"
| "connectionState_String stateCompleted = ''COMPLETED''"

record HandlerConfig =
  hc_ReadTimeout :: duration
  hc_WriteTimeout :: duration
  hc_IdleTimeout :: duration
  hc_ChallengeTimeout :: duration
  hc_MaxAttempts :: int
  hc_Difficulty :: u8
  hc_ClockSkew :: duration

definition DefaultHandlerConfig :: HandlerConfig where
  "DefaultHandlerConfig =
    \<lparr>hc_ReadTimeout = 10 * time_Second, hc_WriteTimeout = 10 * time_Second,
     hc_IdleTimeout = 5 * time_Second, hc_ChallengeTimeout = 60 * time_Second,
     hc_MaxAttempts = 3, hc_Difficulty = 20, hc_ClockSkew = 30 * time_Second\<rparr>"

record Handler =
  h_generator :: generatorImpl
  h_verifier :: verifierImpl
  h_quotes :: memoryStore
  h_config :: HandlerConfig

definition NewHandler :: "generatorImpl \<Rightarrow> verifierImpl \<Rightarrow> memoryStore \<Rightarrow> HandlerConfig \<Rightarrow> Handler" where
  "NewHandler generator verifier quoteStore config =
    \<lparr>h_generator = generator, h_verifier = verifier, h_quotes = quoteStore, h_config = config\<rparr>"

text \<open>The fields of \<^verbatim>\<open>connectionContext\<close>; a zero \<^verbatim>\<open>challengeTime\<close> is \<open>None\<close>.\<close>

record session = world +
  cc_state :: connectionState
  cc_challenge :: "challenge option"
  cc_challengeTime :: "instant option"
  cc_attempts :: int

type_synonym 'r sess = "(session, 'r) state"

definition set_cc :: "(session \<Rightarrow> session) \<Rightarrow> unit sess" where
  "set_cc f = State (\<lambda>s. ((), f s))"

definition get_cc :: "(session \<Rightarrow> 'r) \<Rightarrow> 'r sess" where
  "get_cc f = State (\<lambda>s. (f s, s))"

subsection \<open>Sending\<close>

definition sendMessage :: "Handler \<Rightarrow> message \<Rightarrow> go_error option sess" where
  "sendMessage h msg = do {
     now \<leftarrow> time_Now;
     err \<leftarrow> SetWriteDeadline (now + hc_WriteTimeout (h_config h));
     case err of
       Some e \<Rightarrow> State_Monad.return (Some (Errorf ''set write deadline: '' e []))
     | None \<Rightarrow> do {
         err \<leftarrow> conn_WriteMessage msg;
         case err of
           Some e \<Rightarrow> State_Monad.return (Some (Errorf ''write message: '' e []))
         | None \<Rightarrow> State_Monad.return None
       }
   }"

definition sendError :: "Handler \<Rightarrow> ErrorCode \<Rightarrow> go_error option sess" where
  "sendError h code = sendMessage h (NewError code)"

text \<open>
  The pattern of all fatal branches: report the code to the client, then return the given
  error, or that of the failed write.
\<close>

definition fail_with :: "Handler \<Rightarrow> ErrorCode \<Rightarrow> go_error \<Rightarrow> (bool \<times> go_error option) sess" where
  "fail_with h code e = do {
     sendErr \<leftarrow> sendError h code;
     case sendErr of
       Some e' \<Rightarrow> State_Monad.return (True, Some e')
     | None \<Rightarrow> State_Monad.return (True, Some e)
   }"

definition sendQuote :: "Handler \<Rightarrow> (bool \<times> go_error option) sess" where
  "sendQuote h = do {
     r \<leftarrow> randint_next;
     let quoteMsg = NewQuote (Random r (h_quotes h));
     err \<leftarrow> sendMessage h quoteMsg;
     case err of
       Some e \<Rightarrow> State_Monad.return (True, Some e)
     | None \<Rightarrow> do {
         record_metric metrics_QuoteServed;
         set_cc (cc_state_update (\<lambda>_. stateCompleted));
         State_Monad.return (True, None)
       }
   }"

subsection \<open>The states\<close>

definition handleConnected :: "Handler \<Rightarrow> message \<Rightarrow> (bool \<times> go_error option) sess" where
  "handleConnected h msg =
    (if Type msg \<noteq> TypeRequestChallenge
     then fail_with h ErrCodeInvalidState
            (Err_Text (''invalid message type: expected REQUEST_CHALLENGE, got '' @ MessageType_String (Type msg)))
     else do {
       now \<leftarrow> time_Now;
       r1 \<leftarrow> rand_next;
       r2 \<leftarrow> rand_next;
       case Generate (h_generator h) (hc_Difficulty (h_config h)) now r1 r2 of
         Inl err \<Rightarrow> fail_with h ErrCodeInvalidMessage (Errorf ''generate challenge: '' err [])
       | Inr challenge \<Rightarrow> do {
           err \<leftarrow> sendMessage h (NewChallenge (Challenge_Marshal challenge));
           case err of
             Some e \<Rightarrow> State_Monad.return (True, Some e)
           | None \<Rightarrow> do {
               record_metric metrics_ChallengeIssued;
               set_cc (cc_state_update (\<lambda>_. stateChallenging));
               set_cc (cc_challenge_update (\<lambda>_. Some challenge));
               now \<leftarrow> time_Now;
               set_cc (cc_challengeTime_update (\<lambda>_. Some now));
               set_cc (cc_attempts_update (\<lambda>_. 0));
               now \<leftarrow> time_Now;
               err \<leftarrow> SetReadDeadline (now + hc_ChallengeTimeout (h_config h));
               case err of
                 Some e \<Rightarrow> State_Monad.return (True, Some (Errorf ''set challenge deadline: '' e []))
               | None \<Rightarrow> State_Monad.return (False, None)
             }
         }
     })"

definition handleVerificationError :: "Handler \<Rightarrow> go_error \<Rightarrow> (bool \<times> go_error option) sess" where
  "handleVerificationError h err = do {
     set_cc (cc_attempts_update (\<lambda>n. n + 1));
     if errors_Is err ErrInvalidSignature then do {
       record_metric metrics_ChallengeFailed;
       fail_with h ErrCodeInvalidSignature (Err_Text ''invalid signature'')
     }
     else if errors_Is err ErrChallengeExpired then do {
       record_metric metrics_ChallengeExpired;
       fail_with h ErrCodeChallengeExpired (Err_Text ''challenge expired'')
     }
     else if errors_Is err ErrFutureTimestamp then do {
       record_metric metrics_ChallengeExpired;
       fail_with h ErrCodeChallengeExpired (Err_Text ''future timestamp'')
     }
     else if errors_Is err ErrInsufficientWork then do {
       record_metric metrics_ChallengeFailed;
       attempts \<leftarrow> get_cc cc_attempts;
       if attempts \<ge> hc_MaxAttempts (h_config h)
       then fail_with h ErrCodeTooManyAttempts (Err_Text ''max attempts exceeded'')
       else do {
         sendErr \<leftarrow> sendError h ErrCodeInvalidSolution;
         case sendErr of
           Some e \<Rightarrow> State_Monad.return (True, Some e)
         | None \<Rightarrow> State_Monad.return (False, None)
       }
     }
     else do {
       record_metric metrics_ChallengeFailed;
       fail_with h ErrCodeInvalidMessage (Errorf ''verification error: '' err [])
     }
   }"

definition handleChallenging :: "Handler \<Rightarrow> message \<Rightarrow> (bool \<times> go_error option) sess" where
  "handleChallenging h msg =
    (if Type msg \<noteq> TypeSolution
     then fail_with h ErrCodeInvalidState
            (Err_Text (''invalid message type: expected SOLUTION, got '' @ MessageType_String (Type msg)))
     else case UnmarshalSolution (Payload msg) of
         Inl err \<Rightarrow> fail_with h ErrCodeInvalidMessage (Errorf ''parse solution: '' err [])
       | Inr solution \<Rightarrow> do {
           now \<leftarrow> time_Now;
           case Verify (h_verifier h) now solution of
             Some err \<Rightarrow> handleVerificationError h err
           | None \<Rightarrow> do {
               set_cc (cc_state_update (\<lambda>_. stateAuthorized));
               record_metric metrics_ChallengeSolved;
               challengeTime \<leftarrow> get_cc cc_challengeTime;
               (case challengeTime of
                  None \<Rightarrow> State_Monad.return ()
                | Some t \<Rightarrow> do {
                    now \<leftarrow> time_Now;
                    record_metric (metrics_SolveDurationObserve (time_Sub now t))
                  });
               sendQuote h
             }
         })"

definition handleAuthorized :: "Handler \<Rightarrow> message \<Rightarrow> (bool \<times> go_error option) sess" where
  "handleAuthorized h msg = State_Monad.return (True, None)"

definition processMessage :: "Handler \<Rightarrow> message \<Rightarrow> (bool \<times> go_error option) sess" where
  "processMessage h msg = do {
     st \<leftarrow> get_cc cc_state;
     case st of
       stateConnected \<Rightarrow> handleConnected h msg
     | stateChallenging \<Rightarrow> handleChallenging h msg
     | stateAuthorized \<Rightarrow> handleAuthorized h msg
     | stateCompleted \<Rightarrow>
         State_Monad.return (True, Some (Err_Text (''invalid state: '' @ connectionState_String st)))
   }"

definition handleReadError :: "Handler \<Rightarrow> go_error \<Rightarrow> go_error option sess" where
  "handleReadError h err =
    (if errors_Is err io_EOF then State_Monad.return None
     else if net_Error_Timeout err then do {
       st \<leftarrow> get_cc cc_state;
       _ \<leftarrow> (if st = stateChallenging then sendError h ErrCodeChallengeExpired
             else State_Monad.return None);
       State_Monad.return (Some (Errorf ''read timeout: '' err []))
     }
     else State_Monad.return (Some (Errorf ''read message: '' err [])))"

subsection \<open>Views of a session\<close>

text \<open>
  What a handler function never changes (the peer's bytes and everything the outside has
  decided), what the connection context holds, and the messages of the trace without the
  clock readings between them.
\<close>

definition outside where
  "outside s = (w_reader s, w_writes s, w_deadlines s, w_clock s, w_rand s, w_randint s, w_ctx s)"

definition context_of where
  "context_of s = (cc_state s, cc_challenge s, cc_challengeTime s, cc_attempts s)"

fun is_message :: "io_event \<Rightarrow> bool" where
  "is_message (Io_Now t) = False"
| "is_message e = True"

definition wire :: "session \<Rightarrow> io_event list" where
  "wire s = filter is_message (w_trace s)"

section \<open>Lemmas\<close>

lemmas session_views = outside_def context_of_def wire_def

lemmas io_defs = time_Now_def rand_next_def randint_next_def ctx_Err_def SetReadDeadline_def
  SetWriteDeadline_def record_metric_def set_cc_def get_cc_def

lemma is_message_of [simp]: "is_message e \<longleftrightarrow> (\<forall>t. e \<noteq> Io_Now t)"
  by (cases e) simp_all

subsection \<open>What the sending functions do\<close>

text \<open>
  Sending ends in one of two ways: the message was written, or there was an error and the
  message was written in part or not at all. Nothing else changes.
\<close>

lemma sendMessage_cases:
  assumes "run_state (sendMessage h m) s = (err, s')"
  obtains (sent) "err = None" "outside s' = outside s" "context_of s' = context_of s"
      "w_metrics s' = w_metrics s" "wire s' = wire s @ [Io_Write m True]"
  | (failed) e reply where "err = Some e" "outside s' = outside s" "context_of s' = context_of s"
      "w_metrics s' = w_metrics s" "wire s' = wire s @ reply" "reply \<in> {[], [Io_Write m False]}"
proof -
  have "(err = None \<and> wire s' = wire s @ [Io_Write m True] \<or>
         (\<exists>e reply. err = Some e \<and> wire s' = wire s @ reply \<and> reply \<in> {[], [Io_Write m False]})) \<and>
        outside s' = outside s \<and> context_of s' = context_of s \<and> w_metrics s' = w_metrics s"
    using assms
    by (auto simp: sendMessage_def io_defs conn_WriteMessage_def session_views WriteMessage_def
             split: option.splits prod.splits if_splits sum.splits)
  then show thesis using that by blast
qed

lemma fail_with_cases:
  assumes "run_state (fail_with h code e) s = ((stop, err), s')"
  obtains e' reply where "stop" "err = Some e'" "outside s' = outside s" "context_of s' = context_of s"
      "w_metrics s' = w_metrics s" "wire s' = wire s @ reply"
      "reply \<in> {[], [Io_Write (NewError code) False], [Io_Write (NewError code) True]}"
proof -
  obtain err1 s1 where s1: "run_state (sendMessage h (NewError code)) s = (err1, s1)"
    by (cases "run_state (sendMessage h (NewError code)) s")
  with assms have eq: "stop" "s1 = s'" "err = Some (case err1 of Some e' \<Rightarrow> e' | None \<Rightarrow> e)"
    by (auto simp: fail_with_def sendError_def split: option.splits)
  from s1 show thesis
    by (cases rule: sendMessage_cases) (use eq that in auto)
qed

subsection \<open>The handlers leave the outside alone\<close>

definition keeps_outside :: "'r sess \<Rightarrow> bool" where
  "keeps_outside m \<longleftrightarrow> (\<forall>s. outside (snd (run_state m s)) = outside s)"

lemma keeps_outsideD: "keeps_outside m \<Longrightarrow> run_state m s = (r, s') \<Longrightarrow> outside s' = outside s"
  by (auto simp: keeps_outside_def dest: spec [of _ s])

lemma keeps_bind [intro]:
  "keeps_outside m \<Longrightarrow> (\<And>a. keeps_outside (f a)) \<Longrightarrow> keeps_outside (State_Monad.bind m f)"
  by (simp add: keeps_outside_def split: prod.split) (metis prod.collapse snd_conv)

lemma keeps_basic [intro]:
  "keeps_outside (State_Monad.return a)" "keeps_outside time_Now" "keeps_outside rand_next"
  "keeps_outside randint_next" "keeps_outside (record_metric c)" "keeps_outside (SetReadDeadline t)"
  "keeps_outside (get_cc f)"
  by (simp_all add: keeps_outside_def io_defs outside_def)

lemma keeps_set_cc [intro]:
  "keeps_outside (set_cc (cc_state_update f1))" "keeps_outside (set_cc (cc_challenge_update f2))"
  "keeps_outside (set_cc (cc_challengeTime_update f3))" "keeps_outside (set_cc (cc_attempts_update f4))"
  by (simp_all add: keeps_outside_def set_cc_def outside_def)

lemma keeps_sendMessage [intro]: "keeps_outside (sendMessage h m)"
  unfolding keeps_outside_def by (metis sendMessage_cases prod.collapse)

lemma keeps_option [intro]:
  "keeps_outside a \<Longrightarrow> (\<And>x. keeps_outside (b x)) \<Longrightarrow>
   keeps_outside (case v of None \<Rightarrow> a | Some x \<Rightarrow> b x)"
  by (cases v) simp_all

lemma keeps_sum [intro]:
  "(\<And>x. keeps_outside (a x)) \<Longrightarrow> (\<And>x. keeps_outside (b x)) \<Longrightarrow>
   keeps_outside (case v of Inl x \<Rightarrow> a x | Inr x \<Rightarrow> b x)"
  by (cases v) simp_all

lemma keeps_if [intro]:
  "keeps_outside a \<Longrightarrow> keeps_outside b \<Longrightarrow> keeps_outside (if c then a else b)"
  by simp

lemma keeps_handlers [intro]:
  "keeps_outside (sendError h code)" "keeps_outside (fail_with h code e)" "keeps_outside (sendQuote h)"
  unfolding sendError_def fail_with_def sendQuote_def Let_def by (rule | intro keeps_option keeps_bind)+

lemma keeps_processMessage: "keeps_outside (processMessage h msg)"
proof -
  have c: "keeps_outside (handleConnected h msg)"
    unfolding handleConnected_def by (intro keeps_if keeps_bind keeps_sum keeps_option) rule+
  have e: "keeps_outside (handleVerificationError h err)" for err
    unfolding handleVerificationError_def by (intro keeps_if keeps_bind keeps_option) rule+
  have "keeps_outside (handleChallenging h msg)"
    unfolding handleChallenging_def by (intro keeps_if keeps_bind keeps_sum keeps_option e) rule+
  with c show ?thesis
    unfolding processMessage_def handleAuthorized_def
    by (intro keeps_bind) (auto split: connectionState.split)
qed

subsection \<open>Reading\<close>

lemma conn_ReadMessage_Inr:
  assumes "run_state conn_ReadMessage s = (Inr m, s')"
  obtains r where "s' = s\<lparr>w_reader := r, w_trace := w_trace s @ [Io_Read m]\<rparr>" "fits m"
    "rd_data (w_reader s) = frame_of m @ rd_data r" "rd_err r = rd_err (w_reader s)"
  using assms by (auto simp: conn_ReadMessage_def ReadMessage_Inr_iff split: prod.splits sum.splits)

lemma conn_ReadMessage_Inl:
  assumes "run_state conn_ReadMessage s = (Inl e, s')"
  obtains r where "s' = s\<lparr>w_reader := r\<rparr>" "\<not> net_Error_Timeout e"
  using assms ReadMessage_Inl_wrapped by (auto simp: conn_ReadMessage_def split: prod.splits sum.splits)

lemma conn_ReadMessage_consumes:
  assumes "run_state conn_ReadMessage s = (Inr m, s')"
  shows "length (rd_data (w_reader s')) < length (rd_data (w_reader s))"
  using assms by (rule conn_ReadMessage_Inr) (simp add: Message_Size_def proto_sizes)

text \<open>A read error never makes the handler write: the branch for timeouts is not reached.\<close>

lemma handleReadError_silent:
  assumes "\<not> net_Error_Timeout e" "run_state (handleReadError h e) s = (err, s')"
  shows "s' = s" "err = None \<longleftrightarrow> errors_Is e io_EOF"
  using assms by (auto simp: handleReadError_def split: if_splits)

end
