(* ===== verification/Conn_Protocol.thy ===== *)
theory Conn_Protocol
  imports Conn_Handler
begin

text \<open>
  The loop of \<^verbatim>\<open>Handle\<close> in \<^verbatim>\<open>internal/server/handler.go\<close>, and the protocol it implements as an
  abstract machine: a connection is a sequence of turns, each a message of the client and at
  most one reply, over three phases. The loop is shown to refine the machine, and what a
  connection guarantees is proved on the machine.
\<close>

section \<open>Definitions\<close>

subsection \<open>Handle\<close>

text \<open>
  One round reads one message. The loop ends because every message takes at least three bytes
  off the stream; a peer that sends forever is the limit of such streams.
\<close>

function handle_loop :: "Handler \<Rightarrow> session \<Rightarrow> go_error option \<times> session" where
  "handle_loop h s =
    (case run_state ctx_Err s of
       (Some e, s) \<Rightarrow> (Some e, s)
     | (None, s) \<Rightarrow>
        (case run_state conn_ReadMessage s of
           (Inl err, s) \<Rightarrow> run_state (handleReadError h err) s
         | (Inr msg, s) \<Rightarrow>
            (case run_state (processMessage h msg) s of
               ((stop, Some e), s) \<Rightarrow> (Some e, s)
             | ((stop, None), s) \<Rightarrow> (if stop then (None, s) else handle_loop h s))))"
  by pat_completeness auto
termination
proof (relation "measure (\<lambda>(h, s). length (rd_data (w_reader s)))", goal_cases)
  case 1
  show ?case by simp
next
  case (2 h s x s1 y s2 msg z s3 stop err)
  then have "w_reader s1 = w_reader s"
    by (auto simp: ctx_Err_def)
  moreover have "length (rd_data (w_reader s2)) < length (rd_data (w_reader s1))"
    using 2 conn_ReadMessage_consumes [of s1 msg s2] by simp
  moreover have "w_reader s3 = w_reader s2"
    using 2 keeps_outsideD [OF keeps_processMessage] by (metis outside_def fst_conv)
  ultimately show ?case by simp
qed

declare handle_loop.simps [simp del]

definition newConnectionContext :: "session \<Rightarrow> session" where
  "newConnectionContext s =
    s\<lparr>cc_state := stateConnected, cc_challenge := None, cc_challengeTime := None, cc_attempts := 0\<rparr>"

definition Handle :: "Handler \<Rightarrow> session \<Rightarrow> go_error option \<times> session" where
  "Handle h s =
    (let s = newConnectionContext s;
         (now, s) = run_state time_Now s;
         (err, s) = run_state (SetReadDeadline (now + hc_IdleTimeout (h_config h))) s
     in case err of
          Some e \<Rightarrow> (Some (Errorf ''set idle deadline: '' e []), s)
        | None \<Rightarrow> handle_loop h s)"

subsection \<open>The protocol\<close>

datatype phase = Await_Request | Await_Solution nat | Closed

text \<open>
  The answer of the server to a message and the phase it goes to, with \<open>T\<close> the instants its
  clock shows. After \<open>n\<close> solutions without enough work the next one is the last if \<open>n + 1\<close>
  reaches \<^verbatim>\<open>MaxAttempts\<close>.
\<close>

inductive answer :: "Handler \<Rightarrow> instant set \<Rightarrow> phase \<Rightarrow> message \<Rightarrow> message \<Rightarrow> phase \<Rightarrow> bool" for h T where
  Issue: "Type m = TypeRequestChallenge \<Longrightarrow> t \<in> T \<Longrightarrow>
     Generate (h_generator h) (hc_Difficulty (h_config h)) t r1 r2 = Inr c \<Longrightarrow>
     answer h T Await_Request m (NewChallenge (Challenge_Marshal c)) (Await_Solution 0)"
| No_Challenge: "Type m = TypeRequestChallenge \<Longrightarrow> t \<in> T \<Longrightarrow>
     Generate (h_generator h) (hc_Difficulty (h_config h)) t r1 r2 = Inl e \<Longrightarrow>
     answer h T Await_Request m (NewError ErrCodeInvalidMessage) Closed"
| No_Request: "Type m \<noteq> TypeRequestChallenge \<Longrightarrow>
     answer h T Await_Request m (NewError ErrCodeInvalidState) Closed"
| No_Solution: "Type m \<noteq> TypeSolution \<Longrightarrow>
     answer h T (Await_Solution n) m (NewError ErrCodeInvalidState) Closed"
| Malformed: "Type m = TypeSolution \<Longrightarrow> UnmarshalSolution (Payload m) = Inl e \<Longrightarrow>
     answer h T (Await_Solution n) m (NewError ErrCodeInvalidMessage) Closed"
| Grant: "Type m = TypeSolution \<Longrightarrow> UnmarshalSolution (Payload m) = Inr sol \<Longrightarrow> t \<in> T \<Longrightarrow>
     Verify (h_verifier h) t sol = None \<Longrightarrow>
     answer h T (Await_Solution n) m (NewQuote (Random r (h_quotes h))) Closed"
| Retry: "Type m = TypeSolution \<Longrightarrow> UnmarshalSolution (Payload m) = Inr sol \<Longrightarrow> t \<in> T \<Longrightarrow>
     Verify (h_verifier h) t sol = Some ErrInsufficientWork \<Longrightarrow> int (Suc n) < hc_MaxAttempts (h_config h) \<Longrightarrow>
     answer h T (Await_Solution n) m (NewError ErrCodeInvalidSolution) (Await_Solution (Suc n))"
| Exhausted: "Type m = TypeSolution \<Longrightarrow> UnmarshalSolution (Payload m) = Inr sol \<Longrightarrow> t \<in> T \<Longrightarrow>
     Verify (h_verifier h) t sol = Some ErrInsufficientWork \<Longrightarrow> \<not> int (Suc n) < hc_MaxAttempts (h_config h) \<Longrightarrow>
     answer h T (Await_Solution n) m (NewError ErrCodeTooManyAttempts) Closed"
| Forged: "Type m = TypeSolution \<Longrightarrow> UnmarshalSolution (Payload m) = Inr sol \<Longrightarrow> t \<in> T \<Longrightarrow>
     Verify (h_verifier h) t sol = Some ErrInvalidSignature \<Longrightarrow>
     answer h T (Await_Solution n) m (NewError ErrCodeInvalidSignature) Closed"
| Untimely: "Type m = TypeSolution \<Longrightarrow> UnmarshalSolution (Payload m) = Inr sol \<Longrightarrow> t \<in> T \<Longrightarrow>
     Verify (h_verifier h) t sol \<in> {Some ErrChallengeExpired, Some ErrFutureTimestamp} \<Longrightarrow>
     answer h T (Await_Solution n) m (NewError ErrCodeChallengeExpired) Closed"
| Invalid: "Type m = TypeSolution \<Longrightarrow> UnmarshalSolution (Payload m) = Inr sol \<Longrightarrow>
     Challenge_Validate (Challenge sol) \<noteq> None \<Longrightarrow>
     answer h T (Await_Solution n) m (NewError ErrCodeInvalidMessage) Closed"

text \<open>
  A turn: the client's message, and the reply with whether it was written completely. Any
  failure of the connection closes it: the reply is lost or cut, or it is written and the
  connection fails right afterwards.
\<close>

type_synonym turn = "message \<times> (message \<times> bool) option"

inductive server_turn :: "Handler \<Rightarrow> instant set \<Rightarrow> phase \<Rightarrow> turn \<Rightarrow> phase \<Rightarrow> bool" for h T where
  Answered: "answer h T p m reply p' \<Longrightarrow> server_turn h T p (m, Some (reply, True)) p'"
| Cut: "answer h T p m reply p' \<Longrightarrow> server_turn h T p (m, Some (reply, False)) Closed"
| Lost: "answer h T p m reply p' \<Longrightarrow> server_turn h T p (m, None) Closed"
| Broken: "answer h T p m reply p' \<Longrightarrow> server_turn h T p (m, Some (reply, True)) Closed"

fun turn_events :: "turn \<Rightarrow> io_event list" where
  "turn_events (m, None) = [Io_Read m]"
| "turn_events (m, Some (reply, ok)) = [Io_Read m, Io_Write reply ok]"

text \<open>The phase of a session whose loop goes on, and the sessions that occur there.\<close>

fun phase_of :: "session \<Rightarrow> phase" where
  "phase_of s =
    (case cc_state s of
       stateConnected \<Rightarrow> Await_Request
     | stateChallenging \<Rightarrow> Await_Solution (nat (cc_attempts s))
     | _ \<Rightarrow> Closed)"

definition session_ok :: "session \<Rightarrow> bool" where
  "session_ok s \<longleftrightarrow> cc_state s \<in> {stateConnected, stateChallenging} \<and> 0 \<le> cc_attempts s"

text \<open>
  How one round of the loop relates to the protocol: what is written is the answer to the
  message, and a round after which the loop goes on, or ends without an error, has written it
  completely.
\<close>

definition turn_result :: "Handler \<Rightarrow> session \<Rightarrow> message \<Rightarrow> bool \<Rightarrow> go_error option \<Rightarrow> session \<Rightarrow> bool" where
  "turn_result h s msg stop err s' \<longleftrightarrow>
    (\<exists>reply p. answer h (range (w_clock s)) (phase_of s) msg reply p \<and>
      (if err \<noteq> None
       then (\<exists>r \<in> {[], [Io_Write reply False], [Io_Write reply True]}. wire s' = wire s @ r)
       else wire s' = wire s @ [Io_Write reply True] \<and> p = phase_of s' \<and>
         (if stop then cc_state s' = stateCompleted else session_ok s')))"

section \<open>Lemmas\<close>

subsection \<open>A round of the loop is a turn of the protocol\<close>

lemma turn_fail:
  assumes "run_state (fail_with h code e) s1 = ((stop, err), s')" "wire s1 = wire s"
    and "answer h (range (w_clock s)) (phase_of s) msg (NewError code) p"
  shows "turn_result h s msg stop err s'"
  using assms(1)
proof (cases rule: fail_with_cases)
  case (1 e' reply)
  then show ?thesis using assms(2,3) unfolding turn_result_def by (metis option.discI)
qed

lemma handleConnected_turn:
  assumes run: "run_state (handleConnected h msg) s = ((stop, err), s')" and st: "cc_state s = stateConnected"
  shows "turn_result h s msg stop err s'"
proof (cases "Type msg = TypeRequestChallenge")
  case False
  then have "answer h (range (w_clock s)) (phase_of s) msg (NewError ErrCodeInvalidState) Closed"
    using st by (simp add: No_Request)
  then show ?thesis using run False unfolding handleConnected_def by (simp add: turn_fail)
next
  case True
  let ?now = "w_clock s (n_clock s)"
  let ?gen = "Generate (h_generator h) (hc_Difficulty (h_config h)) ?now (w_rand s (n_rand s)) (w_rand s (Suc (n_rand s)))"
  let ?s1 = "s\<lparr>n_clock := Suc (n_clock s), w_trace := w_trace s @ [Io_Now ?now], n_rand := Suc (Suc (n_rand s))\<rparr>"
  have s1: "wire ?s1 = wire s" "context_of ?s1 = context_of s"
    by (simp_all add: session_views)
  show ?thesis
  proof (cases ?gen)
    case (Inl e)
    then have "answer h (range (w_clock s)) (phase_of s) msg (NewError ErrCodeInvalidMessage) Closed"
      using True st by (auto intro: No_Challenge)
    moreover have "run_state (fail_with h ErrCodeInvalidMessage (Errorf ''generate challenge: '' e [])) ?s1 = ((stop, err), s')"
      using run True Inl by (simp add: handleConnected_def io_defs)
    ultimately show ?thesis using s1 by (intro turn_fail)
  next
    case (Inr c)
    let ?m = "NewChallenge (Challenge_Marshal c)"
    have ans: "answer h (range (w_clock s)) (phase_of s) msg ?m (Await_Solution 0)"
      using True st Inr by (auto intro: Issue)
    obtain err1 s2 where s2: "run_state (sendMessage h ?m) ?s1 = (err1, s2)"
      by (cases "run_state (sendMessage h ?m) ?s1")
    from s2 show ?thesis
    proof (cases rule: sendMessage_cases)
      case sent
      then have "wire s' = wire s @ [Io_Write ?m True] \<and>
          (err = None \<longrightarrow> \<not> stop \<and> cc_state s' = stateChallenging \<and> cc_attempts s' = 0)"
        using run True Inr s2 s1
        by (auto simp: handleConnected_def io_defs wire_def split: option.splits if_splits)
      then show ?thesis using ans by (auto simp: turn_result_def session_ok_def)
    next
      case (failed e reply)
      then have "s' = s2" "err = Some e"
        using run True Inr s2 by (simp_all add: handleConnected_def io_defs)
      then show ?thesis using ans failed s1 unfolding turn_result_def by auto
    qed
  qed
qed

text \<open>
  The reply to a rejected solution. The attempt was counted, and the state is still
  \<^verbatim>\<open>CHALLENGING\<close> if another one is allowed.
\<close>

definition counted :: "metric_call \<Rightarrow> session \<Rightarrow> session" where
  "counted c s = (cc_attempts_update (\<lambda>n. n + 1) s)\<lparr>w_metrics := w_metrics s @ [c]\<rparr>"

lemma counted_simps [simp]:
  "wire (counted c s) = wire s" "cc_attempts (counted c s) = cc_attempts s + 1"
  "cc_state (counted c s) = cc_state s"
  by (simp_all add: counted_def wire_def)

lemma insufficient_work_turn:
  assumes run: "run_state (handleVerificationError h ErrInsufficientWork) s1 = ((stop, err), s')"
    and s1: "wire s1 = wire s" "context_of s1 = context_of s"
    and ph: "cc_state s = stateChallenging" "phase_of s = Await_Solution n" "cc_attempts s = int n"
    and msg: "Type msg = TypeSolution" "UnmarshalSolution (Payload msg) = Inr sol"
    and ver: "t \<in> range (w_clock s)" "Verify (h_verifier h) t sol = Some ErrInsufficientWork"
  shows "turn_result h s msg stop err s'"
proof -
  let ?s2 = "counted metrics_ChallengeFailed s1"
  have cc1: "cc_attempts s1 = int n" "cc_state s1 = stateChallenging"
    using s1 ph by (simp_all add: context_of_def)
  show ?thesis
  proof (cases "int (Suc n) < hc_MaxAttempts (h_config h)")
    case True
    let ?m = "NewError ErrCodeInvalidSolution"
    have ans: "answer h (range (w_clock s)) (phase_of s) msg ?m (Await_Solution (Suc n))"
      unfolding ph(2) by (rule Retry [OF msg ver True])
    obtain err1 s3 where s3: "run_state (sendMessage h ?m) ?s2 = (err1, s3)"
      by (cases "run_state (sendMessage h ?m) ?s2")
    have eqs: "s' = s3" "err = err1" "stop \<longleftrightarrow> err1 \<noteq> None"
      using run True cc1 s3
      by (auto simp: handleVerificationError_def io_defs go_errs sendError_def counted_def split: option.splits if_splits)
    from s3 show ?thesis
    proof (cases rule: sendMessage_cases)
      case sent
      then have "cc_state s' = stateChallenging" "cc_attempts s' = int (Suc n)"
        using cc1 eqs by (auto simp: context_of_def)
      then show ?thesis
        using ans sent eqs s1 by (auto simp: turn_result_def session_ok_def nat_add_distrib)
    next
      case (failed e' reply)
      then show ?thesis using ans eqs s1 unfolding turn_result_def by auto
    qed
  next
    case False
    then have "run_state (fail_with h ErrCodeTooManyAttempts (Err_Text ''max attempts exceeded'')) ?s2 = ((stop, err), s')"
      using run cc1 by (auto simp: handleVerificationError_def io_defs go_errs counted_def split: if_splits)
    then show ?thesis
      by (rule turn_fail) (use s1 Exhausted [OF msg ver False] ph(2) in simp_all)
  qed
qed

lemma handleVerificationError_turn:
  assumes run: "run_state (handleVerificationError h e) s1 = ((stop, err), s')"
    and s1: "wire s1 = wire s" "context_of s1 = context_of s"
    and st: "cc_state s = stateChallenging" "session_ok s"
    and msg: "Type msg = TypeSolution" "UnmarshalSolution (Payload msg) = Inr sol"
    and ver: "t \<in> range (w_clock s)" "Verify (h_verifier h) t sol = Some e"
  shows "turn_result h s msg stop err s'"
proof -
  obtain n where n: "cc_attempts s = int n"
    using st by (auto simp: session_ok_def elim: nonneg_int_cases)
  then have ph: "phase_of s = Await_Solution n" using st by simp
  have fail: "turn_result h s msg stop err s'"
    if "run_state (fail_with h code e') (counted c s1) = ((stop, err), s')"
      "answer h (range (w_clock s)) (Await_Solution n) msg (NewError code) Closed" for code e' c
    using turn_fail [OF that(1), of s msg Closed] that(2) s1(1) ph by simp
  note defs = handleVerificationError_def io_defs go_errs counted_def
  show ?thesis using ver(2)
  proof (cases rule: Verify_Some_cases)
    case fields
    then have "run_state (fail_with h ErrCodeInvalidMessage (Errorf ''verification error: '' e []))
        (counted metrics_ChallengeFailed s1) = ((stop, err), s')"
      using run by (auto simp: defs dest!: Challenge_Validate_Some)
    then show ?thesis by (rule fail) (rule Invalid [OF msg], use fields in simp)
  next
    case signature
    then have "run_state (fail_with h ErrCodeInvalidSignature (Err_Text ''invalid signature''))
        (counted metrics_ChallengeFailed s1) = ((stop, err), s')"
      using run by (simp add: defs)
    then show ?thesis by (rule fail) (rule Forged [OF msg ver(1)], use signature ver in simp)
  next
    case time
    then have e: "e \<in> {ErrChallengeExpired, ErrFutureTimestamp}"
      using validateTimestamp_cases [of "h_verifier h" t "Timestamp (Challenge sol)"] by auto
    then obtain e' where "run_state (fail_with h ErrCodeChallengeExpired e')
        (counted metrics_ChallengeExpired s1) = ((stop, err), s')"
      using run by (auto simp: defs)
    then show ?thesis
      by (rule fail) (rule Untimely [OF msg ver(1)], use e ver in simp)
  next
    case work
    then show ?thesis
      using insufficient_work_turn [OF _ s1 st(1) ph n msg ver(1)] run ver by simp
  qed
qed

lemma sendQuote_turn:
  assumes run: "run_state (sendQuote h) s2 = ((stop, err), s')" "wire s2 = wire s"
    and ans: "\<And>r. answer h (range (w_clock s)) (phase_of s) msg (NewQuote (Random r (h_quotes h))) Closed"
  shows "turn_result h s msg stop err s'"
proof -
  let ?r = "w_randint s2 (n_randint s2)" and ?s3 = "s2\<lparr>n_randint := Suc (n_randint s2)\<rparr>"
  let ?m = "NewQuote (Random ?r (h_quotes h))"
  obtain err1 s4 where s4: "run_state (sendMessage h ?m) ?s3 = (err1, s4)"
    by (cases "run_state (sendMessage h ?m) ?s3")
  from s4 show ?thesis
  proof (cases rule: sendMessage_cases)
    case sent
    then have "wire s' = wire s @ [Io_Write ?m True]" "err = None" "stop" "cc_state s' = stateCompleted"
      using run s4 by (auto simp: sendQuote_def io_defs wire_def)
    then show ?thesis using ans by (auto simp: turn_result_def)
  next
    case (failed e reply)
    then have "wire s' = wire s @ reply" "err = Some e"
      using run s4 by (auto simp: sendQuote_def io_defs wire_def)
    then show ?thesis using ans [of ?r] failed(6) unfolding turn_result_def by auto
  qed
qed

lemma handleChallenging_turn:
  assumes run: "run_state (handleChallenging h msg) s = ((stop, err), s')"
    and st: "cc_state s = stateChallenging" "session_ok s"
  shows "turn_result h s msg stop err s'"
proof (cases "Type msg = TypeSolution")
  case False
  then have "answer h (range (w_clock s)) (phase_of s) msg (NewError ErrCodeInvalidState) Closed"
    using st by (simp add: No_Solution)
  then show ?thesis using run False unfolding handleChallenging_def by (simp add: turn_fail)
next
  case True
  let ?now = "w_clock s (n_clock s)"
  let ?s1 = "s\<lparr>n_clock := Suc (n_clock s), w_trace := w_trace s @ [Io_Now ?now]\<rparr>"
  have s1: "wire ?s1 = wire s" "context_of ?s1 = context_of s"
    by (simp_all add: session_views)
  have ph: "phase_of s = Await_Solution (nat (cc_attempts s))" using st by simp
  show ?thesis
  proof (cases "UnmarshalSolution (Payload msg)")
    case (Inl e)
    then have "run_state (fail_with h ErrCodeInvalidMessage (Errorf ''parse solution: '' e [])) s = ((stop, err), s')"
      using run True by (simp add: handleChallenging_def)
    then show ?thesis
      by (rule turn_fail) (use ph Malformed [OF True Inl] in simp_all)
  next
    case sol: (Inr sol)
    show ?thesis
    proof (cases "Verify (h_verifier h) ?now sol")
      case (Some e)
      then have "run_state (handleVerificationError h e) ?s1 = ((stop, err), s')"
        using run True sol by (simp add: handleChallenging_def io_defs)
      then show ?thesis
        by (rule handleVerificationError_turn [OF _ s1 st True sol rangeI Some])
    next
      case None
      have "answer h (range (w_clock s)) (phase_of s) msg (NewQuote (Random r (h_quotes h))) Closed" for r
        unfolding ph by (rule Grant [OF True sol _ None]) simp
      moreover obtain s2 where "run_state (sendQuote h) s2 = ((stop, err), s')" "wire s2 = wire s"
        using run True sol None
        by (auto simp: handleChallenging_def io_defs wire_def split: option.splits)
      ultimately show ?thesis by (intro sendQuote_turn)
    qed
  qed
qed

lemma processMessage_turn:
  assumes "run_state (processMessage h msg) s = ((stop, err), s')" "session_ok s"
  shows "turn_result h s msg stop err s'"
  using assms handleConnected_turn [of h msg s] handleChallenging_turn [of h msg s]
  by (auto simp: processMessage_def get_cc_def session_ok_def)

subsection \<open>Refinement\<close>

lemma turn_result_step:
  assumes "turn_result h s msg stop err s'"
  obtains reply where "wire s' = wire s @ tl (turn_events (msg, reply))"
    "server_turn h (range (w_clock s)) (phase_of s) (msg, reply) (if err \<noteq> None then Closed else phase_of s')"
proof -
  from assms obtain m p where ans: "answer h (range (w_clock s)) (phase_of s) msg m p"
    and res: "if err \<noteq> None
       then (\<exists>r \<in> {[], [Io_Write m False], [Io_Write m True]}. wire s' = wire s @ r)
       else wire s' = wire s @ [Io_Write m True] \<and> p = phase_of s'"
    unfolding turn_result_def by (auto split: if_splits)
  show thesis
  proof (cases "err = None")
    case True
    then show thesis using that [of "Some (m, True)"] res Answered [OF ans] by simp
  next
    case False
    with res consider "wire s' = wire s" | "wire s' = wire s @ [Io_Write m False]" | "wire s' = wire s @ [Io_Write m True]"
      by auto
    then show thesis
      by cases (use that [of None] that [of "Some (m, False)"] that [of "Some (m, True)"] False
          Lost [OF ans] Cut [OF ans] Broken [OF ans] in simp_all)
  qed
qed

text \<open>One round of the loop: it ends without a message, with a turn, or goes on after a turn.\<close>

lemma handle_loop_round:
  assumes "handle_loop h s = (err, s')" "session_ok s"
  obtains (none) "wire s' = wire s"
  | (last) msg reply p where "wire s' = wire s @ turn_events (msg, reply)"
      "server_turn h (range (w_clock s)) (phase_of s) (msg, reply) p"
  | (more) msg reply s3 where "handle_loop h s3 = (err, s')" "session_ok s3" "w_clock s3 = w_clock s"
      "length (rd_data (w_reader s3)) < length (rd_data (w_reader s))"
      "wire s3 = wire s @ turn_events (msg, reply)"
      "server_turn h (range (w_clock s)) (phase_of s) (msg, reply) (phase_of s3)"
proof -
  obtain c s1 where s1: "run_state ctx_Err s = (c, s1)" by (cases "run_state ctx_Err s")
  then have v1: "w_clock s1 = w_clock s" "phase_of s1 = phase_of s" "wire s1 = wire s" "session_ok s1"
      "w_reader s1 = w_reader s"
    using assms(2) by (auto simp: ctx_Err_def wire_def session_ok_def)
  obtain r s2 where s2: "run_state conn_ReadMessage s1 = (r, s2)" by (cases "run_state conn_ReadMessage s1")
  note loop = assms(1) [unfolded handle_loop.simps [of h s] s1 prod.case s2]
  consider (cancelled) e where "c = Some e" | (failed) e where "c = None" "r = Inl e"
    | (message) msg where "c = None" "r = Inr msg" by (cases c; cases r) auto
  then show thesis
  proof cases
    case cancelled
    then show thesis using loop v1 none by simp
  next
    case failed
    with s2 obtain rd where "s2 = s1\<lparr>w_reader := rd\<rparr>" "\<not> net_Error_Timeout e"
      by (auto elim: conn_ReadMessage_Inl)
    then show thesis using loop failed v1 handleReadError_silent(1) [of e h s2 err s']
      by (intro none) (simp add: wire_def)
  next
    case message
    with s2 have v2: "w_clock s2 = w_clock s" "phase_of s2 = phase_of s" "session_ok s2"
        "wire s2 = wire s @ [Io_Read msg]"
      using v1 by (auto elim!: conn_ReadMessage_Inr simp: wire_def session_ok_def)
    obtain stop err3 s3 where s3: "run_state (processMessage h msg) s2 = ((stop, err3), s3)"
      by (metis prod.exhaust)
    have out: "outside s3 = outside s2" using keeps_outsideD [OF keeps_processMessage s3] .
    have res: "turn_result h s2 msg stop err3 s3" using processMessage_turn [OF s3 v2(3)] .
    then obtain reply where w3: "wire s3 = wire s @ turn_events (msg, reply)"
      and step: "server_turn h (range (w_clock s)) (phase_of s) (msg, reply) (if err3 \<noteq> None then Closed else phase_of s3)"
    proof (rule turn_result_step)
      fix reply
      assume "wire s3 = wire s2 @ tl (turn_events (msg, reply))"
        "server_turn h (range (w_clock s2)) (phase_of s2) (msg, reply) (if err3 \<noteq> None then Closed else phase_of s3)"
      then show thesis using that [of reply] v2 by (cases reply) auto
    qed
    show thesis
    proof (cases "stop \<or> err3 \<noteq> None")
      case True
      then have "s' = s3" using loop message s3 by (auto split: option.splits)
      then show thesis using last w3 step by blast
    next
      case False
      then have "handle_loop h s3 = (err, s')" "session_ok s3"
        using loop message s3 res by (auto simp: turn_result_def)
      moreover have "length (rd_data (w_reader s3)) < length (rd_data (w_reader s))"
        using conn_ReadMessage_consumes [of s1 msg s2] s2 message v1 out by (simp add: outside_def)
      ultimately show thesis using more [of s3 msg reply] False w3 step out v2 by (simp add: outside_def)
    qed
  qed
qed

text \<open>
  Every execution of the loop is a run of the protocol, and nothing else is on the wire: no
  message is written that does not answer the message read before.
\<close>

lemma handle_loop_refines:
  assumes "handle_loop h s = (err, s')" "session_ok s"
  shows "\<exists>turns p. runs (server_turn h (range (w_clock s))) (phase_of s) turns p \<and>
    wire s' = wire s @ concat (map turn_events turns)"
  using assms
proof (induction "length (rd_data (w_reader s))" arbitrary: s rule: less_induct)
  case less
  from less(2,3) show ?case
  proof (cases rule: handle_loop_round)
    case none
    then show ?thesis by (intro exI [of _ "[]"] exI [of _ "phase_of s"]) (simp add: runs.Nil)
  next
    case (last msg reply p)
    then show ?thesis by (intro exI [of _ "[(msg, reply)]"] exI [of _ p]) (simp add: runs_step)
  next
    case (more msg reply s3)
    then obtain turns p where "runs (server_turn h (range (w_clock s))) (phase_of s3) turns p"
        "wire s' = wire s3 @ concat (map turn_events turns)"
      using less(1) [of s3] by auto
    with more show ?thesis
      by (intro exI [of _ "(msg, reply) # turns"] exI [of _ p]) (simp add: runs_Cons)
  qed
qed

lemma Handle_refines:
  assumes "Handle h s = (err, s')"
  obtains turns p where "runs (server_turn h (range (w_clock s))) Await_Request turns p"
    "wire s' = wire s @ concat (map turn_events turns)"
proof -
  obtain now s1 where s1: "run_state time_Now (newConnectionContext s) = (now, s1)"
    by (metis prod.exhaust)
  obtain d s2 where s2: "run_state (SetReadDeadline (now + hc_IdleTimeout (h_config h))) s1 = (d, s2)"
    by (metis prod.exhaust)
  have v: "wire s2 = wire s" "w_clock s2 = w_clock s" "phase_of s2 = Await_Request" "session_ok s2"
    using s1 s2 by (auto simp: io_defs newConnectionContext_def wire_def session_ok_def)
  note h = assms [unfolded Handle_def Let_def s1 prod.case s2]
  show thesis
  proof (cases d)
    case None
    then obtain turns p where "runs (server_turn h (range (w_clock s))) Await_Request turns p"
        "wire s' = wire s @ concat (map turn_events turns)"
      using h handle_loop_refines [of h s2 err s'] v by auto
    then show thesis by (rule that)
  next
    case (Some e)
    then show thesis using h that [of "[]" Await_Request] v by (simp add: runs.Nil)
  qed
qed

subsection \<open>What the protocol guarantees\<close>

inductive_cases server_turn_elim: "server_turn h T p e p'"
inductive_cases answer_elim: "answer h T p m reply p'"

lemma no_turn_after_Closed: "\<not> server_turn h T Closed e p"
  by (auto elim!: server_turn_elim answer_elim)

lemma message_kinds:
  "Type (NewChallenge x) = TypeChallenge" "Type (NewQuote q) = TypeQuote" "Type (NewError code) = TypeError"
  "TypeChallenge \<noteq> TypeQuote" "TypeError \<noteq> TypeQuote" "TypeError \<noteq> TypeChallenge"
  by (simp_all add: NewChallenge_def NewQuote_def NewError_def TypeChallenge_def TypeQuote_def TypeError_def)

text \<open>The phases count the messages, and a connection that waits for a solution has issued a challenge.\<close>

definition challenged :: "turn list \<Rightarrow> bool" where
  "challenged turns \<longleftrightarrow> (\<exists>m c rest. turns = (m, Some (NewChallenge (Challenge_Marshal c), True)) # rest)"

lemma challenged_intros:
  "challenged xs \<Longrightarrow> challenged (xs @ ys)"
  "challenged [(m, Some (NewChallenge (Challenge_Marshal c), True))]"
  by (auto simp: challenged_def)

lemma runs_await:
  assumes "runs (server_turn h T) Await_Request turns p"
  shows "(p = Await_Request \<longrightarrow> turns = []) \<and>
    (\<forall>n. p = Await_Solution n \<longrightarrow> length turns = Suc n \<and> challenged turns \<and>
       (0 < n \<longrightarrow> int n < hc_MaxAttempts (h_config h)))"
  using assms
proof (induction "Await_Request :: phase" turns p rule: runs.induct)
  case Nil
  then show ?case by simp
next
  case (Snoc es p e p')
  from \<open>server_turn h T p e p'\<close> show ?case
    by (cases rule: server_turn.cases)
      (use Snoc in \<open>auto elim!: answer_elim intro: challenged_intros\<close>)
qed

text \<open>A quote is a reply to a solution that was verified, and the last message of the connection.\<close>

lemma quote_answer:
  assumes "server_turn h T p (m, Some (reply, ok)) p'" "Type reply = TypeQuote"
  shows "p' = Closed \<and> (\<exists>n. p = Await_Solution n) \<and> Type m = TypeSolution \<and>
    (\<exists>sol t r. UnmarshalSolution (Payload m) = Inr sol \<and> t \<in> T \<and> Verify (h_verifier h) t sol = None \<and>
      reply = NewQuote (Random r (h_quotes h)))"
  using assms by (elim server_turn_elim answer_elim) (auto simp: message_kinds)

lemma runs_before_quote:
  assumes "runs (server_turn h T) p0 turns p" "p \<noteq> Closed" "(m, Some (reply, ok)) \<in> set turns"
  shows "Type reply \<noteq> TypeQuote"
  using assms
proof (induction rule: runs.induct)
  case Nil
  then show ?case by simp
next
  case (Snoc p0 es p e p')
  then have "p \<noteq> Closed" using no_turn_after_Closed by metis
  then show ?case using Snoc quote_answer [of h T p m reply ok p'] by auto
qed

lemma runs_quote_last:
  assumes "runs (server_turn h T) Await_Request turns p" "(m, Some (reply, ok)) \<in> set turns" "Type reply = TypeQuote"
  obtains before n where "turns = before @ [(m, Some (reply, ok))]" "challenged before"
    "server_turn h T (Await_Solution n) (m, Some (reply, ok)) Closed"
    "\<forall>(m', r) \<in> set before. \<forall>q ok. r = Some (q, ok) \<longrightarrow> Type q \<noteq> TypeQuote"
  using assms(1)
proof (cases rule: runs.cases)
  case Nil
  then show thesis using assms by simp
next
  case (Snoc before p1 e)
  have p1: "p1 \<noteq> Closed" using Snoc no_turn_after_Closed by metis
  note before = runs_before_quote [OF Snoc(2) p1]
  then have e: "e = (m, Some (reply, ok))" using assms Snoc(1) by auto
  then obtain n where n: "p1 = Await_Solution n" "p = Closed"
    using quote_answer [of h T p1 m reply ok p] Snoc assms(3) by auto
  show thesis
    by (rule that [of before n]) (use Snoc e n runs_await [OF Snoc(2)] before in auto)
qed

lemma runs_length:
  assumes "runs (server_turn h T) Await_Request turns p"
  shows "int (length turns) \<le> 1 + max 1 (hc_MaxAttempts (h_config h))"
  using assms
proof (cases rule: runs.cases)
  case (Snoc before p1 e)
  then have "p1 \<noteq> Closed" using no_turn_after_Closed by metis
  then show ?thesis
    using runs_await [OF Snoc(2)] Snoc(1) by (cases p1) auto
qed simp

text \<open>
  The shape of a connection: a request that is answered by a challenge, then solutions with an answer
  each that is no challenge. What comes last may be anything, and may go unanswered.
\<close>

definition answered :: "turn \<Rightarrow> bool" where
  "answered t \<longleftrightarrow> (\<exists>reply. snd t = Some (reply, True))"

definition no_challenge :: "turn \<Rightarrow> bool" where
  "no_challenge t \<longleftrightarrow> (\<forall>reply ok. snd t = Some (reply, ok) \<longrightarrow> Type reply \<noteq> TypeChallenge)"

definition solving :: "turn list \<Rightarrow> bool" where
  "solving turns \<longleftrightarrow> challenged turns \<and> Type (fst (hd turns)) = TypeRequestChallenge \<and> list_all answered turns \<and>
     list_all (\<lambda>t. Type (fst t) = TypeSolution \<and> no_challenge t) (tl turns)"

lemma issue_turn:
  "server_turn h T Await_Request t (Await_Solution n) \<Longrightarrow> solving [t]"
  by (elim server_turn_elim answer_elim) (auto simp: solving_def challenged_def answered_def)

lemma retry_answer:
  assumes "answer h T (Await_Solution n) m reply p"
  shows "Type reply \<noteq> TypeChallenge \<and> p \<noteq> Await_Request \<and> (p \<noteq> Closed \<longrightarrow> Type m = TypeSolution)"
  using assms by (cases rule: answer.cases) (simp_all add: message_kinds message_kinds(4-6) [symmetric])

lemma retry_turn:
  assumes "server_turn h T (Await_Solution n) t p" "solving turns"
  shows "no_challenge t \<and> p \<noteq> Await_Request \<and> (p \<noteq> Closed \<longrightarrow> solving (turns @ [t]))"
proof -
  have "turns \<noteq> []" using assms(2) by (auto simp: solving_def challenged_def)
  moreover have "no_challenge t \<and> p \<noteq> Await_Request \<and> (p \<noteq> Closed \<longrightarrow> answered t \<and> Type (fst t) = TypeSolution)"
    using assms(1)
    by (cases rule: server_turn.cases) (auto simp: no_challenge_def answered_def dest: retry_answer)
  ultimately show ?thesis using assms(2) challenged_intros(1) by (auto simp: solving_def)
qed

lemma runs_solving:
  assumes "runs (server_turn h T) Await_Request turns p"
  shows "(p = Await_Request \<longrightarrow> turns = []) \<and> (p \<noteq> Closed \<longrightarrow> turns = [] \<or> solving turns) \<and>
    (tl turns \<noteq> [] \<longrightarrow> solving (butlast turns) \<and> no_challenge (last turns))"
  using assms
proof (induction "Await_Request :: phase" turns p rule: runs.induct)
  case (Snoc es p e p')
  show ?case
  proof (cases p)
    case Await_Request
    then have "es = []" using Snoc.hyps(2) by simp
    moreover have "p' \<noteq> Await_Request"
      using Snoc.hyps(3) Await_Request by (elim server_turn_elim answer_elim) simp_all
    moreover have "p' = Closed \<or> solving [e]"
      using Snoc.hyps(3) Await_Request issue_turn [of h T e] \<open>p' \<noteq> Await_Request\<close> by (cases p') auto
    ultimately show ?thesis by auto
  next
    case (Await_Solution n)
    then have "es \<noteq> []" using runs_await [OF Snoc.hyps(1)] by auto
    then have es: "solving es" using Snoc.hyps(2) Await_Solution by simp
    then show ?thesis
      using retry_turn [OF Snoc.hyps(3) [unfolded Await_Solution] es] es by auto
  next
    case Closed
    then show ?thesis using Snoc.hyps(3) no_turn_after_Closed by simp
  qed
qed simp

end
