(* ===== verification/Conn_Service.thy ===== *)
theory Conn_Service
  imports Conn_Protocol Pow_Solver
begin

text \<open>
  A client that plays by the rules is served: the execution of \<^verbatim>\<open>Handle\<close> on a connection that
  works, with a peer that requests a challenge and sends a solution the verifier accepts,
  followed step by step to the quote.
\<close>

section \<open>Definitions\<close>

text \<open>A connection on which no deadline call fails and that is not cancelled.\<close>

definition smooth :: "session \<Rightarrow> bool" where
  "smooth s \<longleftrightarrow> (\<forall>k. w_deadlines s k = None) \<and> (\<forall>k. w_ctx s k = None)"

text \<open>What has been used of the outside: clock readings, writes and random numbers.\<close>

definition used :: "session \<Rightarrow> nat \<times> nat \<times> nat \<times> nat" where
  "used s = (n_clock s, n_writes s, n_rand s, n_randint s)"

text \<open>The next write takes the whole message.\<close>

definition writes_whole :: "session \<Rightarrow> message \<Rightarrow> bool" where
  "writes_whole s m \<longleftrightarrow> w_writes s (n_writes s) = (Message_Size m, None) \<and>
     MessageType_IsValid (Type m) \<and> fits m"

section \<open>Lemmas\<close>

lemma smooth_outside: "outside s' = outside s \<Longrightarrow> smooth s' = smooth s"
  by (simp add: outside_def smooth_def)

lemma sendMessage_ok:
  assumes "smooth s" "writes_whole s m"
  obtains s' where "run_state (sendMessage h m) s = (None, s')"
    "outside s' = outside s" "context_of s' = context_of s" "w_metrics s' = w_metrics s"
    "w_sent s' = w_sent s @ frame_of m" "wire s' = wire s @ [Io_Write m True]"
    "used s' = (Suc (n_clock s), Suc (n_writes s), n_rand s, n_randint s)"
  using assms
  by (auto simp: sendMessage_def io_defs conn_WriteMessage_def WriteMessage_def smooth_def
      writes_whole_def Message_Marshal_frame outside_def context_of_def used_def wire_def)

lemma conn_ReadMessage_ok:
  assumes "rd_data (w_reader s) = frame_of m @ rest" "fits m"
  shows "run_state conn_ReadMessage s =
    (Inr m, s\<lparr>w_reader := (w_reader s)\<lparr>rd_data := rest\<rparr>, w_trace := w_trace s @ [Io_Read m]\<rparr>)"
proof -
  have "ReadMessage (w_reader s) = (Inr m, (w_reader s)\<lparr>rd_data := rest\<rparr>)"
    using assms by (simp add: ReadMessage_Inr_iff)
  then show ?thesis by (simp add: conn_ReadMessage_def)
qed

lemma handleConnected_ok:
  assumes "smooth s" "Type msg = TypeRequestChallenge"
    and gen: "Generate (h_generator h) (hc_Difficulty (h_config h)) (w_clock s (n_clock s))
      (w_rand s (n_rand s)) (w_rand s (Suc (n_rand s))) = Inr c"
    and "writes_whole s (NewChallenge (Challenge_Marshal c))"
  obtains s' where "run_state (handleConnected h msg) s = ((False, None), s')"
    "outside s' = outside s" "cc_state s' = stateChallenging" "cc_challenge s' = Some c"
    "cc_challengeTime s' = Some (w_clock s (n_clock s + 2))"
    "w_metrics s' = w_metrics s @ [metrics_ChallengeIssued]"
    "w_sent s' = w_sent s @ frame_of (NewChallenge (Challenge_Marshal c))"
    "wire s' = wire s @ [Io_Write (NewChallenge (Challenge_Marshal c)) True]"
    "used s' = (n_clock s + 4, Suc (n_writes s), n_rand s + 2, n_randint s)"
proof -
  let ?m = "NewChallenge (Challenge_Marshal c)"
  let ?s1 = "s\<lparr>n_clock := Suc (n_clock s), w_trace := w_trace s @ [Io_Now (w_clock s (n_clock s))],
    n_rand := Suc (Suc (n_rand s))\<rparr>"
  have "smooth ?s1" "writes_whole ?s1 ?m"
    using assms by (simp_all add: smooth_def writes_whole_def)
  then obtain s2 where s2: "run_state (sendMessage h ?m) ?s1 = (None, s2)"
    "outside s2 = outside ?s1" "context_of s2 = context_of ?s1" "w_metrics s2 = w_metrics ?s1"
    "w_sent s2 = w_sent ?s1 @ frame_of ?m" "wire s2 = wire ?s1 @ [Io_Write ?m True]"
    "used s2 = (Suc (n_clock ?s1), Suc (n_writes ?s1), n_rand ?s1, n_randint ?s1)"
    by (rule sendMessage_ok)
  have "\<forall>k. w_deadlines s2 k = None" using s2(2) assms(1) by (simp add: outside_def smooth_def)
  then show thesis
    using that s2 assms(2) gen
    by (auto simp: handleConnected_def io_defs used_def outside_def context_of_def wire_def)
qed

lemma sendQuote_ok:
  assumes "smooth s" and q: "q = Random (w_randint s (n_randint s)) (h_quotes h)" and "writes_whole s (NewQuote q)"
  obtains s' where "run_state (sendQuote h) s = ((True, None), s')"
    "outside s' = outside s" "cc_state s' = stateCompleted"
    "w_metrics s' = w_metrics s @ [metrics_QuoteServed]" "w_sent s' = w_sent s @ frame_of (NewQuote q)"
    "wire s' = wire s @ [Io_Write (NewQuote q) True]"
proof -
  let ?s1 = "s\<lparr>n_randint := Suc (n_randint s)\<rparr>"
  have "smooth ?s1" "writes_whole ?s1 (NewQuote q)"
    using assms by (simp_all add: smooth_def writes_whole_def)
  then obtain s2 where s2: "run_state (sendMessage h (NewQuote q)) ?s1 = (None, s2)"
    "outside s2 = outside ?s1" "w_metrics s2 = w_metrics ?s1" "w_sent s2 = w_sent ?s1 @ frame_of (NewQuote q)"
    "wire s2 = wire ?s1 @ [Io_Write (NewQuote q) True]"
    by (rule sendMessage_ok)
  show thesis
    using that s2 by (auto simp: sendQuote_def io_defs q [symmetric] outside_def wire_def)
qed

lemma handleChallenging_ok:
  assumes "smooth s" "Type msg = TypeSolution" "UnmarshalSolution (Payload msg) = Inr sol"
    and "Verify (h_verifier h) (w_clock s (n_clock s)) sol = None"
    and ct: "cc_challengeTime s = Some ct"
    and q: "q = Random (w_randint s (n_randint s)) (h_quotes h)" and "writes_whole s (NewQuote q)"
  obtains s' where "run_state (handleChallenging h msg) s = ((True, None), s')"
    "outside s' = outside s" "cc_state s' = stateCompleted"
    "w_metrics s' = w_metrics s @ [metrics_ChallengeSolved,
       metrics_SolveDurationObserve (time_Sub (w_clock s (Suc (n_clock s))) ct), metrics_QuoteServed]"
    "w_sent s' = w_sent s @ frame_of (NewQuote q)" "wire s' = wire s @ [Io_Write (NewQuote q) True]"
proof -
  obtain s2 where s2: "run_state (handleChallenging h msg) s = run_state (sendQuote h) s2"
    "outside s2 = outside s" "n_randint s2 = n_randint s" "n_writes s2 = n_writes s" "w_sent s2 = w_sent s"
    "wire s2 = wire s" "w_metrics s2 = w_metrics s @ [metrics_ChallengeSolved,
       metrics_SolveDurationObserve (time_Sub (w_clock s (Suc (n_clock s))) ct)]"
    using assms(2-4) ct by (auto simp: handleChallenging_def io_defs outside_def wire_def)
  have "smooth s2" using assms(1) smooth_outside [OF s2(2)] by simp
  moreover have "q = Random (w_randint s2 (n_randint s2)) (h_quotes h)" "writes_whole s2 (NewQuote q)"
    using assms(7) q s2(2-4) by (simp_all add: outside_def writes_whole_def)
  ultimately show thesis
    by (rule sendQuote_ok [of s2 q h]) (use that s2 in auto)
qed

text \<open>A round that reads a message and hands it to its handler.\<close>

lemma handle_loop_message:
  assumes "smooth s" "rd_data (w_reader s) = frame_of m @ rest" "fits m"
  obtains s1 where "w_reader s1 = (w_reader s)\<lparr>rd_data := rest\<rparr>" "w_clock s1 = w_clock s" "smooth s1"
    "w_writes s1 = w_writes s" "w_rand s1 = w_rand s" "w_randint s1 = w_randint s"
    "context_of s1 = context_of s" "used s1 = used s" "w_metrics s1 = w_metrics s" "w_sent s1 = w_sent s"
    "wire s1 = wire s @ [Io_Read m]"
    "handle_loop h s =
      (case run_state (processMessage h m) s1 of
         ((stop, Some e), s) \<Rightarrow> (Some e, s)
       | ((stop, None), s) \<Rightarrow> (if stop then (None, s) else handle_loop h s))"
proof -
  let ?s0 = "s\<lparr>n_ctx := Suc (n_ctx s)\<rparr>"
  let ?s1 = "?s0\<lparr>w_reader := (w_reader s)\<lparr>rd_data := rest\<rparr>, w_trace := w_trace s @ [Io_Read m]\<rparr>"
  have "run_state ctx_Err s = (None, ?s0)" using assms(1) by (simp add: ctx_Err_def smooth_def)
  moreover have "run_state conn_ReadMessage ?s0 = (Inr m, ?s1)"
    using conn_ReadMessage_ok [of ?s0 m rest] assms by simp
  ultimately have "handle_loop h s =
      (case run_state (processMessage h m) ?s1 of
         ((stop, Some e), s) \<Rightarrow> (Some e, s)
       | ((stop, None), s) \<Rightarrow> (if stop then (None, s) else handle_loop h s))"
    by (simp add: handle_loop.simps [of h s])
  then show thesis
    by (intro that [of ?s1]) (use assms(1) in \<open>simp_all add: context_of_def used_def smooth_def wire_def\<close>)
qed

text \<open>The two rounds of a served client, and \<^verbatim>\<open>Handle\<close> as a whole.\<close>

lemma message_sizes:
  "fits NewRequestChallenge" "Type NewRequestChallenge = TypeRequestChallenge"
  "MessageType_IsValid (Type (NewChallenge bs))" "MessageType_IsValid (Type (NewQuote q))"
  "Message_Size (NewChallenge (Challenge_Marshal c)) = 93" "fits (NewChallenge (Challenge_Marshal c))"
  "Type (NewSolution bs) = TypeSolution" "Payload (NewSolution bs) = bs"
  "wf_solution sol \<Longrightarrow> fits (NewSolution (Solution_Marshal sol))"
  by (simp_all add: fits_def Message_Size_def msg_constructors msg_types MessageType_IsValid_def proto_sizes
      length_Challenge_Marshal_any Solution_Marshal_fields)

lemma request_round:
  assumes "smooth s" and st: "cc_state s = stateConnected"
    and rd: "rd_data (w_reader s) = frame_of NewRequestChallenge @ rest"
    and gen: "Generate (h_generator h) (hc_Difficulty (h_config h)) (w_clock s (n_clock s))
      (w_rand s (n_rand s)) (w_rand s (Suc (n_rand s))) = Inr c"
    and w: "w_writes s (n_writes s) = (93, None)"
  obtains s' where "handle_loop h s = handle_loop h s'" "smooth s'" "cc_state s' = stateChallenging"
    "cc_challengeTime s' = Some (w_clock s (n_clock s + 2))"
    "w_reader s' = (w_reader s)\<lparr>rd_data := rest\<rparr>" "w_clock s' = w_clock s" "w_writes s' = w_writes s"
    "w_randint s' = w_randint s" "n_clock s' = n_clock s + 4" "n_writes s' = Suc (n_writes s)"
    "n_randint s' = n_randint s" "w_metrics s' = w_metrics s @ [metrics_ChallengeIssued]"
    "w_sent s' = w_sent s @ frame_of (NewChallenge (Challenge_Marshal c))"
    "wire s' = wire s @ [Io_Read NewRequestChallenge, Io_Write (NewChallenge (Challenge_Marshal c)) True]"
proof (rule handle_loop_message [OF assms(1) rd message_sizes(1), of h])
  fix s1
  assume s1: "w_reader s1 = (w_reader s)\<lparr>rd_data := rest\<rparr>" "w_clock s1 = w_clock s" "smooth s1"
    "w_writes s1 = w_writes s" "w_rand s1 = w_rand s" "w_randint s1 = w_randint s"
    "context_of s1 = context_of s" "used s1 = used s" "w_metrics s1 = w_metrics s" "w_sent s1 = w_sent s"
    "wire s1 = wire s @ [Io_Read NewRequestChallenge]"
    and loop: "handle_loop h s = (case run_state (processMessage h NewRequestChallenge) s1 of
         ((stop, Some e), s) \<Rightarrow> (Some e, s)
       | ((stop, None), s) \<Rightarrow> (if stop then (None, s) else handle_loop h s))"
  have n: "n_clock s1 = n_clock s" "n_writes s1 = n_writes s" "n_rand s1 = n_rand s" "n_randint s1 = n_randint s"
      "cc_state s1 = stateConnected"
    using s1(7,8) st by (simp_all add: used_def context_of_def)
  show thesis
  proof (rule handleConnected_ok [OF s1(3) message_sizes(2), of h c])
    show "writes_whole s1 (NewChallenge (Challenge_Marshal c))"
      using w by (simp add: writes_whole_def message_sizes n s1(4))
    show "Generate (h_generator h) (hc_Difficulty (h_config h)) (w_clock s1 (n_clock s1))
      (w_rand s1 (n_rand s1)) (w_rand s1 (Suc (n_rand s1))) = Inr c"
      using gen by (simp add: n s1(2,5))
  next
    fix s2
    assume s2: "run_state (handleConnected h NewRequestChallenge) s1 = ((False, None), s2)"
      "outside s2 = outside s1" "cc_state s2 = stateChallenging"
      "cc_challengeTime s2 = Some (w_clock s1 (n_clock s1 + 2))"
      "w_metrics s2 = w_metrics s1 @ [metrics_ChallengeIssued]"
      "w_sent s2 = w_sent s1 @ frame_of (NewChallenge (Challenge_Marshal c))"
      "wire s2 = wire s1 @ [Io_Write (NewChallenge (Challenge_Marshal c)) True]"
      "used s2 = (n_clock s1 + 4, Suc (n_writes s1), n_rand s1 + 2, n_randint s1)"
    have "handle_loop h s = handle_loop h s2"
      using loop s2(1) n(5) by (simp add: processMessage_def get_cc_def)
    moreover have "smooth s2" using s1(3) smooth_outside [OF s2(2)] by simp
    ultimately show thesis
      by (rule that) (use s1 s2 n in \<open>simp_all add: outside_def used_def\<close>)
  qed
qed

lemma solution_round:
  assumes "smooth s" and st: "cc_state s = stateChallenging" and sol: "wf_solution sol"
    and rd: "rd_data (w_reader s) = frame_of (NewSolution (Solution_Marshal sol)) @ rest"
    and ver: "Verify (h_verifier h) (w_clock s (n_clock s)) sol = None"
    and ct: "cc_challengeTime s = Some ct"
    and q: "q = Random (w_randint s (n_randint s)) (h_quotes h)" "fits (NewQuote q)"
    and w: "w_writes s (n_writes s) = (Message_Size (NewQuote q), None)"
  obtains s' where "handle_loop h s = (None, s')" "cc_state s' = stateCompleted" "rd_data (w_reader s') = rest"
    "w_sent s' = w_sent s @ frame_of (NewQuote q)"
    "wire s' = wire s @ [Io_Read (NewSolution (Solution_Marshal sol)), Io_Write (NewQuote q) True]"
    "w_metrics s' = w_metrics s @ [metrics_ChallengeSolved,
       metrics_SolveDurationObserve (time_Sub (w_clock s (Suc (n_clock s))) ct), metrics_QuoteServed]"
proof (rule handle_loop_message [OF assms(1) rd message_sizes(9) [OF sol], of h])
  let ?m = "NewSolution (Solution_Marshal sol)"
  fix s1
  assume s1: "w_reader s1 = (w_reader s)\<lparr>rd_data := rest\<rparr>" "w_clock s1 = w_clock s" "smooth s1"
    "w_writes s1 = w_writes s" "w_rand s1 = w_rand s" "w_randint s1 = w_randint s"
    "context_of s1 = context_of s" "used s1 = used s" "w_metrics s1 = w_metrics s" "w_sent s1 = w_sent s"
    "wire s1 = wire s @ [Io_Read ?m]"
    and loop: "handle_loop h s = (case run_state (processMessage h ?m) s1 of
         ((stop, Some e), s) \<Rightarrow> (Some e, s)
       | ((stop, None), s) \<Rightarrow> (if stop then (None, s) else handle_loop h s))"
  have n: "n_clock s1 = n_clock s" "n_writes s1 = n_writes s" "n_randint s1 = n_randint s"
      "cc_state s1 = stateChallenging" "cc_challengeTime s1 = Some ct"
    using s1(7,8) st ct by (simp_all add: used_def context_of_def)
  have "UnmarshalSolution (Payload ?m) = Inr sol" "Verify (h_verifier h) (w_clock s1 (n_clock s1)) sol = None"
    using sol ver n s1(2) by (simp_all add: message_sizes solution_codec.dec_enc)
  note handleChallenging_ok [OF s1(3) message_sizes(7) this n(5)]
  moreover have "q = Random (w_randint s1 (n_randint s1)) (h_quotes h)" "writes_whole s1 (NewQuote q)"
    using q w by (simp_all add: writes_whole_def message_sizes n s1)
  ultimately obtain s2 where "run_state (handleChallenging h ?m) s1 = ((True, None), s2)"
    "outside s2 = outside s1" "cc_state s2 = stateCompleted" "w_sent s2 = w_sent s1 @ frame_of (NewQuote q)"
    "wire s2 = wire s1 @ [Io_Write (NewQuote q) True]"
    "w_metrics s2 = w_metrics s1 @ [metrics_ChallengeSolved,
       metrics_SolveDurationObserve (time_Sub (w_clock s1 (Suc (n_clock s1))) ct), metrics_QuoteServed]"
    by metis
  moreover from this have "handle_loop h s = (None, s2)"
    using loop n(4) by (simp add: processMessage_def get_cc_def)
  ultimately show thesis using that [of s2] s1 n by (simp add: outside_def)
qed

lemma Handle_served:
  assumes "smooth s" and sol: "wf_solution sol"
    and rd: "rd_data (w_reader s) = frame_of NewRequestChallenge @ frame_of (NewSolution (Solution_Marshal sol)) @ rest"
    and gen: "Generate (h_generator h) (hc_Difficulty (h_config h)) (w_clock s (n_clock s + 1))
      (w_rand s (n_rand s)) (w_rand s (n_rand s + 1)) = Inr c"
    and ver: "Verify (h_verifier h) (w_clock s (n_clock s + 5)) sol = None"
    and q: "q = Random (w_randint s (n_randint s)) (h_quotes h)" "fits (NewQuote q)"
    and w: "w_writes s (n_writes s) = (93, None)" "w_writes s (n_writes s + 1) = (Message_Size (NewQuote q), None)"
  obtains s' where "Handle h s = (None, s')" "cc_state s' = stateCompleted" "rd_data (w_reader s') = rest"
    "w_sent s' = w_sent s @ frame_of (NewChallenge (Challenge_Marshal c)) @ frame_of (NewQuote q)"
    "wire s' = wire s @ [Io_Read NewRequestChallenge, Io_Write (NewChallenge (Challenge_Marshal c)) True,
       Io_Read (NewSolution (Solution_Marshal sol)), Io_Write (NewQuote q) True]"
    "w_metrics s' = w_metrics s @ [metrics_ChallengeIssued, metrics_ChallengeSolved,
       metrics_SolveDurationObserve (time_Sub (w_clock s (n_clock s + 6)) (w_clock s (n_clock s + 3))),
       metrics_QuoteServed]"
proof -
  obtain s0 where h: "Handle h s = handle_loop h s0" and "smooth s0" "cc_state s0 = stateConnected"
      "w_metrics s0 = w_metrics s" "w_sent s0 = w_sent s" "n_clock s0 = n_clock s + 1" "n_writes s0 = n_writes s"
      "n_rand s0 = n_rand s" "n_randint s0 = n_randint s" "outside s0 = outside s" "wire s0 = wire s"
    using assms(1) by (auto simp: Handle_def newConnectionContext_def io_defs Let_def smooth_def outside_def wire_def)
  moreover from this have out: "w_reader s0 = w_reader s" "w_clock s0 = w_clock s" "w_writes s0 = w_writes s"
      "w_rand s0 = w_rand s" "w_randint s0 = w_randint s" by (simp_all add: outside_def)
  moreover from calculation obtain s1 where "handle_loop h s0 = handle_loop h s1" "smooth s1"
    "cc_state s1 = stateChallenging" "cc_challengeTime s1 = Some (w_clock s0 (n_clock s0 + 2))"
    "w_reader s1 = (w_reader s0)\<lparr>rd_data := frame_of (NewSolution (Solution_Marshal sol)) @ rest\<rparr>"
    "w_clock s1 = w_clock s0" "w_writes s1 = w_writes s0"
    "w_randint s1 = w_randint s0" "n_clock s1 = n_clock s0 + 4" "n_writes s1 = Suc (n_writes s0)"
    "n_randint s1 = n_randint s0" "w_metrics s1 = w_metrics s0 @ [metrics_ChallengeIssued]"
    "w_sent s1 = w_sent s0 @ frame_of (NewChallenge (Challenge_Marshal c))"
    "wire s1 = wire s0 @ [Io_Read NewRequestChallenge, Io_Write (NewChallenge (Challenge_Marshal c)) True]"
    using rd gen w(1)
    by (elim request_round [of s0 "frame_of (NewSolution (Solution_Marshal sol)) @ rest" h c, rotated -1]) simp_all
  moreover from calculation obtain s2 where "handle_loop h s1 = (None, s2)" "cc_state s2 = stateCompleted"
    "rd_data (w_reader s2) = rest" "w_sent s2 = w_sent s1 @ frame_of (NewQuote q)"
    "wire s2 = wire s1 @ [Io_Read (NewSolution (Solution_Marshal sol)), Io_Write (NewQuote q) True]"
    "w_metrics s2 = w_metrics s1 @ [metrics_ChallengeSolved,
       metrics_SolveDurationObserve (time_Sub (w_clock s1 (Suc (n_clock s1))) (w_clock s0 (n_clock s0 + 2))),
       metrics_QuoteServed]"
    using sol ver q w(2)
    by (elim solution_round [of s1 sol rest h "w_clock s0 (n_clock s0 + 2)" q, rotated -1])
      (simp_all add: add.commute)
  ultimately show thesis using that [of s2] by (simp add: numeral_eq_Suc)
qed

subsection \<open>Sent bytes stay sent\<close>

definition only_adds :: "'r sess \<Rightarrow> bool" where
  "only_adds m \<longleftrightarrow> (\<forall>s. prefix (w_sent s) (w_sent (snd (run_state m s))))"

lemma only_addsD: "only_adds m \<Longrightarrow> run_state m s = (r, s') \<Longrightarrow> prefix (w_sent s) (w_sent s')"
  by (auto simp: only_adds_def dest: spec [of _ s])

lemma only_adds_bind [intro]:
  "only_adds m \<Longrightarrow> (\<And>a. only_adds (f a)) \<Longrightarrow> only_adds (State_Monad.bind m f)"
  by (simp add: only_adds_def split: prod.split) (metis prefix_order.trans prod.collapse snd_conv)

lemma only_adds_basic [intro]:
  "only_adds (State_Monad.return a)" "only_adds time_Now" "only_adds rand_next"
  "only_adds randint_next" "only_adds (record_metric c)" "only_adds (SetReadDeadline t)"
  "only_adds (SetWriteDeadline t)" "only_adds (conn_WriteMessage m)" "only_adds (get_cc f)"
  by (simp_all add: only_adds_def io_defs conn_WriteMessage_def split: prod.split)

lemma only_adds_set_cc [intro]:
  "only_adds (set_cc (cc_state_update f1))" "only_adds (set_cc (cc_challenge_update f2))"
  "only_adds (set_cc (cc_challengeTime_update f3))" "only_adds (set_cc (cc_attempts_update f4))"
  by (simp_all add: only_adds_def set_cc_def)

lemma only_adds_cases [intro]:
  "only_adds a \<Longrightarrow> only_adds b \<Longrightarrow> only_adds (if c then a else b)"
  "only_adds a \<Longrightarrow> (\<And>x. only_adds (f x)) \<Longrightarrow> only_adds (case v of None \<Rightarrow> a | Some x \<Rightarrow> f x)"
  "(\<And>x. only_adds (g x)) \<Longrightarrow> (\<And>x. only_adds (k x)) \<Longrightarrow> only_adds (case u of Inl x \<Rightarrow> g x | Inr x \<Rightarrow> k x)"
  by (simp, cases v, simp_all, cases u, simp_all)

lemma only_adds_processMessage: "only_adds (processMessage h msg)"
proof -
  have s: "only_adds (sendMessage h m)" for m
    unfolding sendMessage_def by (intro only_adds_bind only_adds_cases) rule+
  have f: "only_adds (sendError h code)" "only_adds (fail_with h code e)" for code e
    unfolding sendError_def fail_with_def by (intro s only_adds_bind only_adds_cases | rule)+
  have q: "only_adds (sendQuote h)"
    unfolding sendQuote_def Let_def by (intro s only_adds_bind only_adds_cases | rule)+
  have e: "only_adds (handleVerificationError h e)" for e
    unfolding handleVerificationError_def by (intro f only_adds_bind only_adds_cases | rule)+
  have "only_adds (handleConnected h msg)"
    unfolding handleConnected_def by (intro f s only_adds_bind only_adds_cases | rule)+
  moreover have "only_adds (handleChallenging h msg)"
    unfolding handleChallenging_def by (intro f q e only_adds_bind only_adds_cases | rule)+
  ultimately show ?thesis
    unfolding processMessage_def handleAuthorized_def
    by (intro only_adds_bind) (auto split: connectionState.split)
qed

lemma handle_loop_only_adds: "handle_loop h s = (err, s') \<Longrightarrow> prefix (w_sent s) (w_sent s')"
proof (induction h s rule: handle_loop.induct)
  case (1 h s)
  obtain c s1 where s1: "run_state ctx_Err s = (c, s1)" by (cases "run_state ctx_Err s")
  then have v1: "w_sent s1 = w_sent s" by (auto simp: ctx_Err_def)
  obtain r s2 where s2: "run_state conn_ReadMessage s1 = (r, s2)" by (cases "run_state conn_ReadMessage s1")
  then have v2: "w_sent s2 = w_sent s"
    using v1 by (auto simp: conn_ReadMessage_def split: prod.splits sum.splits)
  note loop = 1(2) [unfolded handle_loop.simps [of h s] s1 prod.case s2]
  show ?case
  proof (cases c; cases r)
    fix e assume "c = None" "r = Inl e"
    then show ?thesis
      using loop v2 s2 handleReadError_silent(1) [of e h s2 err s'] by (auto elim: conn_ReadMessage_Inl)
  next
    fix msg assume cr: "c = None" "r = Inr msg"
    obtain stop err3 s3 where s3: "run_state (processMessage h msg) s2 = ((stop, err3), s3)"
      by (metis prod.exhaust)
    have "prefix (w_sent s) (w_sent s3)" using only_addsD [OF only_adds_processMessage s3] v2 by simp
    moreover have "prefix (w_sent s3) (w_sent s')"
    proof (cases "stop \<or> err3 \<noteq> None")
      case True
      then show ?thesis using loop cr s3 by (auto split: option.splits)
    next
      case False
      then show ?thesis using loop cr s3 1(1) [OF s1 [symmetric] _ s2 [symmetric] _ s3 [symmetric]] by auto
    qed
    ultimately show ?thesis by (rule prefix_order.trans)
  qed (use loop v1 in auto)
qed

end
