(* ===== verification/Conn_Properties.thy ===== *)
theory Conn_Properties
  imports Conn_Service Pow_Example
begin

text \<open>
  The properties of the connection handler, from the refinement of theory \<open>Conn_Protocol\<close> and
  the execution of theory \<open>Conn_Service\<close>, with their instances on one connection on which the
  example challenge of theory \<open>Pow_Example\<close> is issued, solved and rewarded.
\<close>

section \<open>Definitions\<close>

definition ex_handler :: Handler where
  "ex_handler = NewHandler ex_generator ex_verifier (NewMemoryStore []) (DefaultHandlerConfig\<lparr>hc_Difficulty := 16\<rparr>)"

text \<open>
  A connection whose clock stands at the instant of the example; the peer requests a
  challenge, sends the solution and closes.
\<close>

definition ex_session :: session where
  "ex_session =
    \<lparr>w_reader = \<lparr>rd_data = frame_of NewRequestChallenge @ frame_of (NewSolution (Solution_Marshal ex_solution)),
                 rd_err = io_EOF\<rparr>,
     w_writes = (\<lambda>k. (if k = 0 then 93 else 66, None)), w_deadlines = (\<lambda>_. None), w_clock = (\<lambda>_. ex_time),
     w_rand = (\<lambda>k. if k = 0 then Rand_Bytes (\<lambda>_. 0) else Rand_Bytes ex_nonce),
     w_randint = (\<lambda>_. Rand_Int_Value 0), w_ctx = (\<lambda>_. None),
     n_writes = 0, n_deadlines = 0, n_clock = 0, n_rand = 0, n_randint = 0, n_ctx = 0,
     w_sent = [], w_readDeadline = None, w_writeDeadline = None, w_metrics = [], w_trace = [],
     cc_state = stateConnected, cc_challenge = None, cc_challengeTime = None, cc_attempts = 0\<rparr>"

text \<open>
  The type of the server's messages: a challenge of the configured difficulty that a client can
  parse, one byte with a defined error code, or a quote of the store.
\<close>

definition reply_typed :: "Handler \<Rightarrow> message \<Rightarrow> bool" where
  "reply_typed h m \<longleftrightarrow>
    (if Type m = TypeChallenge then
       (case UnmarshalChallenge (Payload m) of
          Inl e \<Rightarrow> False
        | Inr c \<Rightarrow> length (Payload m) = ChallengeSize \<and> Version c = pow_Version \<and> Difficulty c = hc_Difficulty (h_config h) \<and>
            Challenge_Validate c = None)
     else if Type m = TypeError then
       (case Payload m of [code] \<Rightarrow> ErrorCode_IsValid code | _ \<Rightarrow> False)
     else
       Type m = TypeQuote \<and>
       (if ms_quotes (h_quotes h) = [] then bytes_string (Payload m) = DefaultQuote
        else bytes_string (Payload m) \<in> set (ms_quotes (h_quotes h))))"

section \<open>Lemmas\<close>

lemma ex_quote: "Random r (h_quotes ex_handler) = DefaultQuote" "Message_Size (NewQuote DefaultQuote) = 66"
    "fits (NewQuote DefaultQuote)"
  by (simp_all add: ex_handler_def NewHandler_def NewMemoryStore_def Random_def DefaultQuote_def
      Message_Size_def NewQuote_def fits_def proto_sizes)

lemma ex_generate_handler:
  "Generate (h_generator ex_handler) (hc_Difficulty (h_config ex_handler)) ex_time
     (Rand_Bytes (\<lambda>_. 0)) (Rand_Bytes ex_nonce) = Inr ex_challenge"
  by (simp add: ex_handler_def NewHandler_def ex_generate)

lemma ex_verify_handler: "Verify (h_verifier ex_handler) ex_time ex_solution = None"
  by (simp add: ex_handler_def NewHandler_def)

text \<open>The example is a connection of a client that plays by the rules.\<close>

lemma ex_session_honest:
  "smooth ex_session" "wf_solution ex_solution"
  "rd_data (w_reader ex_session) =
     frame_of NewRequestChallenge @ frame_of (NewSolution (Solution_Marshal ex_solution)) @ []"
  "Generate (h_generator ex_handler) (hc_Difficulty (h_config ex_handler)) (w_clock ex_session (n_clock ex_session + 1))
      (w_rand ex_session (n_rand ex_session)) (w_rand ex_session (n_rand ex_session + 1)) = Inr ex_challenge"
  "Verify (h_verifier ex_handler) (w_clock ex_session (n_clock ex_session + 5)) ex_solution = None"
  "DefaultQuote = Random (w_randint ex_session (n_randint ex_session)) (h_quotes ex_handler)"
  using ex_generate_handler ex_verify_handler ex_solution_wf ex_quote(1)
  by (simp_all add: ex_session_def smooth_def)

lemma ex_session_writes:
  "w_writes ex_session (n_writes ex_session) = (93, None)"
  "w_writes ex_session (n_writes ex_session + 1) = (Message_Size (NewQuote DefaultQuote), None)"
  by (simp_all add: ex_session_def ex_quote)

lemma ex_served:
  "wire (snd (Handle ex_handler ex_session)) =
    [Io_Read NewRequestChallenge, Io_Write (NewChallenge (Challenge_Marshal ex_challenge)) True,
     Io_Read (NewSolution (Solution_Marshal ex_solution)), Io_Write (NewQuote DefaultQuote) True]"
proof (rule Handle_served [OF ex_session_honest ex_quote(3) ex_session_writes])
qed (simp add: wire_def ex_session_def)

text \<open>What the recorded challenge can influence: nothing but itself.\<close>

definition ignores_challenge :: "'r sess \<Rightarrow> bool" where
  "ignores_challenge m \<longleftrightarrow>
     (\<forall>s x. run_state m (s\<lparr>cc_challenge := x\<rparr>) = apsnd (\<lambda>s. s\<lparr>cc_challenge := x\<rparr>) (run_state m s))"

lemma ignores_bind [intro]:
  "ignores_challenge m \<Longrightarrow> (\<And>a. ignores_challenge (f a)) \<Longrightarrow> ignores_challenge (State_Monad.bind m f)"
  by (simp add: ignores_challenge_def split: prod.split)

lemma ignores_basic [intro]:
  "ignores_challenge (State_Monad.return a)" "ignores_challenge time_Now" "ignores_challenge rand_next"
  "ignores_challenge randint_next" "ignores_challenge (record_metric c)" "ignores_challenge (SetReadDeadline t)"
  "ignores_challenge (SetWriteDeadline t)" "ignores_challenge (conn_WriteMessage m)"
  "ignores_challenge (get_cc cc_state)" "ignores_challenge (get_cc cc_challengeTime)" "ignores_challenge (get_cc cc_attempts)"
  by (simp_all add: ignores_challenge_def io_defs conn_WriteMessage_def split: prod.split)

lemma ignores_set_cc [intro]:
  "ignores_challenge (set_cc (cc_state_update f1))" "ignores_challenge (set_cc (cc_challengeTime_update f3))"
  "ignores_challenge (set_cc (cc_attempts_update f4))"
  by (simp_all add: ignores_challenge_def set_cc_def)

lemma ignores_cases [intro]:
  "ignores_challenge a \<Longrightarrow> ignores_challenge b \<Longrightarrow> ignores_challenge (if c then a else b)"
  "ignores_challenge a \<Longrightarrow> (\<And>x. ignores_challenge (f x)) \<Longrightarrow> ignores_challenge (case v of None \<Rightarrow> a | Some x \<Rightarrow> f x)"
  "(\<And>x. ignores_challenge (g x)) \<Longrightarrow> (\<And>x. ignores_challenge (k x)) \<Longrightarrow>
     ignores_challenge (case u of Inl x \<Rightarrow> g x | Inr x \<Rightarrow> k x)"
  by (simp, cases v, simp_all, cases u, simp_all)

lemma ignores_handleChallenging: "ignores_challenge (handleChallenging h msg)"
proof -
  have s: "ignores_challenge (sendMessage h m)" for m
    unfolding sendMessage_def by (intro ignores_bind ignores_cases) rule+
  have f: "ignores_challenge (sendError h code)" "ignores_challenge (fail_with h code e)" for code e
    unfolding sendError_def fail_with_def by (intro s ignores_bind ignores_cases | rule)+
  have q: "ignores_challenge (sendQuote h)"
    unfolding sendQuote_def Let_def by (intro s ignores_bind ignores_cases | rule)+
  have e: "ignores_challenge (handleVerificationError h e)" for e
    unfolding handleVerificationError_def by (intro f ignores_bind ignores_cases | rule)+
  show ?thesis
    unfolding handleChallenging_def by (intro f q e ignores_bind ignores_cases | rule)+
qed

text \<open>The events of a run of the protocol, and the messages among them.\<close>

lemma turn_events_Write:
  "Io_Write reply ok \<in> set (concat (map turn_events turns)) \<longleftrightarrow> (\<exists>m. (m, Some (reply, ok)) \<in> set turns)"
proof -
  have "Io_Write reply ok \<in> set (turn_events t) \<longleftrightarrow> snd t = Some (reply, ok)" for t
    by (cases t rule: turn_events.cases) auto
  then show ?thesis by force
qed

lemma messages_turns:
  "messages_read (concat (map turn_events turns)) = map fst turns"
  "length (messages_written (concat (map turn_events turns))) \<le> length turns"
proof -
  have t: "messages_read (turn_events t) = [fst t]" "length (messages_written (turn_events t)) \<le> 1" for t
    by (cases t rule: turn_events.cases; simp)+
  show "messages_read (concat (map turn_events turns)) = map fst turns"
    by (induction turns) (simp_all add: t)
  show "length (messages_written (concat (map turn_events turns))) \<le> length turns"
    by (induction turns) (simp_all add: add_le_mono [OF t(2), simplified] )
qed

lemma runs_shape:
  assumes run: "runs (server_turn h T) Await_Request turns p"
  shows "int (length (tl turns)) \<le> max 1 (hc_MaxAttempts (h_config h)) \<and>
     list_all (\<lambda>t. \<exists>reply. snd t = Some (reply, True)) (butlast turns) \<and>
     (tl turns \<noteq> [] \<longrightarrow> Type (fst (hd turns)) = TypeRequestChallenge \<and>
        (\<exists>c. snd (hd turns) = Some (NewChallenge (Challenge_Marshal c), True))) \<and>
     list_all (\<lambda>t. \<forall>reply ok. snd t = Some (reply, ok) \<longrightarrow> Type reply \<noteq> TypeChallenge) (tl turns) \<and>
     list_all (\<lambda>t. Type (fst t) = TypeSolution) (butlast (tl turns))"
proof (cases "tl turns = []")
  case True
  then have "butlast turns = []" by (cases turns) simp_all
  then show ?thesis using True by simp
next
  case False
  then have "solving (butlast turns)" "no_challenge (last turns)" using runs_solving [OF run] by simp_all
  moreover obtain t ts u where turns: "turns = t # ts @ [u]"
    using False by (cases turns; cases "tl turns" rule: rev_cases) auto
  ultimately have "solving (t # ts)" "no_challenge u" by (simp_all add: butlast_append)
  moreover from this have "\<exists>c. snd t = Some (NewChallenge (Challenge_Marshal c), True)"
    by (auto simp: solving_def challenged_def)
  ultimately show ?thesis
    using runs_length [OF run]
    by (simp add: turns solving_def no_challenge_def answered_def list_all_iff)
qed

text \<open>Every answer of the protocol is typed, so every message of a run is.\<close>

lemma error_reply_typed: "ErrorCode_IsValid code \<Longrightarrow> reply_typed h (NewError code)"
  by (simp add: reply_typed_def msg_constructors msg_types)

lemma quote_reply_typed: "reply_typed h (NewQuote (Random r (h_quotes h)))"
  using Random_mem [of "h_quotes h" r] by (simp add: reply_typed_def msg_constructors msg_types) (simp add: Random_def)

lemma challenge_reply_typed:
  assumes "Generate g (hc_Difficulty (h_config h)) t r1 r2 = Inr c"
  shows "reply_typed h (NewChallenge (Challenge_Marshal c))"
  using Generate_Inr [OF assms] challenge_codec.dec_enc [of c]
  by (simp add: reply_typed_def msg_constructors msg_types length_Challenge_Marshal_any Challenge_Validate_None_iff pow_sizes)

lemma error_codes_valid:
  "ErrorCode_IsValid ErrCodeInvalidMessage" "ErrorCode_IsValid ErrCodeInvalidState" "ErrorCode_IsValid ErrCodeChallengeExpired"
  "ErrorCode_IsValid ErrCodeInvalidSignature" "ErrorCode_IsValid ErrCodeInvalidSolution" "ErrorCode_IsValid ErrCodeTooManyAttempts"
  by (simp_all add: ErrorCode_IsValid_cases)

lemma answer_typed: "answer h T p m reply p' \<Longrightarrow> reply_typed h reply"
  by (erule answer_elim) (simp_all add: error_reply_typed error_codes_valid quote_reply_typed challenge_reply_typed)

lemma turn_typed: "server_turn h T p t p' \<Longrightarrow> list_all (reply_typed h) (messages_written (turn_events t))"
  by (erule server_turn_elim) (simp_all add: answer_typed)

lemma runs_typed:
  assumes "runs (server_turn h T) p turns p'"
  shows "list_all (reply_typed h) (messages_written (concat (map turn_events turns)))"
  using assms by (induction rule: runs.induct) (simp_all add: turn_typed)

section \<open>Properties\<close>

text \<open>
  C3: The handler implements the protocol. Whatever the peer sends and however the connection
  fails, the messages read and written by \<^verbatim>\<open>Handle\<close> are those of a run of the abstract machine
  from its first phase, in order, and there are no others.
\<close>

theorem handler_refines_protocol:
  "\<exists>turns p. runs (server_turn h (range (w_clock s))) Await_Request turns p \<and>
     wire (snd (Handle h s)) = wire s @ concat (map turn_events turns)"
proof -
  obtain err s' where "Handle h s = (err, s')" by (cases "Handle h s")
  from this Handle_refines [OF this] show ?thesis by (metis snd_conv)
qed

text \<open>
  C2: No quote without work. If \<^verbatim>\<open>Handle\<close> writes a quote, the connection began with a challenge
  that was issued and sent, the quote is the last message on the connection, and the message
  before it is a solution that \<^verbatim>\<open>Verify\<close> accepted at an instant of the server's clock.
\<close>

theorem quote_needs_work:
  assumes "Io_Write reply ok \<in> set (wire (snd (Handle h s)))" "Type reply = TypeQuote" "w_trace s = []"
  shows "\<exists>request c between m sol t r.
    wire (snd (Handle h s)) =
      [Io_Read request, Io_Write (NewChallenge (Challenge_Marshal c)) True] @ between @ [Io_Read m, Io_Write reply ok] \<and>
    Type m = TypeSolution \<and> UnmarshalSolution (Payload m) = Inr sol \<and>
    t \<in> range (w_clock s) \<and> Verify (h_verifier h) t sol = None \<and> reply = NewQuote (Random r (h_quotes h))"
proof -
  obtain err s' where s': "Handle h s = (err, s')" by (cases "Handle h s")
  then obtain turns p where run: "runs (server_turn h (range (w_clock s))) Await_Request turns p"
    and wire: "wire s' = concat (map turn_events turns)"
    using assms(3) by (elim Handle_refines) (auto simp: wire_def)
  then obtain m where m: "(m, Some (reply, ok)) \<in> set turns"
    using assms(1) s' turn_events_Write by auto
  obtain before n where turns: "turns = before @ [(m, Some (reply, ok))]" "challenged before"
    and last: "server_turn h (range (w_clock s)) (Await_Solution n) (m, Some (reply, ok)) Closed"
    by (rule runs_quote_last [OF run m assms(2)])
  from turns(2) obtain request c rest where "before = (request, Some (NewChallenge (Challenge_Marshal c), True)) # rest"
    by (auto simp: challenged_def)
  then have "wire s' = [Io_Read request, Io_Write (NewChallenge (Challenge_Marshal c)) True] @
      concat (map turn_events rest) @ [Io_Read m, Io_Write reply ok]"
    using wire turns by simp
  moreover obtain sol t r where "UnmarshalSolution (Payload m) = Inr sol" "t \<in> range (w_clock s)"
      "Verify (h_verifier h) t sol = None" "reply = NewQuote (Random r (h_quotes h))" "Type m = TypeSolution"
    using quote_answer [OF last assms(2)] by blast
  ultimately show ?thesis unfolding s' snd_conv by blast
qed

theorem quote_needs_work_witness:
  "\<exists>m sol. Io_Read m \<in> set (wire (snd (Handle ex_handler ex_session))) \<and>
     UnmarshalSolution (Payload m) = Inr sol \<and> Verify (h_verifier ex_handler) ex_time sol = None"
proof -
  have "Io_Write (NewQuote DefaultQuote) True \<in> set (wire (snd (Handle ex_handler ex_session)))"
    using ex_served by auto
  from quote_needs_work [OF this] show ?thesis
    by (fastforce simp: message_kinds ex_session_def)
qed

text \<open>
  C15: The work a connection can cause is bounded. What \<^verbatim>\<open>Handle\<close> reads and writes is a sequence of
  turns, each a message of the peer and at most one answer right after it. After the first there
  are at most \<^verbatim>\<open>MaxAttempts\<close> turns (one if that is not positive); they occur only if the first was a
  request answered by a challenge, none of them is answered by another challenge, and all but
  the last are solutions. Every message but the last is answered completely.
\<close>

theorem attempts_bounded:
  "\<exists>turns. wire (snd (Handle h s)) = wire s @ concat (map turn_events turns) \<and>
     int (length (tl turns)) \<le> max 1 (hc_MaxAttempts (h_config h)) \<and>
     list_all (\<lambda>t. \<exists>reply. snd t = Some (reply, True)) (butlast turns) \<and>
     (tl turns \<noteq> [] \<longrightarrow> Type (fst (hd turns)) = TypeRequestChallenge \<and>
        (\<exists>c. snd (hd turns) = Some (NewChallenge (Challenge_Marshal c), True))) \<and>
     list_all (\<lambda>t. \<forall>reply ok. snd t = Some (reply, ok) \<longrightarrow> Type reply \<noteq> TypeChallenge) (tl turns) \<and>
     list_all (\<lambda>t. Type (fst t) = TypeSolution) (butlast (tl turns)) \<and>
     messages_read (concat (map turn_events turns)) = map fst turns \<and>
     length (messages_written (concat (map turn_events turns))) \<le> length turns"
proof -
  obtain err s' where s': "Handle h s = (err, s')" by (cases "Handle h s")
  then obtain turns p where run: "runs (server_turn h (range (w_clock s))) Await_Request turns p"
    and wire: "wire s' = wire s @ concat (map turn_events turns)"
    by (elim Handle_refines)
  have shape: "int (length (tl turns)) \<le> max 1 (hc_MaxAttempts (h_config h)) \<and>
     list_all (\<lambda>t. \<exists>reply. snd t = Some (reply, True)) (butlast turns) \<and>
     (tl turns \<noteq> [] \<longrightarrow> Type (fst (hd turns)) = TypeRequestChallenge \<and>
        (\<exists>c. snd (hd turns) = Some (NewChallenge (Challenge_Marshal c), True))) \<and>
     list_all (\<lambda>t. \<forall>reply ok. snd t = Some (reply, ok) \<longrightarrow> Type reply \<noteq> TypeChallenge) (tl turns) \<and>
     list_all (\<lambda>t. Type (fst t) = TypeSolution) (butlast (tl turns))"
    by (rule runs_shape [OF run])
  show ?thesis
    by (rule exI [of _ turns]) (use wire s' shape messages_turns [of turns] in simp)
qed

theorem attempts_bounded_witness:
  "\<exists>turns. wire (snd (Handle ex_handler ex_session)) = concat (map turn_events turns) \<and>
     map fst turns = [NewRequestChallenge, NewSolution (Solution_Marshal ex_solution)] \<and>
     (\<exists>c. snd (hd turns) = Some (NewChallenge (Challenge_Marshal c), True))"
proof -
  have start: "wire ex_session = []" by (simp add: wire_def ex_session_def)
  obtain turns where turns: "wire (snd (Handle ex_handler ex_session)) = concat (map turn_events turns)"
      "messages_read (concat (map turn_events turns)) = map fst turns"
      "tl turns \<noteq> [] \<longrightarrow> (\<exists>c. snd (hd turns) = Some (NewChallenge (Challenge_Marshal c), True))"
    using attempts_bounded [of ex_handler ex_session] unfolding start append_Nil by blast
  have fst: "map fst turns = [NewRequestChallenge, NewSolution (Solution_Marshal ex_solution)]"
    using turns(2) by (simp add: ex_served [unfolded turns(1)])
  then have "tl turns \<noteq> []" by (cases turns) auto
  then show ?thesis using turns(3) by (intro exI [of _ turns] conjI turns(1) fst) simp
qed

text \<open>
  C13: The server's messages are well-typed. Whatever the peer sends, every message \<^verbatim>\<open>Handle\<close> tries to
  write is a CHALLENGE whose 90 bytes parse to a valid challenge of the configured difficulty,
  an ERROR of one byte with a defined code, or a QUOTE with a quote of the store.
\<close>

theorem handler_replies_typed:
  "\<exists>es. wire (snd (Handle h s)) = wire s @ es \<and> list_all (reply_typed h) (messages_written es)"
proof -
  obtain err s' where s': "Handle h s = (err, s')" by (cases "Handle h s")
  then obtain turns p where "runs (server_turn h (range (w_clock s))) Await_Request turns p"
    and "wire s' = wire s @ concat (map turn_events turns)"
    by (elim Handle_refines)
  then show ?thesis using runs_typed s' by fastforce
qed

text \<open>
  C4: A client that plays by the rules is served. On a connection that works, a peer that
  requests a challenge and then sends a solution the verifier accepts at that moment gets the
  challenge and a quote, \<^verbatim>\<open>Handle\<close> ends without an error in the state \<^verbatim>\<open>COMPLETED\<close>, and the metrics
  record one challenge issued, one solved and one quote.
\<close>

theorem honest_client_served:
  assumes "smooth s" "wf_solution sol"
    and "rd_data (w_reader s) = frame_of NewRequestChallenge @ frame_of (NewSolution (Solution_Marshal sol)) @ rest"
    and "Generate (h_generator h) (hc_Difficulty (h_config h)) (w_clock s (n_clock s + 1))
      (w_rand s (n_rand s)) (w_rand s (n_rand s + 1)) = Inr c"
    and "Verify (h_verifier h) (w_clock s (n_clock s + 5)) sol = None"
    and "q = Random (w_randint s (n_randint s)) (h_quotes h)" "fits (NewQuote q)"
    and "w_writes s (n_writes s) = (93, None)" "w_writes s (n_writes s + 1) = (Message_Size (NewQuote q), None)"
  shows "\<exists>s'. Handle h s = (None, s') \<and> cc_state s' = stateCompleted \<and> rd_data (w_reader s') = rest \<and>
    w_sent s' = w_sent s @ frame_of (NewChallenge (Challenge_Marshal c)) @ frame_of (NewQuote q) \<and>
    w_metrics s' = w_metrics s @ [metrics_ChallengeIssued, metrics_ChallengeSolved,
       metrics_SolveDurationObserve (time_Sub (w_clock s (n_clock s + 6)) (w_clock s (n_clock s + 3))),
       metrics_QuoteServed]"
  by (rule Handle_served [OF assms]) blast

theorem honest_client_served_witness:
  "\<exists>s'. Handle ex_handler ex_session = (None, s') \<and> cc_state s' = stateCompleted \<and> rd_data (w_reader s') = [] \<and>
    w_sent s' = frame_of (NewChallenge (Challenge_Marshal ex_challenge)) @ frame_of (NewQuote DefaultQuote)"
  using honest_client_served [OF ex_session_honest ex_quote(3)] ex_session_writes by (simp add: ex_session_def) blast

text \<open>
  C16: A solution is not bound to the connection it was issued on: the challenge recorded in the
  connection context has no influence on what happens to a solution. A solved challenge can be
  presented on every connection until it expires.
\<close>

theorem solution_not_bound:
  "run_state (handleChallenging h msg) (s\<lparr>cc_challenge := x\<rparr>) =
     apsnd (\<lambda>s. s\<lparr>cc_challenge := x\<rparr>) (run_state (handleChallenging h msg) s)"
  using ignores_handleChallenging by (simp add: ignores_challenge_def)

end
