(* ===== verification/Go_Strconv.thy ===== *)
theory Go_Strconv
  imports Go_Float
begin

text \<open>
  The parsers of Go's standard library that the configuration uses: \<^verbatim>\<open>strconv.Atoi\<close>,
  \<^verbatim>\<open>time.ParseDuration\<close> and \<^verbatim>\<open>strconv.ParseFloat\<close> with 64 bits, and \<^verbatim>\<open>Duration.String\<close>, with which the
  client prints a duration. The first two follow the library's
  code, with its unsigned arithmetic and its use of float64 for fractions of a unit; the third
  follows the library's grammar and its specification, the nearest float64. What an error says
  is not modelled, only that there is one and of which kind.
\<close>

section \<open>Definitions\<close>

definition strconv_ErrSyntax :: go_error where
  [go_errs]: "strconv_ErrSyntax = Sentinel ''strconv.ErrSyntax'' ''invalid syntax''"

definition strconv_ErrRange :: go_error where
  [go_errs]: "strconv_ErrRange = Sentinel ''strconv.ErrRange'' ''value out of range''"

definition invalid_duration :: go_error where
  "invalid_duration = Err_Text ''time: invalid duration''"

definition digit :: "char \<Rightarrow> nat option" where
  "digit c = (let n = of_char c :: nat in if 48 \<le> n \<and> n \<le> 57 then Some (n - 48) else None)"

abbreviation is_digit :: "char \<Rightarrow> bool" where "is_digit c \<equiv> digit c \<noteq> None"

definition digits_value :: "string \<Rightarrow> nat" where
  "digits_value s = foldl (\<lambda>n c. 10 * n + the (digit c)) 0 s"

subsection \<open>strconv.Atoi\<close>

text \<open>An optional sign and at least one digit, in the range of int64.\<close>

fun split_sign :: "string \<Rightarrow> bool \<times> string" where
  "split_sign [] = (False, [])"
| "split_sign (c # s) =
     (if c = CHR ''-'' then (True, s) else if c = CHR ''+'' then (False, s) else (False, c # s))"

definition strconv_Atoi :: "string \<Rightarrow> int result" where
  "strconv_Atoi s =
    (case split_sign s of
       (neg, ds) \<Rightarrow>
         (if ds = [] \<or> \<not> list_all is_digit ds then Inl strconv_ErrSyntax
          else let n = (if neg then - int (digits_value ds) else int (digits_value ds))
               in if - (2 ^ 63) \<le> n \<and> n < 2 ^ 63 then Inr n else Inl strconv_ErrRange))"

subsection \<open>time.ParseDuration\<close>

text \<open>
  \<^verbatim>\<open>leadingInt\<close> reads digits into a uint64 and fails (\<open>None\<close>) above \<open>2 ^ 63\<close>. \<^verbatim>\<open>leadingFraction\<close>
  stops counting when the value would not fit, and keeps the scale as a float64.
\<close>

fun leadingInt :: "u64 \<Rightarrow> string \<Rightarrow> (u64 \<times> string) option" where
  "leadingInt x [] = Some (x, [])"
| "leadingInt x (c # s) =
    (case digit c of
       None \<Rightarrow> Some (x, c # s)
     | Some d \<Rightarrow>
        (if x > 2 ^ 63 div 10 then None
         else let x = x * 10 + word_of_nat d
              in if x > 2 ^ 63 then None else leadingInt x s))"

fun leadingFraction :: "u64 \<Rightarrow> f64 \<Rightarrow> bool \<Rightarrow> string \<Rightarrow> u64 \<times> f64 \<times> string" where
  "leadingFraction x scale overflow [] = (x, scale, [])"
| "leadingFraction x scale overflow (c # s) =
    (case digit c of
       None \<Rightarrow> (x, scale, c # s)
     | Some d \<Rightarrow>
        (if overflow then leadingFraction x scale True s
         else if x > (2 ^ 63 - 1) div 10 then leadingFraction x scale True s
         else let y = x * 10 + word_of_nat d
              in if y > 2 ^ 63 then leadingFraction x scale True s
                 else leadingFraction y (f64_mul scale (Fin 10)) False s))"

text \<open>The units; the two forms of the micro sign are given by their UTF-8 bytes.\<close>

definition unitMap :: "(string \<times> u64) list" where
  "unitMap =
    [(''ns'', 1), (''us'', 1000), ([char_of (194 :: nat), char_of (181 :: nat), CHR ''s''], 1000),
     ([char_of (206 :: nat), char_of (188 :: nat), CHR ''s''], 1000),
     (''ms'', 1000000), (''s'', 1000000000), (''m'', 60000000000), (''h'', 3600000000000)]"

definition f64_to_uint64 :: "f64 \<Rightarrow> u64" where
  "f64_to_uint64 x = (case x of Fin q \<Rightarrow> word_of_int (f64_trunc q) | _ \<Rightarrow> 2 ^ 63)"

definition unit_char :: "char \<Rightarrow> bool" where
  "unit_char c \<longleftrightarrow> c \<noteq> CHR ''.'' \<and> \<not> is_digit c"

definition duration_fraction :: "string \<Rightarrow> u64 \<times> f64 \<times> string \<times> bool" where
  "duration_fraction s =
    (if s \<noteq> [] \<and> hd s = CHR ''.''
     then (case leadingFraction 0 (Fin 1) False (tl s) of
             (f, scale, s') \<Rightarrow> (f, scale, s', length (tl s) \<noteq> length s'))
     else (0, Fin 1, s, False))"

text \<open>One group of the loop: a number, an optional fraction and a unit; the value and the rest.\<close>

definition duration_group :: "string \<Rightarrow> (u64 \<times> string) option" where
  "duration_group s =
    (if \<not> (s \<noteq> [] \<and> (hd s = CHR ''.'' \<or> is_digit (hd s))) then None
     else case leadingInt 0 s of
         None \<Rightarrow> None
       | Some (v, s1) \<Rightarrow>
          (let pre = (length s \<noteq> length s1)
           in case duration_fraction s1 of
                (f, scale, s2, post) \<Rightarrow>
                  (let u = takeWhile unit_char s2;
                       s3 = dropWhile unit_char s2
                   in if \<not> pre \<and> \<not> post then None
                      else if u = [] then None
                      else case map_of unitMap u of
                          None \<Rightarrow> None
                        | Some unit \<Rightarrow>
                           (if v > 2 ^ 63 div unit then None
                            else let v = v * unit;
                                     w = (if f > 0
                                          then v + f64_to_uint64 (f64_mul (f64_of_int (uint f))
                                                     (f64_div (f64_of_int (uint unit)) scale))
                                          else v)
                                 in if f > 0 \<and> w > 2 ^ 63 then None else Some (w, s3)))))"

text \<open>Every group takes characters off the text.\<close>

lemma leadingInt_rest: "leadingInt x s = Some (v, s') \<Longrightarrow> length s' \<le> length s"
  by (induction s arbitrary: x) (auto simp: Let_def intro: le_SucI split: option.splits if_splits)

lemma leadingFraction_rest: "leadingFraction x scale overflow s = (f, scale', s') \<Longrightarrow> length s' \<le> length s"
  by (induction s arbitrary: x scale overflow) (auto simp: Let_def intro: le_SucI split: option.splits if_splits)

lemma dropWhile_shorter: "takeWhile P xs \<noteq> [] \<Longrightarrow> length (dropWhile P xs) < length xs"
  by (cases xs) (auto split: if_splits simp: le_imp_less_Suc length_dropWhile_le)

lemma duration_fraction_rest: "duration_fraction s = (f, scale, s', post) \<Longrightarrow> length s' \<le> length s"
  by (auto simp: duration_fraction_def dest!: leadingFraction_rest split: if_splits prod.splits)

lemma duration_group_rest:
  assumes "duration_group s = Some (w, s')"
  shows "length s' < length s"
proof -
  obtain v s1 where s1: "leadingInt 0 s = Some (v, s1)"
    using assms by (auto simp: duration_group_def split: if_splits option.splits)
  obtain f scale s2 post where s2: "duration_fraction s1 = (f, scale, s2, post)" by (metis prod.exhaust)
  have "takeWhile unit_char s2 \<noteq> []" "s' = dropWhile unit_char s2"
    using assms by (auto simp: duration_group_def s1 s2 Let_def split: if_splits option.splits)
  then show ?thesis
    using leadingInt_rest [OF s1] duration_fraction_rest [OF s2] dropWhile_shorter [of unit_char s2] by simp
qed

function duration_groups :: "u64 \<Rightarrow> string \<Rightarrow> u64 option" where
  "duration_groups d s =
    (if s = [] then Some d
     else case duration_group s of
         None \<Rightarrow> None
       | Some (v, s') \<Rightarrow> (let d = d + v in if d > 2 ^ 63 then None else duration_groups d s'))"
  by pat_completeness auto
termination
  by (relation "measure (\<lambda>(d, s). length s)") (auto dest: duration_group_rest)

declare duration_groups.simps [simp del]

definition time_ParseDuration :: "string \<Rightarrow> duration result" where
  "time_ParseDuration s =
    (case split_sign s of
       (neg, s) \<Rightarrow>
         (if s = ''0'' then Inr 0
          else if s = [] then Inl invalid_duration
          else case duration_groups 0 s of
              None \<Rightarrow> Inl invalid_duration
            | Some d \<Rightarrow>
               (if neg then Inr (sint (- d))
                else if d > 2 ^ 63 - 1 then Inl invalid_duration
                else Inr (sint d))))"

subsection \<open>Duration.String\<close>

text \<open>
  \<^verbatim>\<open>fmtFrac\<close>: the fraction of \<open>u / 10 ^ prec\<close> without trailing zeros, and without the point when it is
  zero; the largest unit that is not zero comes first.
\<close>

definition fmtFrac :: "nat \<Rightarrow> nat \<Rightarrow> string" where
  "fmtFrac u prec =
    (let ds = show_nat (u mod 10 ^ prec);
         padded = replicate (prec - length ds) (CHR ''0'') @ ds;
         kept = rev (dropWhile (\<lambda>c. c = CHR ''0'') (rev padded))
     in if prec = 0 \<or> kept = [] then [] else CHR ''.'' # kept)"

definition Duration_String :: "duration \<Rightarrow> string" where
  "Duration_String d =
    (let u = nat \<bar>d\<bar>;
         s = (if u < 1000000000
              then (if u = 0 then ''0s''
                    else if u < 1000 then show_nat u @ ''ns''
                    else if u < 1000000 then show_nat (u div 1000) @ fmtFrac u 3 @ [char_of (194 :: nat), char_of (181 :: nat), CHR ''s'']
                    else show_nat (u div 1000000) @ fmtFrac u 6 @ ''ms'')
              else (let secs = u div 1000000000;
                        mins = secs div 60;
                        hours = mins div 60
                    in (if hours > 0 then show_nat hours @ ''h'' else []) @
                       (if mins > 0 then show_nat (mins mod 60) @ ''m'' else []) @
                       show_nat (secs mod 60) @ fmtFrac u 9 @ ''s''))
     in if d < 0 then CHR ''-'' # s else s)"

subsection \<open>strconv.ParseFloat\<close>

text \<open>\<^verbatim>\<open>c | 0x20\<close> for letters, as the library compares them.\<close>

definition lower :: "char \<Rightarrow> char" where
  "lower c = (let n = of_char c :: nat in if 65 \<le> n \<and> n \<le> 90 then char_of (n + 32) else c)"

definition hex_digit :: "char \<Rightarrow> nat option" where
  "hex_digit c =
    (case digit c of
       Some d \<Rightarrow> Some d
     | None \<Rightarrow>
        (let n = of_char (lower c) :: nat in if 97 \<le> n \<and> n \<le> 102 then Some (n - 87) else None))"

definition base_digit :: "bool \<Rightarrow> char \<Rightarrow> nat option" where
  "base_digit hex c = (if hex then hex_digit c else digit c)"

text \<open>\<^verbatim>\<open>special\<close>: infinities with or without a sign, and NaN.\<close>

definition float_special :: "string \<Rightarrow> f64 option" where
  "float_special s =
    (let t = map lower s
     in if t \<in> {''inf'', ''infinity'', ''+inf'', ''+infinity''} then Some PInf
        else if t \<in> {''-inf'', ''-infinity''} then Some NInf
        else if t = ''nan'' then Some NaN
        else None)"

text \<open>
  The mantissa: digits with at most one point; underscores are skipped here. The result is the
  value of the digits, whether there was one, how many followed the point (\<open>None\<close>: no point),
  and the rest.
\<close>

fun mantissa :: "bool \<Rightarrow> nat \<Rightarrow> bool \<Rightarrow> nat option \<Rightarrow> string \<Rightarrow> nat \<times> bool \<times> nat option \<times> string" where
  "mantissa hex m saw fd [] = (m, saw, fd, [])"
| "mantissa hex m saw fd (c # s) =
    (if c = CHR ''_'' then mantissa hex m saw fd s
     else if c = CHR ''.'' then (if fd = None then mantissa hex m saw (Some 0) s else (m, saw, fd, c # s))
     else case base_digit hex c of
         Some d \<Rightarrow> mantissa hex ((if hex then 16 else 10) * m + d) True (map_option Suc fd) s
       | None \<Rightarrow> (m, saw, fd, c # s))"

text \<open>The digits of the exponent, which stop counting at 10000.\<close>

fun exponent_digits :: "nat \<Rightarrow> string \<Rightarrow> nat \<times> string" where
  "exponent_digits e [] = (e, [])"
| "exponent_digits e (c # s) =
    (if c = CHR ''_'' then exponent_digits e s
     else case digit c of
         Some d \<Rightarrow> exponent_digits (if e < 10000 then e * 10 + d else e) s
       | None \<Rightarrow> (e, c # s))"

text \<open>The exponent, which a hexadecimal number must have; \<open>None\<close> is a syntax error.\<close>

definition exponent :: "bool \<Rightarrow> string \<Rightarrow> (int \<times> string) option" where
  "exponent hex s =
    (if s \<noteq> [] \<and> lower (hd s) = (if hex then CHR ''p'' else CHR ''e'')
     then (case split_sign (tl s) of
             (neg, s') \<Rightarrow>
               (if s' = [] \<or> \<not> is_digit (hd s') then None
                else case exponent_digits 0 s' of
                    (e, s'') \<Rightarrow> Some (if neg then - int e else int e, s'')))
     else if hex then None else Some (0, s))"

text \<open>\<^verbatim>\<open>underscoreOK\<close>, after the sign: an underscore stands between digits, or after the base prefix.\<close>

datatype seen = Seen_Start | Seen_Digit | Seen_Underscore | Seen_Other

fun underscore_scan :: "bool \<Rightarrow> seen \<Rightarrow> string \<Rightarrow> bool" where
  "underscore_scan hex i [] = (i \<noteq> Seen_Underscore)"
| "underscore_scan hex i (c # s) =
    (if base_digit hex c \<noteq> None then underscore_scan hex Seen_Digit s
     else if c = CHR ''_'' then (if i \<noteq> Seen_Digit then False else underscore_scan hex Seen_Underscore s)
     else if i = Seen_Underscore then False
     else underscore_scan hex Seen_Other s)"

definition powr_int :: "rat \<Rightarrow> int \<Rightarrow> rat" where
  "powr_int b e = (if 0 \<le> e then b ^ nat e else 1 / b ^ nat (- e))"

definition read_float :: "string \<Rightarrow> rat option" where
  "read_float s =
    (case split_sign s of
       (neg, t) \<Rightarrow>
         (let hex = (2 < length t \<and> t ! 0 = CHR ''0'' \<and> lower (t ! 1) = CHR ''x'');
              body = (if hex then drop 2 t else t)
          in case mantissa hex 0 False None body of
               (m, saw, fd, r) \<Rightarrow>
                 (if \<not> saw then None
                  else case exponent hex r of
                      None \<Rightarrow> None
                    | Some (e, r') \<Rightarrow>
                       (if r' \<noteq> [] then None
                        else if CHR ''_'' \<in> set t \<and> \<not> underscore_scan hex (if hex then Seen_Digit else Seen_Start) body
                        then None
                        else let k = int (case fd of None \<Rightarrow> 0 | Some k \<Rightarrow> k);
                                 q = of_nat m * (if hex then powr_int 2 (e - 4 * k) else powr_int 10 (e - k))
                             in Some (if neg then - q else q)))))"

definition strconv_ParseFloat :: "string \<Rightarrow> f64 result" where
  "strconv_ParseFloat s =
    (case float_special s of
       Some f \<Rightarrow> Inr f
     | None \<Rightarrow>
        (case read_float s of
           None \<Rightarrow> Inl strconv_ErrSyntax
         | Some q \<Rightarrow>
            (case f64_of_rat q of
               Fin r \<Rightarrow> Inr (Fin r)
             | _ \<Rightarrow> Inl strconv_ErrRange)))"

end
