(* ===== verification/Client_App.thy ===== *)
theory Client_App
  imports Conn_Service Go_Strconv
begin

text \<open>
  The client program, \<^verbatim>\<open>cmd/client/main.go\<close>: it connects, requests a challenge, solves it, sends the
  solution and prints the quote. The outcome of dialling is an argument, the connection is the
  world of theory \<open>Go_World\<close>, and the context is what the solver sees of it. The command-line
  flags are arguments.
\<close>

section \<open>Definitions\<close>

text \<open>The branches for a message that is not the expected one; the load test has the same.\<close>

definition server_error :: "message \<Rightarrow> go_error" where
  "server_error msg =
    (if length (Payload msg) > 0
     then Err_Text (''server error: '' @ ErrorCode_String (Payload msg ! 0))
     else Err_Text ''server error: unknown'')"

definition unexpected_type :: "message \<Rightarrow> go_error" where
  "unexpected_type msg = Err_Text (''unexpected message type: '' @ show_nat (unat (Type msg)))"

subsection \<open>The client\<close>

record client = world +
  cl_stdout :: "string list"
  cl_stderr :: "string list"

text \<open>The lines printed, always or with \<^verbatim>\<open>-verbose\<close> only.\<close>

definition client_Println :: "string \<Rightarrow> (client, unit) state" where
  "client_Println line = State (\<lambda>s. ((), s\<lparr>cl_stdout := cl_stdout s @ [line]\<rparr>))"

definition client_verbose :: "bool \<Rightarrow> string list \<Rightarrow> (client, unit) state" where
  "client_verbose verbose lines = State (\<lambda>s. ((), if verbose then s\<lparr>cl_stdout := cl_stdout s @ lines\<rparr> else s))"

definition client_readQuote :: "bool \<Rightarrow> (client, go_error option) state" where
  "client_readQuote verbose = do {
     r \<leftarrow> conn_ReadMessage;
     case r of
       Inl e \<Rightarrow> State_Monad.return (Some (Errorf ''read response: '' e []))
     | Inr msg \<Rightarrow>
         if Type msg = TypeError then State_Monad.return (Some (server_error msg))
         else if Type msg \<noteq> TypeQuote then State_Monad.return (Some (unexpected_type msg))
         else do {
           client_verbose verbose [[], ''Word of Wisdom:'', ''---''];
           client_Println (bytes_string (Payload msg));
           client_verbose verbose [''---''];
           State_Monad.return None
         }
   }"

definition client_solve :: "bool \<Rightarrow> ctx_view \<Rightarrow> message result \<Rightarrow> (client, go_error option) state" where
  "client_solve verbose ctx r =
    (case r of
       Inl e \<Rightarrow> State_Monad.return (Some (Errorf ''read challenge: '' e []))
     | Inr msg \<Rightarrow>
         if Type msg = TypeError then State_Monad.return (Some (server_error msg))
         else if Type msg \<noteq> TypeChallenge then State_Monad.return (Some (unexpected_type msg))
         else case UnmarshalChallenge (Payload msg) of
             Inl e \<Rightarrow> State_Monad.return (Some (Errorf ''parse challenge: '' e []))
           | Inr challenge \<Rightarrow> do {
               client_verbose verbose
                 [concat [''Received challenge (difficulty: '', show_nat (unat (Difficulty challenge)), '')''],
                  ''Solving challenge...''];
               startTime \<leftarrow> time_Now;
               case Solve NewSolver ctx challenge of
                 Inl e \<Rightarrow> State_Monad.return (Some (Errorf ''solve challenge: '' e []))
               | Inr solution \<Rightarrow> do {
                   endTime \<leftarrow> time_Now;
                   client_verbose verbose
                     [concat [''Challenge solved in '', Duration_String (time_Sub endTime startTime),
                        '' (counter: '', show_nat (unat (Counter solution)), '')''],
                      ''Sending solution...''];
                   err \<leftarrow> conn_WriteMessage (NewSolution (Solution_Marshal solution));
                   case err of
                     Some e \<Rightarrow> State_Monad.return (Some (Errorf ''send solution: '' e []))
                   | None \<Rightarrow> client_readQuote verbose
                 }
             })"

definition client_run ::
  "bool \<Rightarrow> string \<Rightarrow> go_error option \<Rightarrow> ctx_view \<Rightarrow> duration \<Rightarrow> (client, go_error option) state" where
  "client_run verbose serverAddr dial ctx timeout = do {
     client_verbose verbose [concat [''Connecting to '', serverAddr, ''...'']];
     case dial of
       Some e \<Rightarrow> State_Monad.return (Some (Errorf ''connect: '' e []))
     | None \<Rightarrow> do {
         client_verbose verbose [''Connected. Requesting challenge...''];
         now \<leftarrow> time_Now;
         _ \<leftarrow> SetDeadline (now + timeout);
         err \<leftarrow> conn_WriteMessage NewRequestChallenge;
         case err of
           Some e \<Rightarrow> State_Monad.return (Some (Errorf ''send request: '' e []))
         | None \<Rightarrow> do {
             r \<leftarrow> conn_ReadMessage;
             client_solve verbose ctx r
           }
       }
   }"

text \<open>\<^verbatim>\<open>main\<close> of the client: the exit status, and the error on the standard error output.\<close>

definition client_main ::
  "bool \<Rightarrow> string \<Rightarrow> go_error option \<Rightarrow> ctx_view \<Rightarrow> duration \<Rightarrow> (client, int) state" where
  "client_main verbose serverAddr dial ctx timeout = do {
     err \<leftarrow> client_run verbose serverAddr dial ctx timeout;
     case err of
       Some e \<Rightarrow> State (\<lambda>s. (1, s\<lparr>cl_stderr := cl_stderr s @ [''Error: '' @ error_text e]\<rparr>))
     | None \<Rightarrow> State_Monad.return 0
   }"

section \<open>Lemmas\<close>

lemma conn_WriteMessage_ok:
  assumes "w_writes s (n_writes s) = (Message_Size m, None)" "MessageType_IsValid (Type m)" "fits m"
  shows "run_state (conn_WriteMessage m) s =
    (None, s\<lparr>n_writes := n_writes s + 1, w_sent := w_sent s @ frame_of m,
             w_trace := w_trace s @ [Io_Write m True]\<rparr>)"
  using assms by (simp add: conn_WriteMessage_def WriteMessage_def Message_Marshal_frame)

subsection \<open>The client meets its server\<close>

lemma client_verbose_False [simp]: "client_verbose False lines = State_Monad.return ()"
  by (simp add: client_verbose_def State_Monad.return_def)

lemma client_message_sizes:
  "MessageType_IsValid TypeRequestChallenge" "Message_Size NewRequestChallenge = 3"
  "MessageType_IsValid TypeSolution"
  "wf_solution sol \<Longrightarrow> Message_Size (NewSolution (Solution_Marshal sol)) = 101"
  "Payload (NewChallenge bs) = bs" "bytes_string (Payload (NewQuote q)) = q"
  by (simp_all add: Message_Size_def msg_constructors msg_types MessageType_IsValid_def proto_sizes
      Solution_Marshal_fields length_Challenge_Marshal_any)

lemma client_kinds:
  "TypeChallenge \<noteq> TypeError" "Type (NewChallenge bs) = TypeChallenge"
  "TypeQuote \<noteq> TypeError" "Type (NewQuote q) = TypeQuote"
  by (simp_all add: msg_constructors msg_types)

text \<open>The first write, up to the second one when a challenge arrives, and the rest when a quote arrives.\<close>

lemma client_requests:
  assumes "w_writes w (n_writes w) = (3, None)"
  obtains w2 where "run_state (client_run False addr None ctx timeout) w =
      run_state (State_Monad.bind conn_ReadMessage (client_solve False ctx)) w2"
    "w_reader w2 = w_reader w" "w_writes w2 = w_writes w" "n_writes w2 = n_writes w + 1"
    "w_sent w2 = w_sent w @ frame_of NewRequestChallenge" "cl_stdout w2 = cl_stdout w"
proof -
  obtain now w0 where w0: "run_state time_Now w = (now, w0)" by (metis prod.exhaust)
  obtain d w1 where w1: "run_state (SetDeadline (now + timeout)) w0 = (d, w1)" by (metis prod.exhaust)
  have eq1: "w_reader w1 = w_reader w" "w_writes w1 = w_writes w" "n_writes w1 = n_writes w" "w_sent w1 = w_sent w"
      "cl_stdout w1 = cl_stdout w"
    using w0 w1 by (auto simp: time_Now_def SetDeadline_def split: if_splits)
  obtain w2 where w2: "run_state (conn_WriteMessage NewRequestChallenge) w1 = (None, w2)"
      "w_reader w2 = w_reader w" "w_writes w2 = w_writes w" "n_writes w2 = n_writes w + 1"
      "w_sent w2 = w_sent w @ frame_of NewRequestChallenge" "cl_stdout w2 = cl_stdout w"
    using assms eq1 by (simp add: conn_WriteMessage_ok message_sizes client_message_sizes)
  then show thesis
    by (intro that [of w2]) (simp_all add: client_run_def w0 w1)
qed

lemma client_solves:
  assumes rd: "rd_data (w_reader w2) = frame_of (NewChallenge (Challenge_Marshal c)) @ rest"
    and c: "wf_challenge c" and sol: "Solve NewSolver ctx c = Inr sol"
    and wr: "w_writes w2 (n_writes w2) = (101, None)"
  obtains w5 where "run_state (State_Monad.bind conn_ReadMessage (client_solve False ctx)) w2 = run_state (client_readQuote False) w5"
    "rd_data (w_reader w5) = rest" "cl_stdout w5 = cl_stdout w2"
    "w_sent w5 = w_sent w2 @ frame_of (NewSolution (Solution_Marshal sol))"
proof -
  let ?chal = "NewChallenge (Challenge_Marshal c)" and ?sol = "NewSolution (Solution_Marshal sol)"
  have wf: "wf_solution sol"
    using c Solve_Inr_iff [of NewSolver ctx c sol] sol by (simp add: wf_solution_def found_from_def)
  obtain w3 where w3: "run_state conn_ReadMessage w2 = (Inr ?chal, w3)"
      "rd_data (w_reader w3) = rest" "w_writes w3 = w_writes w2" "n_writes w3 = n_writes w2"
      "w_sent w3 = w_sent w2" "cl_stdout w3 = cl_stdout w2"
    using rd by (simp add: conn_ReadMessage_ok message_sizes)
  obtain t1 t2 w4 w4' where w4: "run_state time_Now w3 = (t1, w4')" "run_state time_Now w4' = (t2, w4)"
      "rd_data (w_reader w4) = rest" "w_writes w4 = w_writes w2" "n_writes w4 = n_writes w2"
      "w_sent w4 = w_sent w2" "cl_stdout w4 = cl_stdout w2"
    using w3 by (simp add: time_Now_def)
  obtain w5 where "run_state (conn_WriteMessage ?sol) w4 = (None, w5)"
      "rd_data (w_reader w5) = rest" "cl_stdout w5 = cl_stdout w2" "w_sent w5 = w_sent w2 @ frame_of ?sol"
    using wr w4 wf by (simp add: conn_WriteMessage_ok message_sizes client_message_sizes)
  then show thesis
    by (intro that [of w5])
      (simp_all add: client_solve_def w3(1) w4(1,2) sol client_message_sizes client_kinds challenge_codec.dec_enc [OF c])
qed

lemma client_readQuote_ok:
  assumes "rd_data (w_reader w5) = frame_of (NewQuote q) @ rest" "fits (NewQuote q)"
  obtains w6 where "run_state (client_readQuote False) w5 = (None, w6)" "cl_stdout w6 = cl_stdout w5 @ [q]"
    "w_sent w6 = w_sent w5" "rd_data (w_reader w6) = rest"
  using assms conn_ReadMessage_ok [OF assms]
  by (simp add: client_readQuote_def client_Println_def client_message_sizes client_kinds)

lemma client_readQuote_sent: "w_sent (snd (run_state (client_readQuote False) w)) = w_sent w"
  by (auto simp: client_readQuote_def conn_ReadMessage_def client_Println_def split: prod.split sum.split)

text \<open>The client only adds to what it has sent.\<close>

lemma client_sends_request:
  assumes "w_writes w (n_writes w) = (3, None)" "run_state (client_run False addr None ctx timeout) w = (err, w')"
  shows "\<exists>x. w_sent w' = w_sent w @ frame_of NewRequestChallenge @ x"
proof (rule client_requests [OF assms(1), of addr ctx timeout])
  fix w2
  assume w2: "run_state (client_run False addr None ctx timeout) w =
      run_state (State_Monad.bind conn_ReadMessage (client_solve False ctx)) w2"
    "w_sent w2 = w_sent w @ frame_of NewRequestChallenge"
  have "\<exists>x. w_sent (snd (run_state (client_run False addr None ctx timeout) w)) = w_sent w2 @ x"
    unfolding w2(1)
    by (auto simp: client_solve_def time_Now_def conn_ReadMessage_def conn_WriteMessage_def client_readQuote_sent
        split: prod.split sum.split option.split)
  then show ?thesis unfolding assms(2) snd_conv w2(2) by simp
qed

subsection \<open>Verbose output\<close>

text \<open>Two computations that differ at most in what they print.\<close>

definition same_but_output :: "(client, 'r) state \<Rightarrow> (client, 'r) state \<Rightarrow> bool" where
  "same_but_output m m' \<longleftrightarrow>
    (\<forall>w x. \<exists>y. run_state m' (w\<lparr>cl_stdout := x\<rparr>) = apsnd (\<lambda>w. w\<lparr>cl_stdout := y\<rparr>) (run_state m w))"

lemma same_but_output_bind:
  assumes "same_but_output m m'" "\<And>a. same_but_output (f a) (f' a)"
  shows "same_but_output (State_Monad.bind m f) (State_Monad.bind m' f')"
  unfolding same_but_output_def
proof (intro allI)
  fix w x
  obtain a w1 where m: "run_state m w = (a, w1)" by (metis prod.exhaust)
  then obtain y where m': "run_state m' (w\<lparr>cl_stdout := x\<rparr>) = (a, w1\<lparr>cl_stdout := y\<rparr>)"
    using assms(1) unfolding same_but_output_def by (metis apsnd_conv)
  obtain z where "run_state (f' a) (w1\<lparr>cl_stdout := y\<rparr>) = apsnd (\<lambda>w. w\<lparr>cl_stdout := z\<rparr>) (run_state (f a) w1)"
    using assms(2) unfolding same_but_output_def by metis
  then show "\<exists>y. run_state (State_Monad.bind m' f') (w\<lparr>cl_stdout := x\<rparr>) =
      apsnd (\<lambda>w. w\<lparr>cl_stdout := y\<rparr>) (run_state (State_Monad.bind m f) w)"
    by (auto simp: m m')
qed

lemma same_but_outputI:
  assumes "\<And>w x. run_state m' (w\<lparr>cl_stdout := x\<rparr>) = apsnd (\<lambda>w'. w'\<lparr>cl_stdout := g w x\<rparr>) (run_state m w)"
  shows "same_but_output m m'"
  unfolding same_but_output_def using assms by blast

lemma same_but_output_return: "same_but_output (State_Monad.return a) (State_Monad.return a)"
  by (rule same_but_outputI [where g = "\<lambda>w x. x"]) simp

lemma same_but_output_time_Now: "same_but_output time_Now time_Now"
  by (rule same_but_outputI [where g = "\<lambda>w x. x"]) (simp add: time_Now_def)

lemma same_but_output_SetDeadline: "same_but_output (SetDeadline t) (SetDeadline t)"
  by (rule same_but_outputI [where g = "\<lambda>w x. x"]) (simp add: SetDeadline_def)

lemma same_but_output_write: "same_but_output (conn_WriteMessage m) (conn_WriteMessage m)"
  by (rule same_but_outputI [where g = "\<lambda>w x. x"]) (simp add: conn_WriteMessage_def split: prod.split)

lemma same_but_output_read: "same_but_output conn_ReadMessage conn_ReadMessage"
  by (rule same_but_outputI [where g = "\<lambda>w x. x"]) (simp add: conn_ReadMessage_def split: prod.split sum.split)

lemma same_but_output_Println: "same_but_output (client_Println l) (client_Println l)"
  by (rule same_but_outputI [where g = "\<lambda>w x. x @ [l]"]) (simp add: client_Println_def)

lemma same_but_output_verbose: "same_but_output (client_verbose v ls) (client_verbose v' ls')"
  by (rule same_but_outputI [where g = "\<lambda>w x. if v' then x @ ls' else x"]) (simp add: client_verbose_def)

lemma same_but_output_stderr:
  "same_but_output (State (\<lambda>s. (k, s\<lparr>cl_stderr := cl_stderr s @ es\<rparr>))) (State (\<lambda>s. (k, s\<lparr>cl_stderr := cl_stderr s @ es\<rparr>)))"
  by (rule same_but_outputI [where g = "\<lambda>w x. x"]) simp

lemmas same_but_output_basic =
  same_but_output_return same_but_output_time_Now same_but_output_SetDeadline same_but_output_write
  same_but_output_read same_but_output_Println same_but_output_verbose same_but_output_stderr

lemma same_but_output_cases:
  "same_but_output a a' \<Longrightarrow> same_but_output b b' \<Longrightarrow> same_but_output (if c then a else b) (if c then a' else b')"
  "same_but_output a a' \<Longrightarrow> (\<And>x. same_but_output (f x) (f' x)) \<Longrightarrow>
     same_but_output (case v of None \<Rightarrow> a | Some x \<Rightarrow> f x) (case v of None \<Rightarrow> a' | Some x \<Rightarrow> f' x)"
  "(\<And>x. same_but_output (g x) (g' x)) \<Longrightarrow> (\<And>x. same_but_output (k x) (k' x)) \<Longrightarrow>
     same_but_output (case u of Inl x \<Rightarrow> g x | Inr x \<Rightarrow> k x) (case u of Inl x \<Rightarrow> g' x | Inr x \<Rightarrow> k' x)"
  by (simp, cases v, simp_all, cases u, simp_all)

lemmas same_but_output_rules = same_but_output_basic same_but_output_bind same_but_output_cases

lemma client_main_same_but_output:
  "same_but_output (client_main v addr dial ctx timeout) (client_main v' addr dial ctx timeout)"
proof -
  have q: "same_but_output (client_readQuote v) (client_readQuote v')"
    unfolding client_readQuote_def by (intro same_but_output_rules)
  have s: "same_but_output (client_solve v ctx r) (client_solve v' ctx r)" for r
    unfolding client_solve_def by (intro q same_but_output_rules)
  have r: "same_but_output (client_run v addr dial ctx timeout) (client_run v' addr dial ctx timeout)"
    unfolding client_run_def by (intro s same_but_output_rules)
  show ?thesis
    unfolding client_main_def by (intro r same_but_output_rules)
qed

subsection \<open>The exit status\<close>

text \<open>The messages of the client's trace, and the exchange that ends with a quote.\<close>

definition client_wire :: "client \<Rightarrow> io_event list" where
  "client_wire w = filter is_message (w_trace w)"

definition quote_exchange :: "ctx_view \<Rightarrow> io_event list \<Rightarrow> message \<Rightarrow> bool" where
  "quote_exchange ctx es q \<longleftrightarrow>
    (\<exists>m c sol. es = [Io_Write NewRequestChallenge True, Io_Read m,
        Io_Write (NewSolution (Solution_Marshal sol)) True, Io_Read q] \<and>
      Type m = TypeChallenge \<and> UnmarshalChallenge (Payload m) = Inr c \<and> Solve NewSolver ctx c = Inr sol \<and>
      Type q = TypeQuote)"

text \<open>
  What a run of the client without \<^verbatim>\<open>-verbose\<close> may end with when \<open>P\<close> describes the exchanges that
  succeed: the quote of such an exchange printed, or an error, nothing printed and another
  exchange.
\<close>

definition client_outcome :: "(io_event list \<Rightarrow> message \<Rightarrow> bool) \<Rightarrow> client \<Rightarrow> go_error option \<Rightarrow> client \<Rightarrow> bool" where
  "client_outcome P w err w' \<longleftrightarrow> cl_stderr w' = cl_stderr w \<and>
     (\<exists>es. client_wire w' = client_wire w @ es \<and>
       (case err of
          Some e \<Rightarrow> cl_stdout w' = cl_stdout w \<and> (\<nexists>q. P es q)
        | None \<Rightarrow> \<exists>q. P es q \<and> cl_stdout w' = cl_stdout w @ [bytes_string (Payload q)]))"

definition follows :: "(io_event list \<Rightarrow> message \<Rightarrow> bool) \<Rightarrow> (client, go_error option) state \<Rightarrow> bool" where
  "follows P m \<longleftrightarrow> (\<forall>w err w'. run_state m w = (err, w') \<longrightarrow> client_outcome P w err w')"

lemma followsI: "(\<And>w err w'. run_state m w = (err, w') \<Longrightarrow> client_outcome P w err w') \<Longrightarrow> follows P m"
  by (simp add: follows_def)

lemma followsD: "follows P m \<Longrightarrow> run_state m w = (err, w') \<Longrightarrow> client_outcome P w err w'"
  by (simp add: follows_def)

lemma follows_error: "(\<nexists>q. P [] q) \<Longrightarrow> follows P (State_Monad.return (Some e))"
  by (simp add: follows_def client_outcome_def)

text \<open>A step of the connection: it prints nothing and adds to the messages.\<close>

lemma follows_bind:
  assumes step: "\<And>w a w1. run_state m w = (a, w1) \<Longrightarrow>
      cl_stdout w1 = cl_stdout w \<and> cl_stderr w1 = cl_stderr w \<and>
      (\<exists>es. client_wire w1 = client_wire w @ es \<and> follows (\<lambda>es'. P (es @ es')) (f a))"
  shows "follows P (State_Monad.bind m f)"
proof (rule followsI)
  fix w err w' assume run: "run_state (State_Monad.bind m f) w = (err, w')"
  obtain a w1 where m: "run_state m w = (a, w1)" by (metis prod.exhaust)
  then obtain es where w1: "cl_stdout w1 = cl_stdout w" "cl_stderr w1 = cl_stderr w"
      "client_wire w1 = client_wire w @ es" "follows (\<lambda>es'. P (es @ es')) (f a)"
    using step by blast
  have "client_outcome (\<lambda>es'. P (es @ es')) w1 err w'" using followsD [OF w1(4)] run m by simp
  then obtain es' where "cl_stderr w' = cl_stderr w" "client_wire w' = client_wire w @ es @ es'"
      "case err of Some e \<Rightarrow> cl_stdout w' = cl_stdout w \<and> (\<nexists>q. P (es @ es') q)
        | None \<Rightarrow> \<exists>q. P (es @ es') q \<and> cl_stdout w' = cl_stdout w @ [bytes_string (Payload q)]"
    using w1(1-3) by (auto simp: client_outcome_def cong: option.case_cong)
  then show "client_outcome P w err w'" unfolding client_outcome_def by blast
qed

lemma follows_time_Now: "(\<And>t. follows P (f t)) \<Longrightarrow> follows P (State_Monad.bind time_Now f)"
  by (rule follows_bind) (auto simp: time_Now_def client_wire_def)

lemma follows_SetDeadline: "(\<And>e. follows P (f e)) \<Longrightarrow> follows P (State_Monad.bind (SetDeadline t) f)"
  by (rule follows_bind) (auto simp: SetDeadline_def client_wire_def)

lemma follows_write:
  assumes "follows (\<lambda>es. P (Io_Write m True # es)) (f None)"
    and "\<And>e. follows P (f (Some e))" "\<And>e. follows (\<lambda>es. P (Io_Write m False # es)) (f (Some e))"
  shows "follows P (State_Monad.bind (conn_WriteMessage m) f)"
proof (rule follows_bind)
  fix w w1 :: client and a assume run: "run_state (conn_WriteMessage m) w = (a, w1)"
  have ok: "a = None \<longrightarrow> is_ok (Message_Marshal m)"
    using run by (auto simp: conn_WriteMessage_def WriteMessage_def split: prod.splits sum.splits)
  have "cl_stdout w1 = cl_stdout w \<and> cl_stderr w1 = cl_stderr w \<and>
      client_wire w1 = client_wire w @ (if is_ok (Message_Marshal m) then [Io_Write m (a = None)] else [])"
    using run by (auto simp: conn_WriteMessage_def client_wire_def split: prod.splits)
  then show "cl_stdout w1 = cl_stdout w \<and> cl_stderr w1 = cl_stderr w \<and>
      (\<exists>es. client_wire w1 = client_wire w @ es \<and> follows (\<lambda>es'. P (es @ es')) (f a))"
    using ok assms by (cases a) auto
qed

lemma follows_read:
  assumes "\<And>msg. follows (\<lambda>es. P (Io_Read msg # es)) (f (Inr msg))" "\<And>e. follows P (f (Inl e))"
  shows "follows P (State_Monad.bind conn_ReadMessage f)"
  by (rule follows_bind)
    (use assms in \<open>auto simp: conn_ReadMessage_def client_wire_def split: prod.splits sum.splits\<close>)

text \<open>The three stages: the quote is read, a challenge is solved, a challenge is requested.\<close>

lemma follows_print:
  "\<exists>q. P [] q \<and> bytes_string (Payload q) = line \<Longrightarrow>
    follows P (State_Monad.bind (client_Println line) (\<lambda>_. State_Monad.return None))"
  by (auto simp: follows_def client_outcome_def client_Println_def client_wire_def)

lemma follows_readQuote:
  "follows (\<lambda>es q. es = [Io_Read q] \<and> Type q = TypeQuote) (client_readQuote False)"
  unfolding client_readQuote_def
  by (rule follows_read) (auto simp: client_kinds intro!: follows_error follows_print)

lemma follows_solve:
  "follows (\<lambda>es. quote_exchange ctx (Io_Write NewRequestChallenge True # Io_Read msg # es)) (client_solve False ctx (Inr msg))"
proof -
  let ?P = "\<lambda>es. quote_exchange ctx (Io_Write NewRequestChallenge True # Io_Read msg # es)"
  have short: "\<nexists>q. ?P [] q" "\<And>m ok. \<nexists>q. ?P [Io_Write m ok] q"
    by (simp_all add: quote_exchange_def)
  have quote: "follows (\<lambda>es. ?P (Io_Write (NewSolution (Solution_Marshal sol)) True # es)) (client_readQuote False)"
    if "Type msg = TypeChallenge" "UnmarshalChallenge (Payload msg) = Inr c" "Solve NewSolver ctx c = Inr sol" for c sol
  proof -
    have "(\<lambda>es. ?P (Io_Write (NewSolution (Solution_Marshal sol)) True # es)) =
        (\<lambda>es q. es = [Io_Read q] \<and> Type q = TypeQuote)"
      using that by (auto simp: quote_exchange_def fun_eq_iff)
    then show ?thesis using follows_readQuote by simp
  qed
  show ?thesis
    using short quote unfolding client_solve_def
    by (auto simp: client_verbose_False split: sum.split
        intro!: follows_error follows_time_Now follows_write)
qed

lemma follows_run: "follows (quote_exchange ctx) (client_run False addr dial ctx timeout)"
proof -
  have short: "\<nexists>q. quote_exchange ctx [] q" "\<And>e. \<nexists>q. quote_exchange ctx [e] q"
    by (simp_all add: quote_exchange_def)
  have solve: "follows (\<lambda>es. quote_exchange ctx (Io_Write NewRequestChallenge True # es))
      (State_Monad.bind conn_ReadMessage (client_solve False ctx))"
    by (rule follows_read [OF follows_solve]) (use short in \<open>auto simp: client_solve_def intro!: follows_error\<close>)
  show ?thesis
    using short solve unfolding client_run_def
    by (auto split: option.split intro!: follows_error follows_time_Now follows_SetDeadline follows_write)
qed

lemma client_main_cases:
  assumes "run_state (client_main v addr dial ctx timeout) w = (code, w')"
  obtains (exits_0) "run_state (client_run v addr dial ctx timeout) w = (None, w')" "code = 0"
    | (exits_1) e w1 where "run_state (client_run v addr dial ctx timeout) w = (Some e, w1)" "code = 1"
        "w' = w1\<lparr>cl_stderr := cl_stderr w1 @ [''Error: '' @ error_text e]\<rparr>"
proof -
  obtain err w1 where "run_state (client_run v addr dial ctx timeout) w = (err, w1)" by (metis prod.exhaust)
  then show thesis
    using assms that by (cases err) (simp_all add: client_main_def)
qed

lemma client_main_verbose:
  assumes "run_state (client_main v addr dial ctx timeout) w = (code, w')"
  shows "\<exists>out. run_state (client_main v' addr dial ctx timeout) w = (code, w'\<lparr>cl_stdout := out\<rparr>)"
proof -
  have "w = w\<lparr>cl_stdout := cl_stdout w\<rparr>" by simp
  then show ?thesis
    using client_main_same_but_output [of v addr dial ctx timeout v'] assms
    unfolding same_but_output_def by (metis apsnd_conv)
qed

end
