(* ===== verification/Tcp_Server.thy ===== *)
theory Tcp_Server
  imports Conn_Properties Conn_Pool Rate_Limiter_Runs "HOL-Library.Multiset"
begin

text \<open>
  \<^verbatim>\<open>internal/server/server.go\<close>: the server that accepts connections, admits them through the
  rate limiter and the connection pool, and hands them to the handler; its statistics and its
  graceful shutdown. The operations are given first as they run alone; then the goroutines of
  a started server, the accept loop, one per connection and \<^verbatim>\<open>shutdown\<close>, interleave as a step
  relation at the granularity of the code's atomic operations.
\<close>

section \<open>Definitions\<close>

subsection \<open>Addresses and errors\<close>

text \<open>\<^verbatim>\<open>net.SplitHostPort\<close>: an address is \<^verbatim>\<open>host:port\<close> or \<^verbatim>\<open>[host]:port\<close>; \<open>None\<close> is an error.\<close>

fun index_of :: "char \<Rightarrow> string \<Rightarrow> nat option" where
  "index_of c [] = None"
| "index_of c (x # xs) = (if x = c then Some 0 else map_option Suc (index_of c xs))"

definition last_index_of :: "char \<Rightarrow> string \<Rightarrow> nat option" where
  "last_index_of c s = map_option (\<lambda>i. length s - 1 - i) (index_of c (rev s))"

definition net_SplitHostPort :: "string \<Rightarrow> (string \<times> string) option" where
  "net_SplitHostPort hostport =
    (case last_index_of (CHR '':'') hostport of
       None \<Rightarrow> None
     | Some i \<Rightarrow>
        (case (if hostport ! 0 = CHR ''[''
               then (case index_of (CHR '']'') hostport of
                       None \<Rightarrow> None
                     | Some e \<Rightarrow> if e + 1 = i then Some (go_slice hostport 1 e, 1, e + 1) else None)
               else (if CHR '':'' \<in> set (take i hostport) then None else Some (take i hostport, 0, 0))) of
           None \<Rightarrow> None
         | Some (host, j, k) \<Rightarrow>
            (if CHR ''['' \<in> set (drop j hostport) then None
             else if CHR '']'' \<in> set (drop k hostport) then None
             else Some (host, drop (i + 1) hostport))))"

text \<open>\<^verbatim>\<open>net.JoinHostPort\<close>, which the text of a TCP address comes from.\<close>

definition net_JoinHostPort :: "string \<Rightarrow> string \<Rightarrow> string" where
  "net_JoinHostPort host port =
    (if CHR '':'' \<in> set host then ''['' @ host @ '']:'' @ port else host @ '':'' @ port)"

definition extractIP :: "string \<Rightarrow> string" where
  "extractIP remoteAddr =
    (case net_SplitHostPort remoteAddr of
       None \<Rightarrow> remoteAddr
     | Some (host, _) \<Rightarrow> host)"

definition net_ErrClosed :: go_error where
  "net_ErrClosed = Sentinel ''net.ErrClosed'' ''use of closed network connection''"

subsection \<open>State\<close>

record server_Config =
  sc_Address :: string
  sc_MaxConnections :: int
  sc_GracefulTimeout :: duration
  sc_HandlerConfig :: HandlerConfig
  sc_RateLimitConfig :: limiter_Config

definition server_DefaultConfig :: server_Config where
  "server_DefaultConfig =
    \<lparr>sc_Address = '':8080'', sc_MaxConnections = 10000, sc_GracefulTimeout = 30 * time_Second,
     sc_HandlerConfig = DefaultHandlerConfig, sc_RateLimitConfig = ratelimit_DefaultConfig\<rparr>"

text \<open>
  The struct \<^verbatim>\<open>Server\<close>, with the address of the listener, the counts of the two wait groups and
  whether \<^verbatim>\<open>closeOnce\<close> has been used.
\<close>

record Server =
  sv_config :: server_Config
  sv_listener :: "string option"
  sv_pool :: Pool
  sv_rateLimiter :: limiter
  sv_handler :: Handler
  sv_running :: bool
  sv_accepting :: bool
  sv_wg :: nat
  sv_acceptLoopWg :: nat
  sv_closeOnce :: bool
  sv_totalConnections :: int
  sv_activeConnections :: int
  sv_rejectedRateLimit :: int
  sv_rejectedPoolFull :: int
  sv_successfulRequests :: int
  sv_failedRequests :: int

definition server_New :: "server_Config \<Rightarrow> generatorImpl \<Rightarrow> verifierImpl \<Rightarrow> memoryStore \<Rightarrow> Server" where
  "server_New config generator verifier quoteStore =
    (let rateLimiter = ratelimit_New (sc_RateLimitConfig config);
         pool = NewPool (sc_MaxConnections config);
         handler = NewHandler generator verifier quoteStore (sc_HandlerConfig config)
     in \<lparr>sv_config = config, sv_listener = None, sv_pool = pool, sv_rateLimiter = rateLimiter, sv_handler = handler,
         sv_running = False, sv_accepting = False, sv_wg = 0, sv_acceptLoopWg = 0, sv_closeOnce = False,
         sv_totalConnections = 0, sv_activeConnections = 0, sv_rejectedRateLimit = 0, sv_rejectedPoolFull = 0,
         sv_successfulRequests = 0, sv_failedRequests = 0\<rparr>)"

text \<open>\<^verbatim>\<open>Start\<close> up to where it waits for the context, given the outcome of \<^verbatim>\<open>net.Listen\<close>.\<close>

definition Start :: "string result \<Rightarrow> Server \<Rightarrow> go_error option \<times> Server" where
  "Start listen s =
    (if sv_running s then (Some (Err_Text ''server already running''), s)
     else case listen of
         Inl err \<Rightarrow> (Some (Errorf (''listen on '' @ sc_Address (sv_config s) @ '': '') err []), s)
       | Inr addr \<Rightarrow>
           (None, s\<lparr>sv_listener := Some addr, sv_running := True, sv_accepting := True,
                    sv_acceptLoopWg := sv_acceptLoopWg s + 1\<rparr>))"

definition isShuttingDown :: "Server \<Rightarrow> go_error \<Rightarrow> bool" where
  "isShuttingDown s err =
    (if \<not> sv_running s then True
     else if errors_Is err net_ErrClosed then True
     else if error_text err = ''use of closed network connection'' then True
     else False)"

definition server_Addr :: "Server \<Rightarrow> string option" where
  "server_Addr s = (case sv_listener s of None \<Rightarrow> None | Some addr \<Rightarrow> Some addr)"

record server_Stats =
  st_Running :: bool
  st_Address :: string
  st_TotalConnections :: int
  st_ActiveConnections :: int
  st_RejectedRateLimit :: int
  st_RejectedPoolFull :: int
  st_SuccessfulRequests :: int
  st_FailedRequests :: int
  st_PoolStats :: PoolStats

text \<open>
  \<^verbatim>\<open>Stats\<close> loads the fields one after the other, while the goroutines of the server go on:
  \<open>v k\<close> is the server at the \<open>k\<close>-th load.
\<close>

definition Server_Stats :: "(nat \<Rightarrow> Server) \<Rightarrow> server_Stats" where
  "Server_Stats v =
    (let addr = (case sv_listener (v 0) of None \<Rightarrow> [] | Some a \<Rightarrow> a)
     in \<lparr>st_Running = sv_running (v 1), st_Address = addr, st_TotalConnections = sv_totalConnections (v 2),
         st_ActiveConnections = sv_activeConnections (v 3), st_RejectedRateLimit = sv_rejectedRateLimit (v 4),
         st_RejectedPoolFull = sv_rejectedPoolFull (v 5), st_SuccessfulRequests = sv_successfulRequests (v 6),
         st_FailedRequests = sv_failedRequests (v 7),
         st_PoolStats = Pool_Stats ((sv_pool (v 8))\<lparr>waiting := waiting (sv_pool (v 9))\<rparr>)\<rparr>)"

subsection \<open>A connection\<close>

definition sendErrorAndClose :: "ErrorCode \<Rightarrow> unit sess" where
  "sendErrorAndClose code = do {
     now \<leftarrow> time_Now;
     _ \<leftarrow> SetWriteDeadline (now + 1 * time_Second);
     _ \<leftarrow> conn_WriteMessage (NewError code);
     State_Monad.return ()
   }"

text \<open>What the result of \<^verbatim>\<open>Handle\<close> adds to the statistics.\<close>

definition record_result :: "go_error option \<Rightarrow> Server \<Rightarrow> Server" where
  "record_result err s =
    (case err of
       Some e \<Rightarrow>
         (if \<not> errors_Is e context_Canceled then s\<lparr>sv_failedRequests := sv_failedRequests s + 1\<rparr> else s)
     | None \<Rightarrow> s\<lparr>sv_successfulRequests := sv_successfulRequests s + 1\<rparr>)"

text \<open>
  \<^verbatim>\<open>handleConnection\<close> on its own: \<open>order\<close> and \<open>now\<close> are what \<^verbatim>\<open>Allow\<close> meets (the iteration order of
  a map and the clock). \<open>None\<close> is the panic of a limiter without shards. The deferred calls run
  last.
\<close>

definition handleConnection ::
  "string list \<Rightarrow> instant \<Rightarrow> string \<Rightarrow> Server \<times> session \<Rightarrow> (Server \<times> session) option" where
  "handleConnection order now remoteAddr = (\<lambda>(s, c).
    (let clientIP = extractIP remoteAddr
     in case Allow order now clientIP (sv_rateLimiter s) of
          None \<Rightarrow> None
        | Some (allowed, l) \<Rightarrow>
           (let s = s\<lparr>sv_rateLimiter := l\<rparr>
            in if \<not> allowed
               then (let s = s\<lparr>sv_rejectedRateLimit := sv_rejectedRateLimit s + 1\<rparr>;
                         c = snd (run_state (sendErrorAndClose ErrCodeRateLimited) c)
                     in Some (s\<lparr>sv_wg := sv_wg s - 1\<rparr>, c))
               else case Acquire (sv_pool s) of
                   (False, p) \<Rightarrow>
                     (let s = s\<lparr>sv_rejectedPoolFull := sv_rejectedPoolFull s + 1\<rparr>;
                          c = snd (run_state (sendErrorAndClose ErrCodeServerBusy) c)
                      in Some (s\<lparr>sv_wg := sv_wg s - 1\<rparr>, c))
                 | (True, p) \<Rightarrow>
                     (let s = s\<lparr>sv_pool := p\<rparr>;
                          s = s\<lparr>sv_activeConnections := sv_activeConnections s + 1\<rparr>;
                          (err, c) = Handle (sv_handler s) c;
                          s = record_result err s;
                          s = s\<lparr>sv_activeConnections := sv_activeConnections s - 1\<rparr>;
                          s = s\<lparr>sv_pool := Release (sv_pool s)\<rparr>
                      in Some (s\<lparr>sv_wg := sv_wg s - 1\<rparr>, c)))))"

subsection \<open>The goroutines of a started server\<close>

text \<open>
  Where a goroutine is: one that handles a connection (asking the limiter, waiting in \<^verbatim>\<open>Allow\<close>
  with the lock of its shard, counting a rejection, entering the pool, the handler, and the
  deferred calls), the accept loop (with an accepted connection that it has to count and to
  start a goroutine for, and with the deferred calls after its return), and the caller of
  \<^verbatim>\<open>shutdown\<close> that \<^verbatim>\<open>closeOnce\<close> lets in (with the instant at which the graceful timeout ends).
\<close>

datatype conn_pc =
    Cn_Accepted string
  | Cn_Limiting string
  | Cn_Denied
  | Cn_Allowed
  | Cn_NoSlot
  | Cn_Rejected ErrorCode
  | Cn_Entering
  | Cn_Slot
  | Cn_Active
  | Cn_Handled
  | Cn_Inactive
  | Cn_Leaving
  | Cn_Closing

datatype loop_pc =
  Lp_Top | Lp_Accept | Lp_Got string | Lp_Counted string | Lp_Returned | Lp_Stopped | Lp_Exited

datatype shutdown_pc =
  Sd_Idle | Sd_Close | Sd_WaitLoop | Sd_WaitConns instant | Sd_Limiter | Sd_Stop | Sd_Finished

text \<open>
  The system: the server, its goroutines, whether the context is cancelled and the listener
  closed, the clock, the clean-up loop, the locks and the clean-up in progress of the limiter,
  and how many connections ended by cancellation, which no statistic counts.
\<close>

record server_system =
  sy_server :: Server
  sy_conns :: "conn_pc multiset"
  sy_loop :: loop_pc
  sy_shutdown :: shutdown_pc
  sy_cancelled :: bool
  sy_listenerClosed :: bool
  sy_clock :: instant
  sy_limiterLoop :: loop_status
  sy_locks :: "nat \<rightharpoonup> holder"
  sy_cleanup :: "(instant \<times> nat) option"
  sy_cancelledConns :: nat

datatype server_event =
    Sv_Cancel
  | Sv_Continue | Sv_Accept string | Sv_CountAccepted | Sv_Go | Sv_AcceptError go_error
  | Sv_AcceptClosed go_error | Sv_LoopReturn | Sv_LoopStopped | Sv_LoopDone
  | Sv_Limiter limiter_event | Sv_CountDenied | Sv_Send | Sv_Full | Sv_CountFull | Sv_Count | Sv_Activate
  | Sv_Handle "go_error option" | Sv_Deactivate | Sv_Receive | Sv_Spurious | Sv_Uncount | Sv_Reject ErrorCode | Sv_Done
  | Sv_Shutdown | Sv_CloseListener | Sv_LoopGone | Sv_Drained | Sv_GracefulTimeout | Sv_CloseLimiter | Sv_Stopped

definition set_conn :: "conn_pc \<Rightarrow> conn_pc \<Rightarrow> server_system \<Rightarrow> server_system" where
  "set_conn pc pc' s = s\<lparr>sy_conns := add_mset pc' (sy_conns s - {#pc#})\<rparr>"

abbreviation on_server :: "(Server \<Rightarrow> Server) \<Rightarrow> server_system \<Rightarrow> server_system" where
  "on_server f s \<equiv> s\<lparr>sy_server := f (sy_server s)\<rparr>"

text \<open>The limiter of the server, with what its own step relation needs.\<close>

definition limiter_of :: "server_system \<Rightarrow> limiter_system" where
  "limiter_of s =
    \<lparr>ls_limiter = sv_rateLimiter (sy_server s), ls_clock = sy_clock s, ls_loop = sy_limiterLoop s,
     ls_locks = sy_locks s, ls_cleanup = sy_cleanup s\<rparr>"

definition set_limiter :: "limiter_system \<Rightarrow> server_system \<Rightarrow> server_system" where
  "set_limiter t s =
    s\<lparr>sy_server := (sy_server s)\<lparr>sv_rateLimiter := ls_limiter t\<rparr>, sy_clock := ls_clock t,
      sy_limiterLoop := ls_loop t, sy_locks := ls_locks t, sy_cleanup := ls_cleanup t\<rparr>"

text \<open>
  The steps of the limiter after which no goroutine of the server is elsewhere: those of the
  clean-up loop, those of a request between taking the lock and answering, and time.
\<close>

fun within_limiter :: "limiter_event \<Rightarrow> bool" where
  "within_limiter (Lim_Found ip now ok) = False"
| "within_limiter (Lim_Lock ip now) = False"
| "within_limiter (Lim_Create ip ok) = False"
| "within_limiter Lim_Close = False"
| "within_limiter e = True"

definition server_started :: "string \<Rightarrow> instant \<Rightarrow> Server \<Rightarrow> server_system" where
  "server_started addr now s =
    \<lparr>sy_server = snd (Start (Inr addr) s), sy_conns = {#}, sy_loop = Lp_Top, sy_shutdown = Sd_Idle,
     sy_cancelled = False, sy_listenerClosed = False, sy_clock = now,
     sy_limiterLoop = ticker_loop (cleanupInterval (sv_rateLimiter s)), sy_locks = Map.empty, sy_cleanup = None,
     sy_cancelledConns = 0\<rparr>"

text \<open>
  A step is one access to what the goroutines share. An open listener accepts, or fails with an
  error that is not \<^verbatim>\<open>net.ErrClosed\<close> (a timeout, which the loop sets every second, or another); a
  closed listener fails with \<^verbatim>\<open>net.ErrClosed\<close>.
\<close>

inductive server_step :: "server_system \<Rightarrow> server_event \<Rightarrow> server_system \<Rightarrow> bool" where
  Cancel: "server_step s Sv_Cancel (s\<lparr>sy_cancelled := True\<rparr>)"

| Continue: "sy_loop s = Lp_Top \<Longrightarrow> \<not> sy_cancelled s \<Longrightarrow> server_step s Sv_Continue (s\<lparr>sy_loop := Lp_Accept\<rparr>)"
| Accept: "sy_loop s = Lp_Accept \<Longrightarrow> \<not> sy_listenerClosed s \<Longrightarrow>
     server_step s (Sv_Accept addr) (s\<lparr>sy_loop := Lp_Got addr\<rparr>)"
| CountAccepted: "sy_loop s = Lp_Got addr \<Longrightarrow>
     server_step s Sv_CountAccepted
       (on_server (\<lambda>v. v\<lparr>sv_totalConnections := sv_totalConnections v + 1\<rparr>) (s\<lparr>sy_loop := Lp_Counted addr\<rparr>))"
| Go: "sy_loop s = Lp_Counted addr \<Longrightarrow>
     server_step s Sv_Go
       (on_server (\<lambda>v. v\<lparr>sv_wg := sv_wg v + 1\<rparr>)
         (s\<lparr>sy_loop := Lp_Top, sy_conns := add_mset (Cn_Accepted (extractIP addr)) (sy_conns s)\<rparr>))"
| AcceptError: "sy_loop s = Lp_Accept \<Longrightarrow> \<not> sy_listenerClosed s \<Longrightarrow> \<not> isShuttingDown (sy_server s) err \<Longrightarrow>
     server_step s (Sv_AcceptError err) (s\<lparr>sy_loop := Lp_Top\<rparr>)"
| AcceptClosed: "sy_loop s = Lp_Accept \<Longrightarrow> sy_listenerClosed s \<Longrightarrow> errors_Is err net_ErrClosed \<Longrightarrow>
     isShuttingDown (sy_server s) err \<Longrightarrow>
     server_step s (Sv_AcceptClosed err) (s\<lparr>sy_loop := Lp_Returned\<rparr>)"
| LoopReturn: "sy_loop s = Lp_Top \<Longrightarrow> sy_cancelled s \<Longrightarrow>
     server_step s Sv_LoopReturn (s\<lparr>sy_loop := Lp_Returned\<rparr>)"
| LoopStopped: "sy_loop s = Lp_Returned \<Longrightarrow>
     server_step s Sv_LoopStopped (on_server (\<lambda>v. v\<lparr>sv_accepting := False\<rparr>) (s\<lparr>sy_loop := Lp_Stopped\<rparr>))"
| LoopDone: "sy_loop s = Lp_Stopped \<Longrightarrow>
     server_step s Sv_LoopDone
       (on_server (\<lambda>v. v\<lparr>sv_acceptLoopWg := sv_acceptLoopWg v - 1\<rparr>) (s\<lparr>sy_loop := Lp_Exited\<rparr>))"

| Found: "Cn_Accepted ip \<in># sy_conns s \<Longrightarrow> limiter_step (limiter_of s) (Lim_Found ip now ok) t \<Longrightarrow>
     server_step s (Sv_Limiter (Lim_Found ip now ok))
       (set_limiter t (set_conn (Cn_Accepted ip) (if ok then Cn_Allowed else Cn_Denied) s))"
| Lock: "Cn_Accepted ip \<in># sy_conns s \<Longrightarrow> limiter_step (limiter_of s) (Lim_Lock ip now) t \<Longrightarrow>
     server_step s (Sv_Limiter (Lim_Lock ip now)) (set_limiter t (set_conn (Cn_Accepted ip) (Cn_Limiting ip) s))"
| Create: "Cn_Limiting ip \<in># sy_conns s \<Longrightarrow> limiter_step (limiter_of s) (Lim_Create ip ok) t \<Longrightarrow>
     server_step s (Sv_Limiter (Lim_Create ip ok))
       (set_limiter t (set_conn (Cn_Limiting ip) (if ok then Cn_Allowed else Cn_Denied) s))"
| Limiter: "within_limiter e \<Longrightarrow> limiter_step (limiter_of s) e t \<Longrightarrow>
     server_step s (Sv_Limiter e) (set_limiter t s)"
| CountDenied: "Cn_Denied \<in># sy_conns s \<Longrightarrow>
     server_step s Sv_CountDenied
       (on_server (\<lambda>v. v\<lparr>sv_rejectedRateLimit := sv_rejectedRateLimit v + 1\<rparr>)
         (set_conn Cn_Denied (Cn_Rejected ErrCodeRateLimited) s))"
| Send: "Cn_Allowed \<in># sy_conns s \<Longrightarrow> can_send (sv_pool (sy_server s)) \<Longrightarrow>
     server_step s Sv_Send
       (on_server (\<lambda>v. v\<lparr>sv_pool := (sv_pool v)\<lparr>sem := sem (sv_pool v) + 1\<rparr>\<rparr>) (set_conn Cn_Allowed Cn_Entering s))"
| Full: "Cn_Allowed \<in># sy_conns s \<Longrightarrow> \<not> can_send (sv_pool (sy_server s)) \<Longrightarrow>
     server_step s Sv_Full (set_conn Cn_Allowed Cn_NoSlot s)"
| CountFull: "Cn_NoSlot \<in># sy_conns s \<Longrightarrow>
     server_step s Sv_CountFull
       (on_server (\<lambda>v. v\<lparr>sv_rejectedPoolFull := sv_rejectedPoolFull v + 1\<rparr>)
         (set_conn Cn_NoSlot (Cn_Rejected ErrCodeServerBusy) s))"
| Count: "Cn_Entering \<in># sy_conns s \<Longrightarrow>
     server_step s Sv_Count
       (on_server (\<lambda>v. v\<lparr>sv_pool := (sv_pool v)\<lparr>active := active (sv_pool v) + 1\<rparr>\<rparr>) (set_conn Cn_Entering Cn_Slot s))"
| Activate: "Cn_Slot \<in># sy_conns s \<Longrightarrow>
     server_step s Sv_Activate
       (on_server (\<lambda>v. v\<lparr>sv_activeConnections := sv_activeConnections v + 1\<rparr>) (set_conn Cn_Slot Cn_Active s))"
| Handle: "Cn_Active \<in># sy_conns s \<Longrightarrow> Handle (sv_handler (sy_server s)) c = (err, c') \<Longrightarrow>
     server_step s (Sv_Handle err)
       (on_server (record_result err) (set_conn Cn_Active Cn_Handled s)
          \<lparr>sy_cancelledConns := sy_cancelledConns s + of_bool (\<exists>e. err = Some e \<and> errors_Is e context_Canceled)\<rparr>)"
| Deactivate: "Cn_Handled \<in># sy_conns s \<Longrightarrow>
     server_step s Sv_Deactivate
       (on_server (\<lambda>v. v\<lparr>sv_activeConnections := sv_activeConnections v - 1\<rparr>) (set_conn Cn_Handled Cn_Inactive s))"
| Receive: "Cn_Inactive \<in># sy_conns s \<Longrightarrow> 0 < sem (sv_pool (sy_server s)) \<Longrightarrow>
     server_step s Sv_Receive
       (on_server (\<lambda>v. v\<lparr>sv_pool := (sv_pool v)\<lparr>sem := sem (sv_pool v) - 1\<rparr>\<rparr>) (set_conn Cn_Inactive Cn_Leaving s))"
| Spurious: "Cn_Inactive \<in># sy_conns s \<Longrightarrow> sem (sv_pool (sy_server s)) = 0 \<Longrightarrow>
     server_step s Sv_Spurious (set_conn Cn_Inactive Cn_Closing s)"
| Uncount: "Cn_Leaving \<in># sy_conns s \<Longrightarrow>
     server_step s Sv_Uncount
       (on_server (\<lambda>v. v\<lparr>sv_pool := (sv_pool v)\<lparr>active := active (sv_pool v) - 1\<rparr>\<rparr>) (set_conn Cn_Leaving Cn_Closing s))"
| Reject: "Cn_Rejected code \<in># sy_conns s \<Longrightarrow> server_step s (Sv_Reject code) (set_conn (Cn_Rejected code) Cn_Closing s)"
| Done: "Cn_Closing \<in># sy_conns s \<Longrightarrow>
     server_step s Sv_Done
       (on_server (\<lambda>v. v\<lparr>sv_wg := sv_wg v - 1\<rparr>) (s\<lparr>sy_conns := sy_conns s - {#Cn_Closing#}\<rparr>))"

| Shutdown: "\<not> sv_closeOnce (sy_server s) \<Longrightarrow>
     server_step s Sv_Shutdown (on_server (\<lambda>v. v\<lparr>sv_closeOnce := True\<rparr>) (s\<lparr>sy_shutdown := Sd_Close\<rparr>))"
| CloseListener: "sy_shutdown s = Sd_Close \<Longrightarrow>
     server_step s Sv_CloseListener (s\<lparr>sy_shutdown := Sd_WaitLoop, sy_listenerClosed := True\<rparr>)"
| LoopGone: "sy_shutdown s = Sd_WaitLoop \<Longrightarrow> sv_acceptLoopWg (sy_server s) = 0 \<Longrightarrow>
     server_step s Sv_LoopGone
       (s\<lparr>sy_shutdown := Sd_WaitConns (sy_clock s + sc_GracefulTimeout (sv_config (sy_server s)))\<rparr>)"
| Drained: "sy_shutdown s = Sd_WaitConns deadline \<Longrightarrow> sv_wg (sy_server s) = 0 \<Longrightarrow>
     server_step s Sv_Drained (s\<lparr>sy_shutdown := Sd_Limiter\<rparr>)"
| GracefulTimeout: "sy_shutdown s = Sd_WaitConns deadline \<Longrightarrow> deadline \<le> sy_clock s \<Longrightarrow>
     server_step s Sv_GracefulTimeout (s\<lparr>sy_shutdown := Sd_Limiter\<rparr>)"
| CloseLimiter: "sy_shutdown s = Sd_Limiter \<Longrightarrow> limiter_step (limiter_of s) Lim_Close t \<Longrightarrow>
     server_step s Sv_CloseLimiter (set_limiter t (s\<lparr>sy_shutdown := Sd_Stop\<rparr>))"
| Stopped: "sy_shutdown s = Sd_Stop \<Longrightarrow>
     server_step s Sv_Stopped (on_server (\<lambda>v. v\<lparr>sv_running := False\<rparr>) (s\<lparr>sy_shutdown := Sd_Finished\<rparr>))"

section \<open>Lemmas\<close>

subsection \<open>Addresses\<close>

lemma index_of_append:
  "c \<notin> set xs \<Longrightarrow> index_of c (xs @ c # ys) = Some (length xs)"
  by (induction xs) auto

lemma last_index_of_append:
  assumes "c \<notin> set ys"
  shows "last_index_of c (xs @ c # ys) = Some (length xs)"
  using index_of_append [of c "rev ys" "rev xs"] assms by (simp add: last_index_of_def)

lemma SplitHostPort_plain:
  assumes "CHR '':'' \<notin> set host" "CHR ''['' \<notin> set host" "CHR '']'' \<notin> set host"
    and "CHR '':'' \<notin> set port" "CHR ''['' \<notin> set port" "CHR '']'' \<notin> set port"
  shows "net_SplitHostPort (host @ '':'' @ port) = Some (host, port)"
proof -
  have "(host @ '':'' @ port) ! 0 \<noteq> CHR ''[''"
    using assms(2) by (cases host) auto
  then show ?thesis
    using last_index_of_append [OF assms(4), of host] assms by (simp add: net_SplitHostPort_def)
qed

lemma SplitHostPort_bracketed:
  assumes "CHR ''['' \<notin> set host" "CHR '']'' \<notin> set host"
    and "CHR '':'' \<notin> set port" "CHR ''['' \<notin> set port" "CHR '']'' \<notin> set port"
  shows "net_SplitHostPort (''['' @ host @ '']:'' @ port) = Some (host, port)"
proof -
  have i: "last_index_of (CHR '':'') (''['' @ host @ '']:'' @ port) = Some (Suc (Suc (length host)))"
    using last_index_of_append [OF assms(3), of "''['' @ host @ '']''"] by simp
  have j: "index_of (CHR '']'') (''['' @ host @ '']:'' @ port) = Some (Suc (length host))"
    using index_of_append [of "CHR '']''" "''['' @ host" "'':'' @ port"] assms(2) by simp
  show ?thesis
    using assms unfolding net_SplitHostPort_def i j option.case by (simp add: go_slice_def)
qed

subsection \<open>Connections\<close>

lemma Release_Acquire: "Acquire p = (True, p') \<Longrightarrow> Release p' = p"
  by (auto simp: Acquire_def Release_def split: if_splits)

lemma Acquire_False: "Acquire p = (False, p') \<Longrightarrow> \<not> can_send p"
  by (auto simp: Acquire_def split: if_splits)

lemma record_result_fields [simp]:
  "sv_pool (record_result err v) = sv_pool v" "sv_rateLimiter (record_result err v) = sv_rateLimiter v"
  "sv_handler (record_result err v) = sv_handler v"
  "sv_wg (record_result err v) = sv_wg v" "sv_accepting (record_result err v) = sv_accepting v"
  "sv_acceptLoopWg (record_result err v) = sv_acceptLoopWg v" "sv_closeOnce (record_result err v) = sv_closeOnce v"
  "sv_running (record_result err v) = sv_running v" "sv_totalConnections (record_result err v) = sv_totalConnections v"
  "sv_activeConnections (record_result err v) = sv_activeConnections v"
  "sv_rejectedRateLimit (record_result err v) = sv_rejectedRateLimit v"
  "sv_rejectedPoolFull (record_result err v) = sv_rejectedPoolFull v"
  by (simp_all add: record_result_def split: option.split)

lemma record_result_counts:
  "sv_successfulRequests (record_result err v) = sv_successfulRequests v + of_bool (err = None)"
  "sv_failedRequests (record_result err v) =
     sv_failedRequests v + of_bool (\<exists>e. err = Some e \<and> \<not> errors_Is e context_Canceled)"
  by (simp_all add: record_result_def split: option.split)

lemma sendErrorAndClose_wire:
  "\<exists>r \<in> {[], [Io_Write (NewError code) True], [Io_Write (NewError code) False]}.
     wire (snd (run_state (sendErrorAndClose code) c)) = wire c @ r"
  by (auto simp: sendErrorAndClose_def io_defs conn_WriteMessage_def wire_def split: prod.split)

lemma handleConnection_total:
  assumes "Allow order now (extractIP addr) (sv_rateLimiter s) = Some (allowed, l)"
  shows "\<exists>s' c'. handleConnection order now addr (s, c) = Some (s', c')"
proof -
  obtain got p where ac: "Acquire (sv_pool s) = (got, p)" by (cases "Acquire (sv_pool s)")
  obtain err c1 where h: "Handle (sv_handler s) c = (err, c1)" by (cases "Handle (sv_handler s) c")
  show ?thesis
    using assms ac h by (cases got) (simp_all add: handleConnection_def Let_def)
qed

section \<open>Properties\<close>

text \<open>
  C25: The address the rate limiter counts under is the host of the remote address: \<^verbatim>\<open>extractIP\<close>
  inverts the text of a TCP address, with an IPv6 host in brackets or a host without colons.
\<close>

theorem extractIP_host:
  assumes "CHR ''['' \<notin> set host" "CHR '']'' \<notin> set host"
    and "CHR '':'' \<notin> set port" "CHR ''['' \<notin> set port" "CHR '']'' \<notin> set port"
  shows "extractIP (net_JoinHostPort host port) = host"
  using SplitHostPort_plain [OF _ assms(1,2,3,4,5)] SplitHostPort_bracketed [OF assms]
  by (simp add: extractIP_def net_JoinHostPort_def)

theorem extractIP_host_witness:
  "extractIP ''[2001:db8::1]:4711'' = ''2001:db8::1'' \<and> extractIP ''10.0.0.1:4711'' = ''10.0.0.1''"
  using extractIP_host [of "''2001:db8::1''" "''4711''"] extractIP_host [of "''10.0.0.1''" "''4711''"]
  by (simp add: net_JoinHostPort_def)

text \<open>
  C24: What becomes of an accepted connection. Refused by the rate limiter or by a full pool, it
  gets at most the error that says so and the handler does not run; otherwise the handler has
  it, and its result is counted. In every case the slot of the pool and the count of active
  connections are given back, and the connection is counted in exactly one statistic, or in
  none if the context was cancelled.
\<close>

theorem connection_outcome:
  assumes "handleConnection order now addr (s, c) = Some (s', c')"
  shows "sv_pool s' = sv_pool s \<and> sv_activeConnections s' = sv_activeConnections s \<and>
    (\<exists>allowed l. Allow order now (extractIP addr) (sv_rateLimiter s) = Some (allowed, l) \<and> sv_rateLimiter s' = l \<and>
      (if allowed \<and> can_send (sv_pool s)
       then sv_rejectedRateLimit s' = sv_rejectedRateLimit s \<and> sv_rejectedPoolFull s' = sv_rejectedPoolFull s \<and>
         (\<exists>err. Handle (sv_handler s) c = (err, c') \<and>
           sv_successfulRequests s' = sv_successfulRequests s + of_bool (err = None) \<and>
           sv_failedRequests s' = sv_failedRequests s + of_bool (\<exists>e. err = Some e \<and> \<not> errors_Is e context_Canceled))
       else sv_successfulRequests s' = sv_successfulRequests s \<and> sv_failedRequests s' = sv_failedRequests s \<and>
         sv_rejectedRateLimit s' = sv_rejectedRateLimit s + of_bool (\<not> allowed) \<and>
         sv_rejectedPoolFull s' = sv_rejectedPoolFull s + of_bool allowed \<and>
         (\<exists>r ok. wire c' = wire c @ r \<and>
           r \<in> {[], [Io_Write (NewError (if allowed then ErrCodeServerBusy else ErrCodeRateLimited)) ok]})))"
proof -
  obtain allowed l where al: "Allow order now (extractIP addr) (sv_rateLimiter s) = Some (allowed, l)"
    using assms by (auto simp: handleConnection_def Let_def split: option.splits)
  obtain got p where ac: "Acquire (sv_pool s) = (got, p)" by (cases "Acquire (sv_pool s)")
  then have got: "got = can_send (sv_pool s)" by (auto simp: Acquire_def split: if_splits)
  obtain err c1 where h: "Handle (sv_handler s) c = (err, c1)" by (cases "Handle (sv_handler s) c")
  show ?thesis
  proof (cases "allowed \<and> got")
    case True
    then have rel: "Release p = sv_pool s" using ac Release_Acquire by simp
    have c': "c' = c1" and
      s': "sv_pool s' = sv_pool s" "sv_activeConnections s' = sv_activeConnections s" "sv_rateLimiter s' = l"
        "sv_successfulRequests s' = sv_successfulRequests s + of_bool (err = None)"
        "sv_failedRequests s' = sv_failedRequests s + of_bool (\<exists>e. err = Some e \<and> \<not> errors_Is e context_Canceled)"
        "sv_rejectedRateLimit s' = sv_rejectedRateLimit s" "sv_rejectedPoolFull s' = sv_rejectedPoolFull s"
      using assms al ac h True rel
      by (auto simp: handleConnection_def Let_def record_result_counts simp del: not_Some_eq)
    show ?thesis using al True got s' h unfolding c' by auto
  next
    case False
    let ?code = "if allowed then ErrCodeServerBusy else ErrCodeRateLimited"
    have c': "c' = snd (run_state (sendErrorAndClose ?code) c)" and
      s': "sv_pool s' = sv_pool s" "sv_activeConnections s' = sv_activeConnections s" "sv_rateLimiter s' = l"
        "sv_successfulRequests s' = sv_successfulRequests s" "sv_failedRequests s' = sv_failedRequests s"
        "sv_rejectedRateLimit s' = sv_rejectedRateLimit s + of_bool (\<not> allowed)"
        "sv_rejectedPoolFull s' = sv_rejectedPoolFull s + of_bool allowed"
      using assms al ac False by (auto simp: handleConnection_def Let_def split: if_splits)
    obtain r ok where "wire c' = wire c @ r" "r \<in> {[], [Io_Write (NewError ?code) ok]}"
      using sendErrorAndClose_wire [of ?code c] unfolding c' by blast
    then show ?thesis using al False got s' by auto
  qed
qed

theorem connection_outcome_witness:
  "let s = server_New server_DefaultConfig ex_generator ex_verifier (NewMemoryStore [])
   in \<exists>s' c'. handleConnection [] 5 ''10.0.0.1:4711'' (s, ex_session) = Some (s', c') \<and>
        sv_pool s' = sv_pool s \<and> sv_activeConnections s' = 0"
proof -
  let ?s = "server_New server_DefaultConfig ex_generator ex_verifier (NewMemoryStore [])"
  have l: "sv_rateLimiter ?s = ratelimit_New ratelimit_DefaultConfig" "sv_activeConnections ?s = 0"
    by (simp_all add: server_New_def server_DefaultConfig_def Let_def)
  have "limiter_inv (sv_rateLimiter ?s)"
    unfolding l by (simp add: ratelimit_New_inv ratelimit_DefaultConfig_def)
  then obtain ok l' where "Allow [] 5 (extractIP ''10.0.0.1:4711'') (sv_rateLimiter ?s) = Some (ok, l')"
    using Allow_set_shard [of "sv_rateLimiter ?s" "extractIP ''10.0.0.1:4711''" "[]" 5] by metis
  then obtain s' c' where run: "handleConnection [] 5 ''10.0.0.1:4711'' (?s, ex_session) = Some (s', c')"
    using handleConnection_total by blast
  note connection_outcome [OF run, THEN conjunct1] connection_outcome [OF run, THEN conjunct2, THEN conjunct1]
  then show ?thesis using run l(2) by simp
qed

end
