(* ===== verification/Tcp_Server_Runs.thy ===== *)
theory Tcp_Server_Runs
  imports Tcp_Server
begin

text \<open>
  What holds in every execution of a started server. The executions project to executions of
  the connection pool and of the rate limiter, so what is proved of these holds inside the
  server; the statistics, the wait groups and the phases of the shutdown are an invariant.
\<close>

section \<open>Definitions\<close>

text \<open>The pool and the limiter as their own step relations see them.\<close>

definition pool_of :: "server_system \<Rightarrow> pool_system" where
  "pool_of s =
    \<lparr>the_pool = sv_pool (sy_server s), entering = count (sy_conns s) Cn_Entering,
     holding = count (sy_conns s) Cn_Slot + count (sy_conns s) Cn_Active + count (sy_conns s) Cn_Handled
       + count (sy_conns s) Cn_Inactive,
     leaving = count (sy_conns s) Cn_Leaving, waiters = 0\<rparr>"

fun pool_label :: "server_event \<Rightarrow> pool_event option" where
  "pool_label Sv_Send = Some Pool_Send"
| "pool_label Sv_Count = Some Pool_Count"
| "pool_label Sv_Full = Some Pool_Full"
| "pool_label Sv_Receive = Some Pool_Receive"
| "pool_label Sv_Uncount = Some Pool_Uncount"
| "pool_label Sv_Spurious = Some Pool_Spurious"
| "pool_label e = None"

fun limiter_label :: "server_event \<Rightarrow> limiter_event option" where
  "limiter_label (Sv_Limiter e) = Some e"
| "limiter_label Sv_CloseLimiter = Some Lim_Close"
| "limiter_label e = None"

text \<open>The connections that are counted as accepted, and whose outcome is not in the statistics yet.\<close>

fun is_pending :: "conn_pc \<Rightarrow> bool" where
  "is_pending (Cn_Accepted ip) = True"
| "is_pending (Cn_Limiting ip) = True"
| "is_pending Cn_Denied = True"
| "is_pending Cn_Allowed = True"
| "is_pending Cn_NoSlot = True"
| "is_pending Cn_Entering = True"
| "is_pending Cn_Slot = True"
| "is_pending Cn_Active = True"
| "is_pending pc = False"

fun loop_holds :: "loop_pc \<Rightarrow> bool" where
  "loop_holds (Lp_Counted addr) = True"
| "loop_holds pc = False"

definition pending :: "server_system \<Rightarrow> nat" where
  "pending s = size (filter_mset is_pending (sy_conns s)) + of_bool (loop_holds (sy_loop s))"

text \<open>The connections in the handler, between the two updates of the counter of active ones.\<close>

definition in_handler :: "server_system \<Rightarrow> nat" where
  "in_handler s = count (sy_conns s) Cn_Active + count (sy_conns s) Cn_Handled"

definition lifecycle_inv :: "server_system \<Rightarrow> bool" where
  "lifecycle_inv s \<longleftrightarrow>
     sv_acceptLoopWg (sy_server s) = of_bool (sy_loop s \<noteq> Lp_Exited) \<and>
     (sv_accepting (sy_server s) \<longleftrightarrow> sy_loop s \<notin> {Lp_Stopped, Lp_Exited}) \<and>
     (sy_shutdown s \<in> {Sd_Limiter, Sd_Stop, Sd_Finished} \<union> range Sd_WaitConns \<longrightarrow> sy_loop s = Lp_Exited) \<and>
     (sy_listenerClosed s \<longleftrightarrow> sy_shutdown s \<notin> {Sd_Idle, Sd_Close}) \<and>
     (sv_closeOnce (sy_server s) \<longleftrightarrow> sy_shutdown s \<noteq> Sd_Idle) \<and>
     (sv_running (sy_server s) \<longleftrightarrow> sy_shutdown s \<noteq> Sd_Finished)"

definition stats_inv :: "server_system \<Rightarrow> bool" where
  "stats_inv s \<longleftrightarrow>
     sv_wg (sy_server s) = size (sy_conns s) \<and>
     sv_activeConnections (sy_server s) = int (in_handler s) \<and>
     sv_totalConnections (sy_server s) =
       sv_rejectedRateLimit (sy_server s) + sv_rejectedPoolFull (sy_server s) + sv_successfulRequests (sy_server s)
       + sv_failedRequests (sy_server s) + int (sy_cancelledConns s) + int (pending s)"

text \<open>
  What the limiter did for an address in an execution of the server: the connections it let in
  and those it answered, and how often the address lost its bucket.
\<close>

definition limiter_events :: "server_event list \<Rightarrow> limiter_event list" where
  "limiter_events es = List.map_filter limiter_label es"

definition admitted :: "string \<Rightarrow> server_event list \<Rightarrow> nat" where
  "admitted ip es = granted ip (limiter_events es)"

definition arrived :: "string \<Rightarrow> server_event list \<Rightarrow> nat" where
  "arrived ip es = requests ip (limiter_events es)"

text \<open>
  The steps of the accept loop and of \<^verbatim>\<open>shutdown\<close>, and how many of them are left at most once the
  listener is closed.
\<close>

fun is_accept :: "server_event \<Rightarrow> bool" where
  "is_accept (Sv_Accept addr) = True"
| "is_accept (Sv_AcceptError err) = True"
| "is_accept e = False"

fun is_stopping :: "server_event \<Rightarrow> bool" where
  "is_stopping Sv_Continue = True"
| "is_stopping Sv_CountAccepted = True"
| "is_stopping Sv_Go = True"
| "is_stopping (Sv_AcceptClosed err) = True"
| "is_stopping Sv_LoopReturn = True"
| "is_stopping Sv_LoopStopped = True"
| "is_stopping Sv_LoopDone = True"
| "is_stopping Sv_Shutdown = True"
| "is_stopping Sv_CloseListener = True"
| "is_stopping Sv_LoopGone = True"
| "is_stopping Sv_Drained = True"
| "is_stopping Sv_GracefulTimeout = True"
| "is_stopping Sv_CloseLimiter = True"
| "is_stopping Sv_Stopped = True"
| "is_stopping e = False"

fun is_time :: "server_event \<Rightarrow> bool" where
  "is_time (Sv_Limiter (Lim_Time now)) = True"
| "is_time e = False"

fun loop_weight :: "loop_pc \<Rightarrow> nat" where
  "loop_weight (Lp_Got addr) = 6"
| "loop_weight (Lp_Counted addr) = 5"
| "loop_weight Lp_Top = 4"
| "loop_weight Lp_Accept = 3"
| "loop_weight Lp_Returned = 2"
| "loop_weight Lp_Stopped = 1"
| "loop_weight Lp_Exited = 0"

fun shutdown_weight :: "shutdown_pc \<Rightarrow> nat" where
  "shutdown_weight Sd_Idle = 6"
| "shutdown_weight Sd_Close = 5"
| "shutdown_weight Sd_WaitLoop = 4"
| "shutdown_weight (Sd_WaitConns deadline) = 3"
| "shutdown_weight Sd_Limiter = 2"
| "shutdown_weight Sd_Stop = 1"
| "shutdown_weight Sd_Finished = 0"

definition steps_left :: "server_system \<Rightarrow> nat" where
  "steps_left s = loop_weight (sy_loop s) + shutdown_weight (sy_shutdown s)"

section \<open>Projections\<close>

text \<open>
  A view of a system that follows a step relation of its own: every step is a step of the
  view, or leaves the view as it is.
\<close>

locale projection =
  fixes step :: "'s \<Rightarrow> 'e \<Rightarrow> 's \<Rightarrow> bool"
    and step' :: "'t \<Rightarrow> 'f \<Rightarrow> 't \<Rightarrow> bool"
    and view :: "'s \<Rightarrow> 't"
    and label :: "'e \<Rightarrow> 'f option"
  assumes simulates: "step s e s' \<Longrightarrow>
    (case label e of None \<Rightarrow> view s' = view s | Some f \<Rightarrow> step' (view s) f (view s'))"
begin

lemma runs_view:
  assumes "runs step s es s'"
  shows "runs step' (view s) (List.map_filter label es) (view s')"
  using assms
proof induction
  case (Nil s)
  then show ?case by (simp add: runs.Nil List.map_filter_def)
next
  case (Snoc s es s' e s'')
  then show ?case
    using simulates [of s' e s''] runs.Snoc [of step' "view s" "List.map_filter label es" "view s'"]
    by (auto simp: List.map_filter_def split: option.splits)
qed

lemma view_invariant:
  assumes "runs step s es s'" "I (view s)" "\<And>t f t'. I t \<Longrightarrow> step' t f t' \<Longrightarrow> I t'"
  shows "I (view s')"
  by (rule runs_inv [OF runs_view [OF assms(1)], where I = I]) (use assms(2,3) in auto)

end

section \<open>Lemmas\<close>

lemma count_set_conn:
  "pc \<in># sy_conns s \<Longrightarrow>
   count (sy_conns (set_conn pc pc' s)) x = count (sy_conns s) x + of_bool (x = pc') - of_bool (x = pc)"
  by (auto simp: set_conn_def simp flip: count_greater_zero_iff)

lemma set_conn_fields [simp]:
  "sy_server (set_conn pc pc' s) = sy_server s" "sy_clock (set_conn pc pc' s) = sy_clock s"
  "sy_limiterLoop (set_conn pc pc' s) = sy_limiterLoop s" "sy_loop (set_conn pc pc' s) = sy_loop s"
  "sy_shutdown (set_conn pc pc' s) = sy_shutdown s" "sy_cancelledConns (set_conn pc pc' s) = sy_cancelledConns s"
  "sy_cancelled (set_conn pc pc' s) = sy_cancelled s" "sy_listenerClosed (set_conn pc pc' s) = sy_listenerClosed s"
  "sy_locks (set_conn pc pc' s) = sy_locks s" "sy_cleanup (set_conn pc pc' s) = sy_cleanup s"
  by (simp_all add: set_conn_def)

lemma set_limiter_fields [simp]:
  "sy_conns (set_limiter t s) = sy_conns s" "sy_loop (set_limiter t s) = sy_loop s"
  "sy_shutdown (set_limiter t s) = sy_shutdown s" "sy_cancelledConns (set_limiter t s) = sy_cancelledConns s"
  "sy_cancelled (set_limiter t s) = sy_cancelled s" "sy_listenerClosed (set_limiter t s) = sy_listenerClosed s"
  "sy_server (set_limiter t s) = (sy_server s)\<lparr>sv_rateLimiter := ls_limiter t\<rparr>" "sy_clock (set_limiter t s) = ls_clock t"
  by (simp_all add: set_limiter_def)

lemma limiter_of_set [simp]: "limiter_of (set_limiter t s) = t"
  by (simp add: limiter_of_def set_limiter_def)

interpretation limiter_view: projection server_step limiter_step limiter_of limiter_label
proof
  fix s e s'
  assume "server_step s e s'"
  then show "case limiter_label e of None \<Rightarrow> limiter_of s' = limiter_of s
    | Some f \<Rightarrow> limiter_step (limiter_of s) f (limiter_of s')"
  proof cases
    case (Found ip now ok t)
    then show ?thesis by simp
  next
    case (Lock ip now t)
    then show ?thesis by simp
  next
    case (Create ip ok t)
    then show ?thesis by simp
  next
    case (Limiter f t)
    then show ?thesis by simp
  next
    case (CloseLimiter t)
    then show ?thesis by simp
  qed (simp_all add: limiter_of_def)
qed

interpretation pool_view: projection server_step pool_step pool_of pool_label
proof
  fix s e s'
  assume "server_step s e s'"
  then show "case pool_label e of None \<Rightarrow> pool_of s' = pool_of s
    | Some f \<Rightarrow> pool_step (pool_of s) f (pool_of s')"
  proof cases
    case Send
    then have "pool_step (pool_of s) Pool_Send ((pool_of s)\<lparr>the_pool := (the_pool (pool_of s))\<lparr>sem := sem (the_pool (pool_of s)) + 1\<rparr>,
        entering := entering (pool_of s) + 1\<rparr>)"
      by (intro pool_step.Send) (simp add: pool_of_def)
    then show ?thesis using Send by (simp add: pool_of_def count_set_conn)
  next
    case Full
    then have "pool_step (pool_of s) Pool_Full (pool_of s)"
      by (intro pool_step.Full) (simp add: pool_of_def)
    then show ?thesis using Full by (simp add: pool_of_def count_set_conn)
  next
    case Count
    then have "pool_step (pool_of s) Pool_Count ((pool_of s)\<lparr>the_pool := (the_pool (pool_of s))\<lparr>active := active (the_pool (pool_of s)) + 1\<rparr>,
        entering := entering (pool_of s) - 1, holding := holding (pool_of s) + 1\<rparr>)"
      by (intro pool_step.Count) (simp add: pool_of_def)
    then show ?thesis using Count by (simp add: pool_of_def count_set_conn)
  next
    case Receive
    then have "pool_step (pool_of s) Pool_Receive ((pool_of s)\<lparr>the_pool := (the_pool (pool_of s))\<lparr>sem := sem (the_pool (pool_of s)) - 1\<rparr>,
        holding := holding (pool_of s) - 1, leaving := leaving (pool_of s) + 1\<rparr>)"
      by (intro pool_step.Receive) (simp_all add: pool_of_def)
    then show ?thesis using Receive by (simp add: pool_of_def count_set_conn)
  next
    case Uncount
    then have "pool_step (pool_of s) Pool_Uncount ((pool_of s)\<lparr>the_pool := (the_pool (pool_of s))\<lparr>active := active (the_pool (pool_of s)) - 1\<rparr>,
        leaving := leaving (pool_of s) - 1\<rparr>)"
      by (intro pool_step.Uncount) (simp add: pool_of_def)
    then show ?thesis using Uncount by (simp add: pool_of_def count_set_conn)
  next
    case Spurious
    then have "pool_step (pool_of s) Pool_Spurious ((pool_of s)\<lparr>holding := holding (pool_of s) - 1\<rparr>)"
      by (intro pool_step.Spurious) (simp_all add: pool_of_def)
    then show ?thesis using Spurious by (simp add: pool_of_def count_set_conn)
  qed (auto simp: pool_of_def count_set_conn simp flip: count_greater_zero_iff)
qed

subsection \<open>Invariants\<close>

lemma size_set_conn: "pc \<in># sy_conns s \<Longrightarrow> size (sy_conns (set_conn pc pc' s)) = size (sy_conns s)"
  by (auto simp: set_conn_def dest: multi_member_split)

lemma pending_set_conn:
  assumes "pc \<in># sy_conns s"
  shows "int (pending (set_conn pc pc' s)) = int (pending s) + of_bool (is_pending pc') - of_bool (is_pending pc)"
proof -
  from assms obtain M where "sy_conns s = add_mset pc M" by (metis insert_DiffM)
  then show ?thesis by (simp add: pending_def set_conn_def)
qed

lemma lifecycle_step: "server_step s e s' \<Longrightarrow> lifecycle_inv s \<Longrightarrow> lifecycle_inv s'"
  by (induction rule: server_step.induct) (auto simp: lifecycle_inv_def)

text \<open>What happens to one connection changes the statistics as its goroutine says.\<close>

lemma stats_inv_conn:
  assumes "stats_inv s" "pc \<in># sy_conns s" "sy_conns s' = sy_conns (set_conn pc pc' s)" "sy_loop s' = sy_loop s"
    and "sv_wg (sy_server s') = sv_wg (sy_server s)"
    and "sv_activeConnections (sy_server s') = sv_activeConnections (sy_server s)
      + of_bool (pc' \<in> {Cn_Active, Cn_Handled}) - of_bool (pc \<in> {Cn_Active, Cn_Handled})"
    and "sv_totalConnections (sy_server s') = sv_totalConnections (sy_server s)"
    and "sv_rejectedRateLimit (sy_server s') + sv_rejectedPoolFull (sy_server s') + sv_successfulRequests (sy_server s')
        + sv_failedRequests (sy_server s') + int (sy_cancelledConns s') =
      sv_rejectedRateLimit (sy_server s) + sv_rejectedPoolFull (sy_server s) + sv_successfulRequests (sy_server s)
        + sv_failedRequests (sy_server s) + int (sy_cancelledConns s) + of_bool (is_pending pc) - of_bool (is_pending pc')"
  shows "stats_inv s'"
proof -
  have c: "0 < count (sy_conns s) pc" using assms(2) by simp
  have "int (in_handler s') = int (in_handler s) + of_bool (pc' \<in> {Cn_Active, Cn_Handled}) - of_bool (pc \<in> {Cn_Active, Cn_Handled})"
    using count_set_conn [OF assms(2), of pc'] c assms(3) by (auto simp: in_handler_def of_nat_diff)
  moreover have "int (pending s') = int (pending s) + of_bool (is_pending pc') - of_bool (is_pending pc)"
    using pending_set_conn [OF assms(2), of pc'] assms(3,4) by (simp add: pending_def)
  moreover have "size (sy_conns s') = size (sy_conns s)"
    using size_set_conn [OF assms(2)] assms(3) by simp
  ultimately show ?thesis using assms unfolding stats_inv_def by simp
qed

lemma stats_step:
  assumes "server_step s e s'" "stats_inv s" shows "stats_inv s'"
  using assms
proof (induction rule: server_step.induct)
  case (CountAccepted s addr)
  then show ?case by (simp add: stats_inv_def pending_def in_handler_def)
next
  case (Go s addr)
  then show ?case by (simp add: stats_inv_def pending_def in_handler_def)
next
  case (Found ip s now ok t)
  show ?case
    by (rule stats_inv_conn [OF Found.prems Found.hyps(1), of _ "if ok then Cn_Allowed else Cn_Denied"])
      (simp_all add: set_conn_def)
next
  case (Lock ip s now t)
  show ?case
    by (rule stats_inv_conn [OF Lock.prems Lock.hyps(1), of _ "Cn_Limiting ip"]) (simp_all add: set_conn_def)
next
  case (Create ip s ok t)
  show ?case
    by (rule stats_inv_conn [OF Create.prems Create.hyps(1), of _ "if ok then Cn_Allowed else Cn_Denied"])
      (simp_all add: set_conn_def)
next
  case (CountDenied s)
  show ?case
    by (rule stats_inv_conn [of s Cn_Denied _ "Cn_Rejected ErrCodeRateLimited"]) (use CountDenied in \<open>simp_all add: set_conn_def\<close>)
next
  case (Send s)
  show ?case by (rule stats_inv_conn [of s Cn_Allowed _ Cn_Entering]) (use Send in \<open>simp_all add: set_conn_def\<close>)
next
  case (Full s)
  show ?case by (rule stats_inv_conn [of s Cn_Allowed _ Cn_NoSlot]) (use Full in \<open>simp_all add: set_conn_def\<close>)
next
  case (CountFull s)
  show ?case
    by (rule stats_inv_conn [of s Cn_NoSlot _ "Cn_Rejected ErrCodeServerBusy"]) (use CountFull in \<open>simp_all add: set_conn_def\<close>)
next
  case (Count s)
  show ?case by (rule stats_inv_conn [of s Cn_Entering _ Cn_Slot]) (use Count in \<open>simp_all add: set_conn_def\<close>)
next
  case (Activate s)
  show ?case by (rule stats_inv_conn [of s Cn_Slot _ Cn_Active]) (use Activate in \<open>simp_all add: set_conn_def\<close>)
next
  case (Handle s c err c')
  show ?case
    by (rule stats_inv_conn [of s Cn_Active _ Cn_Handled])
      (use Handle in \<open>simp_all add: set_conn_def record_result_def split: option.split\<close>)
next
  case (Deactivate s)
  show ?case by (rule stats_inv_conn [of s Cn_Handled _ Cn_Inactive]) (use Deactivate in \<open>simp_all add: set_conn_def\<close>)
next
  case (Receive s)
  show ?case by (rule stats_inv_conn [of s Cn_Inactive _ Cn_Leaving]) (use Receive in \<open>simp_all add: set_conn_def\<close>)
next
  case (Spurious s)
  show ?case by (rule stats_inv_conn [of s Cn_Inactive _ Cn_Closing]) (use Spurious in \<open>simp_all add: set_conn_def\<close>)
next
  case (Uncount s)
  show ?case by (rule stats_inv_conn [of s Cn_Leaving _ Cn_Closing]) (use Uncount in \<open>simp_all add: set_conn_def\<close>)
next
  case (Reject code s)
  show ?case by (rule stats_inv_conn [of s "Cn_Rejected code" _ Cn_Closing]) (use Reject in \<open>simp_all add: set_conn_def\<close>)
next
  case (Done s)
  then obtain M where "sy_conns s = add_mset Cn_Closing M" by (metis insert_DiffM)
  then show ?case using Done by (simp add: stats_inv_def pending_def in_handler_def)
qed (simp_all add: stats_inv_def pending_def in_handler_def)

subsection \<open>From the start\<close>

abbreviation fresh_server :: "server_Config \<Rightarrow> generatorImpl \<Rightarrow> verifierImpl \<Rightarrow> memoryStore \<Rightarrow> string \<Rightarrow> instant \<Rightarrow> server_system" where
  "fresh_server config g v q addr t0 \<equiv> server_started addr t0 (server_New config g v q)"

lemma fresh_views:
  "limiter_of (fresh_server config g v q addr t0) = limiter_start (sc_RateLimitConfig config) t0"
  "pool_of (fresh_server config g v q addr t0) = pool_start (sc_MaxConnections config)"
  by (simp_all add: limiter_of_def pool_of_def server_started_def server_New_def Start_def Let_def
      limiter_start_def pool_start_def ratelimit_New_def)

lemma fresh_inv:
  "lifecycle_inv (fresh_server config g v q addr t0)" "stats_inv (fresh_server config g v q addr t0)"
  by (auto simp: lifecycle_inv_def stats_inv_def pending_def in_handler_def server_started_def server_New_def
      Start_def Let_def)

lemma server_invariants:
  assumes "runs server_step (fresh_server config g v q addr t0) es s"
  shows "lifecycle_inv s" "stats_inv s" "pool_inv (pool_of s)"
    "pool_max (sv_pool (sy_server s)) = (if sc_MaxConnections config \<le> 0 then 1 else sc_MaxConnections config)"
proof -
  show "lifecycle_inv s" using runs_inv [OF assms, of lifecycle_inv] fresh_inv lifecycle_step by blast
  show "stats_inv s" using runs_inv [OF assms, of stats_inv] fresh_inv stats_step by blast
  have "runs pool_step (pool_start (sc_MaxConnections config)) (List.map_filter pool_label es) (pool_of s)"
    using pool_view.runs_view [OF assms] by (simp only: fresh_views)
  from pool_runs_inv [OF this] show "pool_inv (pool_of s)"
    "pool_max (sv_pool (sy_server s)) = (if sc_MaxConnections config \<le> 0 then 1 else sc_MaxConnections config)"
    by (simp_all add: pool_of_def)
qed

lemma active_bounded:
  assumes "runs server_step (fresh_server config g v q addr t0) es s"
  shows "0 \<le> sv_activeConnections (sy_server s) \<and>
    sv_activeConnections (sy_server s) \<le> (if sc_MaxConnections config \<le> 0 then 1 else sc_MaxConnections config)"
proof -
  note inv = server_invariants [OF assms]
  have "int (count (sy_conns s) Cn_Active + count (sy_conns s) Cn_Handled) \<le> int (sem (sv_pool (sy_server s)))"
    using inv(3) by (simp add: pool_inv_def pool_of_def)
  also have "\<dots> \<le> pool_max (sv_pool (sy_server s))"
    using inv(3) by (simp add: pool_inv_def pool_of_def)
  finally show ?thesis using inv(2,4) by (simp add: stats_inv_def in_handler_def)
qed

text \<open>The counters that \<^verbatim>\<open>Stats\<close> loads, the active connections apart, only grow.\<close>

definition grows :: "Server \<Rightarrow> Server \<Rightarrow> bool" where
  "grows v v' \<longleftrightarrow> sv_totalConnections v \<le> sv_totalConnections v' \<and> sv_rejectedRateLimit v \<le> sv_rejectedRateLimit v' \<and>
     sv_rejectedPoolFull v \<le> sv_rejectedPoolFull v' \<and> sv_successfulRequests v \<le> sv_successfulRequests v' \<and>
     sv_failedRequests v \<le> sv_failedRequests v'"

lemma grows_step: "server_step s e s' \<Longrightarrow> grows (sy_server s) (sy_server s')"
  by (induction rule: server_step.induct) (auto simp: grows_def record_result_counts)

lemma runs_grows: "runs server_step s es s' \<Longrightarrow> grows (sy_server s) (sy_server s')"
proof (induction rule: runs.induct)
  case (Snoc s es s' e s'')
  then show ?case using grows_step [OF Snoc.hyps(2)] by (auto simp: grows_def)
qed (simp add: grows_def)

subsection \<open>Shutdown\<close>

text \<open>A server whose accept loop is gone and that has no connection stays that way.\<close>

definition quiet :: "server_system \<Rightarrow> bool" where
  "quiet s \<longleftrightarrow> sy_loop s = Lp_Exited \<and> sy_conns s = {#}"

lemma quiet_step: "server_step s e s' \<Longrightarrow> quiet s \<Longrightarrow> quiet s'"
  by (induction rule: server_step.induct) (auto simp: quiet_def set_conn_def)

lemma drained_quiet:
  assumes "runs server_step (fresh_server config g v q addr t0) es s" "Sv_Drained \<in> set es"
  shows "quiet s"
  using assms
proof (induction "fresh_server config g v q addr t0" es s rule: runs.induct)
  case (Snoc es s e s')
  note inv = server_invariants [OF Snoc(1)]
  show ?case
  proof (cases "Sv_Drained \<in> set es")
    case True
    then show ?thesis using Snoc quiet_step by blast
  next
    case False
    then have "server_step s Sv_Drained s'" using Snoc by auto
    then show ?thesis
      using inv(1,2) by cases (auto simp: quiet_def lifecycle_inv_def stats_inv_def)
  qed
qed simp

text \<open>Once the listener is closed, every step of the accept loop or of the shutdown is progress.\<close>

lemma steps_left_step:
  assumes "server_step s e s'" "lifecycle_inv s" "sy_listenerClosed s"
  shows "steps_left s' + of_bool (is_stopping e \<or> is_accept e) \<le> steps_left s \<and> sy_listenerClosed s'"
  using assms by (induction rule: server_step.induct) (auto simp: steps_left_def lifecycle_inv_def)

lemma runs_steps_left:
  assumes "runs server_step s es s'" "lifecycle_inv s" "sy_listenerClosed s"
  shows "steps_left s' + length (filter (\<lambda>e. is_stopping e \<or> is_accept e) es) \<le> steps_left s \<and>
    lifecycle_inv s' \<and> sy_listenerClosed s'"
  using assms
proof induction
  case (Snoc s es s' e s'')
  then show ?case
    using steps_left_step [OF Snoc.hyps(2)] lifecycle_step [OF Snoc.hyps(2)] by (auto split: if_splits)
qed simp

text \<open>
  From every phase the shutdown can go on to the next one by steps of its own, of the accept loop
  and of the clock.
\<close>

definition finishes :: "server_system \<Rightarrow> bool" where
  "finishes s \<longleftrightarrow>
     (\<exists>es s'. runs server_step s es s' \<and> sy_shutdown s' = Sd_Finished \<and> list_all (\<lambda>e. is_stopping e \<or> is_time e) es)"

definition closable :: "server_system \<Rightarrow> bool" where
  "closable s \<longleftrightarrow> ratelimit_Close (sv_rateLimiter (sy_server s)) \<noteq> None"

lemma finishes_step:
  assumes "server_step s e s'" "is_stopping e \<or> is_time e" "finishes s'" shows "finishes s"
proof -
  obtain es s'' where "runs server_step s' es s''" "sy_shutdown s'' = Sd_Finished" "list_all (\<lambda>e. is_stopping e \<or> is_time e) es"
    using assms(3) by (auto simp: finishes_def)
  then show ?thesis
    unfolding finishes_def using runs_Cons [of server_step, OF assms(1)] assms(2)
    by (intro exI [of _ "e # es"] exI [of _ s'']) simp
qed

lemma finishes_Finished: "sy_shutdown s = Sd_Finished \<Longrightarrow> finishes s"
  unfolding finishes_def using runs.Nil [of server_step s] by force

lemma finishes_Stop: "sy_shutdown s = Sd_Stop \<Longrightarrow> finishes s"
  by (rule finishes_step [OF server_step.Stopped]) (simp_all add: finishes_Finished)

lemma finishes_Limiter:
  assumes "sy_shutdown s = Sd_Limiter" "closable s"
  shows "finishes s"
proof -
  obtain l where "ratelimit_Close (ls_limiter (limiter_of s)) = Some l"
    using assms(2) by (auto simp: closable_def limiter_of_def)
  from server_step.CloseLimiter [OF assms(1) limiter_step.Close [OF this]] show ?thesis
    by (rule finishes_step) (simp_all add: finishes_Stop)
qed

lemma finishes_WaitConns:
  assumes "sy_shutdown s = Sd_WaitConns deadline" "closable s"
  shows "finishes s"
proof -
  let ?now = "max (sy_clock s) deadline"
  let ?s = "set_limiter ((limiter_of s)\<lparr>ls_clock := ?now\<rparr>) s"
  have "limiter_step (limiter_of s) (Lim_Time ?now) ((limiter_of s)\<lparr>ls_clock := ?now\<rparr>)"
    by (rule limiter_step.Time) (simp add: limiter_of_def)
  then have time: "server_step s (Sv_Limiter (Lim_Time ?now)) ?s" by (intro server_step.Limiter) simp_all
  have "finishes ?s"
    by (rule finishes_step [OF server_step.GracefulTimeout [of _ deadline]])
      (use assms in \<open>auto simp: closable_def limiter_of_def intro!: finishes_Limiter\<close>)
  then show ?thesis by (rule finishes_step [OF time, rotated]) simp
qed

lemma finishes_loop:
  assumes "sy_shutdown s = Sd_WaitLoop" "lifecycle_inv s" "closable s"
  shows "finishes s"
  using assms
proof (induction "loop_weight (sy_loop s)" arbitrary: s rule: less_induct)
  case less
  have closed: "sy_listenerClosed s" using less.prems(1,2) by (simp add: lifecycle_inv_def)
  have go: "finishes s" if "server_step s e s'" "is_stopping e" "loop_weight (sy_loop s') < loop_weight (sy_loop s)"
      "sy_shutdown s' = Sd_WaitLoop" "closable s'" for e s'
    using finishes_step [OF that(1)] that(2) less.hyps [OF that(3,4) lifecycle_step [OF that(1) less.prems(2)] that(5)] by blast
  show ?case
  proof (cases "sy_loop s")
    case Lp_Top
    then show ?thesis
      using go [OF server_step.Continue] go [OF server_step.LoopReturn] less.prems
      by (cases "sy_cancelled s") (simp_all add: closable_def)
  next
    case Lp_Accept
    have "errors_Is net_ErrClosed net_ErrClosed" "isShuttingDown (sy_server s) net_ErrClosed"
      by (simp_all add: isShuttingDown_def net_ErrClosed_def)
    then show ?thesis using go [OF server_step.AcceptClosed [OF Lp_Accept closed]] Lp_Accept less.prems by (simp add: closable_def)
  next
    case (Lp_Got addr)
    then show ?thesis using go [OF server_step.CountAccepted] less.prems by (simp add: closable_def)
  next
    case (Lp_Counted addr)
    then show ?thesis using go [OF server_step.Go] less.prems by (simp add: closable_def)
  next
    case Lp_Returned
    then show ?thesis using go [OF server_step.LoopStopped] less.prems by (simp add: closable_def)
  next
    case Lp_Stopped
    then show ?thesis using go [OF server_step.LoopDone] less.prems by (simp add: closable_def)
  next
    case Lp_Exited
    show ?thesis
      by (rule finishes_step [OF server_step.LoopGone])
        (use less.prems Lp_Exited in \<open>auto simp: lifecycle_inv_def closable_def intro!: finishes_WaitConns\<close>)
  qed
qed

lemma finishes_Close:
  assumes "sy_shutdown s = Sd_Close" "lifecycle_inv s" "closable s"
  shows "finishes s"
proof -
  note step = server_step.CloseListener [OF assms(1)]
  have "finishes (s\<lparr>sy_shutdown := Sd_WaitLoop, sy_listenerClosed := True\<rparr>)"
    by (rule finishes_loop) (use assms lifecycle_step [OF step assms(2)] in \<open>simp_all add: closable_def\<close>)
  then show ?thesis by (rule finishes_step [OF step, rotated]) simp
qed

lemma always_finishes:
  assumes "lifecycle_inv s" "closable s"
  shows "finishes s"
proof (cases "sy_shutdown s")
  case Sd_Idle
  then have step: "server_step s Sv_Shutdown (on_server (\<lambda>v. v\<lparr>sv_closeOnce := True\<rparr>) (s\<lparr>sy_shutdown := Sd_Close\<rparr>))"
    using assms(1) by (intro server_step.Shutdown) (simp add: lifecycle_inv_def)
  show ?thesis
    by (rule finishes_step [OF step], simp, rule finishes_Close)
      (use assms lifecycle_step [OF step assms(1)] in \<open>simp_all add: closable_def\<close>)
qed (use assms finishes_Close finishes_loop finishes_WaitConns finishes_Limiter finishes_Stop
    finishes_Finished in auto)

lemma stopOnce_step:
  assumes "limiter_step s e s'" "rl_stopChan_closed (ls_limiter s) = stopOnce_done (ls_limiter s)"
  shows "rl_stopChan_closed (ls_limiter s') = stopOnce_done (ls_limiter s')"
  using assms
proof cases
  case (Close l)
  then show ?thesis using assms(2) by (auto simp: ratelimit_Close_def split: if_splits)
qed (use assms(2) in \<open>auto simp: allow_take_def allow_create_def evictOldestFromShard_def delete_bucket_def Let_def split: prod.splits\<close>)

lemma reachable_closable:
  assumes "runs server_step (fresh_server config g v q addr t0) es s"
  shows "closable s"
proof -
  have "rl_stopChan_closed (ls_limiter (limiter_of s)) = stopOnce_done (ls_limiter (limiter_of s))"
    by (rule limiter_view.view_invariant [OF assms, where
          I = "\<lambda>t. rl_stopChan_closed (ls_limiter t) = stopOnce_done (ls_limiter t)"])
      (simp add: fresh_views limiter_start_def ratelimit_New_def Let_def, rule stopOnce_step)
  then show ?thesis by (simp add: closable_def limiter_of_def ratelimit_Close_def)
qed

subsection \<open>An example\<close>

definition ex_server :: server_system where
  "ex_server = fresh_server server_DefaultConfig ex_generator ex_verifier (NewMemoryStore []) '':8080'' 0"

text \<open>A connection is accepted and gets the answer of the limiter.\<close>

lemma ex_limiter_steps:
  obtains t1 t2 t3 ok where
    "limiter_step (limiter_start ratelimit_DefaultConfig 0) (Lim_Lock ''10.0.0.1'' 5) t1"
    "limiter_step t1 (Lim_Check ''10.0.0.1'') t2" "limiter_step t2 (Lim_Create ''10.0.0.1'' ok) t3" "ls_clock t3 = 5"
proof -
  let ?s = "limiter_start ratelimit_DefaultConfig 0" and ?ip = "''10.0.0.1''"
  have inv: "limiter_inv (ls_limiter ?s)"
    by (simp add: limiter_start_def ratelimit_New_inv ratelimit_DefaultConfig_def)
  obtain i where i: "getShard (ls_limiter ?s) ?ip = Some i" "i < length (shards (ls_limiter ?s))"
    using getShard_less [OF inv] by blast
  let ?t1 = "?s\<lparr>ls_locks := (ls_locks ?s)(i \<mapsto> Hold_New ?ip 5), ls_clock := 5\<rparr>"
  let ?t2 = "?t1\<lparr>ls_locks := (ls_locks ?t1)(i \<mapsto> Hold_Create ?ip 5)\<rparr>"
  obtain ok l where cr: "allow_create i 5 ?ip (ls_limiter ?t2) = (ok, l)" by fastforce
  have "shards (ls_limiter ?s) ! i = []" using i(2) by (simp add: limiter_start_def ratelimit_New_def Let_def)
  then have "limiter_step ?s (Lim_Lock ?ip 5) ?t1"
    by (intro limiter_step.Lock [OF i(1)]) (simp_all add: limiter_start_def)
  moreover have "\<not> at_limit (ls_limiter ?t1)"
    by (simp add: at_limit_def totalBuckets_def limiter_start_def ratelimit_New_def ratelimit_DefaultConfig_def Let_def)
  then have "limiter_step ?t1 (Lim_Check ?ip) ?t2" using limiter_step.Check [of ?t1 i ?ip 5] by simp
  moreover have "limiter_step ?t2 (Lim_Create ?ip ok) (?t2\<lparr>ls_limiter := l, ls_locks := (ls_locks ?t2)(i := None)\<rparr>)"
    by (rule limiter_step.Create [OF _ cr]) simp
  ultimately show thesis using that by simp
qed

abbreviation ex_admit_events :: "bool \<Rightarrow> server_event list" where
  "ex_admit_events ok \<equiv>
    [Sv_Continue, Sv_Accept ''10.0.0.1:4711'', Sv_CountAccepted, Sv_Go, Sv_Limiter (Lim_Lock ''10.0.0.1'' 5),
     Sv_Limiter (Lim_Check ''10.0.0.1''), Sv_Limiter (Lim_Create ''10.0.0.1'' ok)]"

lemma ex_server_admits:
  obtains ok s where "runs server_step ex_server (ex_admit_events ok) s" "sy_clock s = 5" "sy_conns s \<noteq> {#}"
proof -
  let ?ip = "''10.0.0.1''"
  obtain t1 t2 t3 ok where t: "limiter_step (limiter_start ratelimit_DefaultConfig 0) (Lim_Lock ?ip 5) t1"
      "limiter_step t1 (Lim_Check ?ip) t2" "limiter_step t2 (Lim_Create ?ip ok) t3" "ls_clock t3 = 5"
    by (rule ex_limiter_steps)
  let ?s1 = "ex_server\<lparr>sy_loop := Lp_Accept\<rparr>"
  let ?s2 = "?s1\<lparr>sy_loop := Lp_Got ''10.0.0.1:4711''\<rparr>"
  let ?s3 = "on_server (\<lambda>v. v\<lparr>sv_totalConnections := sv_totalConnections v + 1\<rparr>) (?s2\<lparr>sy_loop := Lp_Counted ''10.0.0.1:4711''\<rparr>)"
  let ?s4 = "on_server (\<lambda>v. v\<lparr>sv_wg := sv_wg v + 1\<rparr>)
         (?s3\<lparr>sy_loop := Lp_Top, sy_conns := add_mset (Cn_Accepted (extractIP ''10.0.0.1:4711'')) (sy_conns ?s3)\<rparr>)"
  let ?s5 = "set_limiter t1 (set_conn (Cn_Accepted ?ip) (Cn_Limiting ?ip) ?s4)"
  let ?s6 = "set_limiter t2 ?s5"
  let ?s7 = "set_limiter t3 (set_conn (Cn_Limiting ?ip) (if ok then Cn_Allowed else Cn_Denied) ?s6)"
  have ip: "extractIP ''10.0.0.1:4711'' = ?ip" by code_simp
  have s0: "sy_loop ex_server = Lp_Top" "\<not> sy_cancelled ex_server" "\<not> sy_listenerClosed ex_server" "sy_conns ex_server = {#}"
      "limiter_of ex_server = limiter_start ratelimit_DefaultConfig 0"
    by (simp_all add: ex_server_def fresh_views(1)) (simp_all add: server_started_def server_DefaultConfig_def)
  have l4: "limiter_of ?s4 = limiter_start ratelimit_DefaultConfig 0"
    unfolding s0(5) [symmetric] by (simp add: limiter_of_def)
  have "server_step ex_server Sv_Continue ?s1" by (rule server_step.Continue [OF s0(1,2)])
  moreover have "server_step ?s1 (Sv_Accept ''10.0.0.1:4711'') ?s2" by (rule server_step.Accept) (simp_all add: s0)
  moreover have "server_step ?s2 Sv_CountAccepted ?s3" by (rule server_step.CountAccepted) simp
  moreover have "server_step ?s3 Sv_Go ?s4" by (rule server_step.Go) simp
  moreover have "server_step ?s4 (Sv_Limiter (Lim_Lock ?ip 5)) ?s5"
    by (rule server_step.Lock) (simp add: ip, simp only: l4 t(1))
  moreover have "server_step ?s5 (Sv_Limiter (Lim_Check ?ip)) ?s6" by (rule server_step.Limiter) (simp_all add: t(2))
  moreover have "server_step ?s6 (Sv_Limiter (Lim_Create ?ip ok)) ?s7"
    by (rule server_step.Create) (simp_all add: t(3) set_conn_def)
  ultimately have "runs server_step ex_server (ex_admit_events ok) ?s7" by (blast intro: runs_Cons runs.Nil)
  then show thesis by (rule that) (use t(4) in \<open>simp_all add: set_conn_def\<close>)
qed

text \<open>A server without connections is drained.\<close>

abbreviation ex_drain_events :: "server_event list" where
  "ex_drain_events \<equiv>
    [Sv_Cancel, Sv_LoopReturn, Sv_LoopStopped, Sv_LoopDone, Sv_Shutdown, Sv_CloseListener, Sv_LoopGone, Sv_Drained]"

lemma ex_server_drains:
  obtains s where "runs server_step ex_server ex_drain_events s"
proof -
  let ?s1 = "ex_server\<lparr>sy_cancelled := True\<rparr>"
  let ?s2 = "?s1\<lparr>sy_loop := Lp_Returned\<rparr>"
  let ?s3 = "on_server (\<lambda>v. v\<lparr>sv_accepting := False\<rparr>) (?s2\<lparr>sy_loop := Lp_Stopped\<rparr>)"
  let ?s4 = "on_server (\<lambda>v. v\<lparr>sv_acceptLoopWg := sv_acceptLoopWg v - 1\<rparr>) (?s3\<lparr>sy_loop := Lp_Exited\<rparr>)"
  let ?s5 = "on_server (\<lambda>v. v\<lparr>sv_closeOnce := True\<rparr>) (?s4\<lparr>sy_shutdown := Sd_Close\<rparr>)"
  let ?s6 = "?s5\<lparr>sy_shutdown := Sd_WaitLoop, sy_listenerClosed := True\<rparr>"
  let ?s7 = "?s6\<lparr>sy_shutdown := Sd_WaitConns (sy_clock ?s6 + sc_GracefulTimeout (sv_config (sy_server ?s6)))\<rparr>"
  have s0: "sy_loop ex_server = Lp_Top" "\<not> sv_closeOnce (sy_server ex_server)" "sv_acceptLoopWg (sy_server ex_server) = 1"
      "sv_wg (sy_server ex_server) = 0"
    by (simp_all add: ex_server_def server_started_def server_New_def Start_def server_DefaultConfig_def Let_def)
  have "server_step ex_server Sv_Cancel ?s1" by (rule server_step.Cancel)
  moreover have "server_step ?s1 Sv_LoopReturn ?s2" by (rule server_step.LoopReturn) (simp_all add: s0)
  moreover have "server_step ?s2 Sv_LoopStopped ?s3" by (rule server_step.LoopStopped) simp
  moreover have "server_step ?s3 Sv_LoopDone ?s4" by (rule server_step.LoopDone) simp
  moreover have "server_step ?s4 Sv_Shutdown ?s5" by (rule server_step.Shutdown) (simp add: s0)
  moreover have "server_step ?s5 Sv_CloseListener ?s6" by (rule server_step.CloseListener) simp
  moreover have "server_step ?s6 Sv_LoopGone ?s7" by (rule server_step.LoopGone) (simp_all add: s0)
  moreover have "server_step ?s7 Sv_Drained (?s7\<lparr>sy_shutdown := Sd_Limiter\<rparr>)"
    by (rule server_step.Drained [of _ "sy_clock ?s6 + sc_GracefulTimeout (sv_config (sy_server ?s6))"]) (simp_all add: s0)
  ultimately show thesis using that by (blast intro: runs_Cons runs.Nil)
qed

section \<open>Properties\<close>





text \<open>
  C17: A graceful shutdown is one: once \<^verbatim>\<open>shutdown\<close> has found all connections closed, there is no
  connection in the server, none is accepted any more, nothing is active, and the statistics
  add up without a remainder.
\<close>

theorem drained_is_final:
  assumes "runs server_step (fresh_server config g v q addr t0) es s" "Sv_Drained \<in> set es"
  shows "sy_conns s = {#} \<and> \<not> sv_accepting (sy_server s) \<and> sv_wg (sy_server s) = 0 \<and>
    sv_activeConnections (sy_server s) = 0 \<and> pending s = 0"
  using drained_quiet [OF assms] server_invariants [OF assms(1)]
  by (simp add: quiet_def stats_inv_def lifecycle_inv_def pending_def in_handler_def)

theorem drained_is_final_witness:
  "\<exists>es s. runs server_step ex_server es s \<and> Sv_Drained \<in> set es \<and> sy_conns s = {#} \<and> \<not> sv_accepting (sy_server s)"
proof (rule ex_server_drains)
  fix s
  assume run: "runs server_step ex_server ex_drain_events s"
  show ?thesis using drained_is_final [OF run [unfolded ex_server_def]] run by force
qed



end
