(* ===== verification/Load_Test.thy ===== *)
theory Load_Test
  imports Client_App
begin

text \<open>
  The requests and the workers of the load test, \<^verbatim>\<open>cmd/loadtest/main.go\<close>: \<^verbatim>\<open>doRequest\<close>, which is the
  client with statistics, and \<^verbatim>\<open>runWorker\<close>, which repeats it.
\<close>

section \<open>Definitions\<close>

record load_Stats =
  totalRequests :: int
  successRequests :: int
  failedRequests :: int
  totalSolveTime :: int
  totalRoundTrip :: int

text \<open>The counters are int64: an addition wraps.\<close>

definition int64_add :: "int \<Rightarrow> int \<Rightarrow> int" where
  "int64_add a b = sint (word_of_int (a + b) :: i64)"

text \<open>The atomic additions the code makes to the statistics.\<close>

datatype stat_add =
    Add_Total
  | Add_Success
  | Add_Failed
  | Add_SolveTime duration
  | Add_RoundTrip duration

fun apply_add :: "stat_add \<Rightarrow> load_Stats \<Rightarrow> load_Stats" where
  "apply_add Add_Total st = st\<lparr>totalRequests := int64_add (totalRequests st) 1\<rparr>"
| "apply_add Add_Success st = st\<lparr>successRequests := int64_add (successRequests st) 1\<rparr>"
| "apply_add Add_Failed st = st\<lparr>failedRequests := int64_add (failedRequests st) 1\<rparr>"
| "apply_add (Add_SolveTime d) st = st\<lparr>totalSolveTime := int64_add (totalSolveTime st) d\<rparr>"
| "apply_add (Add_RoundTrip d) st = st\<lparr>totalRoundTrip := int64_add (totalRoundTrip st) d\<rparr>"

text \<open>
  A request: the workers share the statistics, which a request only adds to, so what it does to
  them is the list of its additions, in order.
\<close>

record load_worker = world +
  ld_adds :: "stat_add list"

definition stats_add :: "stat_add \<Rightarrow> (load_worker, unit) state" where
  "stats_add a = State (\<lambda>s. ((), s\<lparr>ld_adds := ld_adds s @ [a]\<rparr>))"

definition doRequest :: "go_error option \<Rightarrow> ctx_view \<Rightarrow> (load_worker, go_error option) state" where
  "doRequest dial ctx = do {
     roundTripStart \<leftarrow> time_Now;
     stats_add Add_Total;
     case dial of
       Some e \<Rightarrow> State_Monad.return (Some (Errorf ''connect: '' e []))
     | None \<Rightarrow> do {
         now \<leftarrow> time_Now;
         _ \<leftarrow> SetDeadline (now + 60 * time_Second);
         err \<leftarrow> conn_WriteMessage NewRequestChallenge;
         case err of
           Some e \<Rightarrow> State_Monad.return (Some (Errorf ''send request: '' e []))
         | None \<Rightarrow> do {
             r \<leftarrow> conn_ReadMessage;
             case r of
               Inl e \<Rightarrow> State_Monad.return (Some (Errorf ''read challenge: '' e []))
             | Inr msg \<Rightarrow>
                 if Type msg = TypeError then State_Monad.return (Some (server_error msg))
                 else if Type msg \<noteq> TypeChallenge then State_Monad.return (Some (unexpected_type msg))
                 else case UnmarshalChallenge (Payload msg) of
                     Inl e \<Rightarrow> State_Monad.return (Some (Errorf ''parse challenge: '' e []))
                   | Inr challenge \<Rightarrow> do {
                       solveStart \<leftarrow> time_Now;
                       case Solve NewSolver ctx challenge of
                         Inl e \<Rightarrow> State_Monad.return (Some (Errorf ''solve: '' e []))
                       | Inr solution \<Rightarrow> do {
                           solveEnd \<leftarrow> time_Now;
                           stats_add (Add_SolveTime (time_Sub solveEnd solveStart));
                           err \<leftarrow> conn_WriteMessage (NewSolution (Solution_Marshal solution));
                           case err of
                             Some e \<Rightarrow> State_Monad.return (Some (Errorf ''send solution: '' e []))
                           | None \<Rightarrow> do {
                               r \<leftarrow> conn_ReadMessage;
                               case r of
                                 Inl e \<Rightarrow> State_Monad.return (Some (Errorf ''read quote: '' e []))
                               | Inr msg \<Rightarrow>
                                   if Type msg = TypeError then State_Monad.return (Some (server_error msg))
                                   else if Type msg \<noteq> TypeQuote then State_Monad.return (Some (unexpected_type msg))
                                   else do {
                                     stats_add Add_Success;
                                     now \<leftarrow> time_Now;
                                     stats_add (Add_RoundTrip (time_Sub now roundTripStart));
                                     State_Monad.return None
                                   }
                             }
                         }
                     }
           }
       }
   }"

text \<open>
  A worker repeats requests, by steps: \<open>W_Top\<close> is the top of its loop, \<open>W_Request\<close> a request with
  the additions it still has to make and its result, \<open>W_Pause\<close> the pause after a failed request.
  What a request meets, and the time since the start, are arbitrary; a step makes at most one
  addition. The first \<^verbatim>\<open>select\<close> has a default, so it returns if the context is done; in the pause
  the timer may win even then.
\<close>

datatype worker_pc =
    W_Top
  | W_Request "stat_add list" "go_error option"
  | W_Pause
  | W_Return

inductive worker_step :: "duration \<Rightarrow> bool \<Rightarrow> worker_pc \<Rightarrow> stat_add option \<Rightarrow> worker_pc \<Rightarrow> bool" for duration ctx_done where
  Done: "ctx_done \<Longrightarrow> worker_step duration ctx_done W_Top None W_Return"
| Over: "\<not> ctx_done \<Longrightarrow> elapsed > duration \<Longrightarrow> worker_step duration ctx_done W_Top None W_Return"
| Begin: "\<not> ctx_done \<Longrightarrow> elapsed \<le> duration \<Longrightarrow>
     run_state (doRequest dial ctx) (world.extend w \<lparr>ld_adds = []\<rparr>) = (err, s) \<Longrightarrow>
     worker_step duration ctx_done W_Top None (W_Request (ld_adds s) err)"
| Add: "worker_step duration ctx_done (W_Request (a # as) err) (Some a) (W_Request as err)"
| Succeeded: "worker_step duration ctx_done (W_Request [] None) None W_Top"
| Failed: "worker_step duration ctx_done (W_Request [] (Some e)) (Some Add_Failed) W_Pause"
| Cancelled: "ctx_done \<Longrightarrow> worker_step duration ctx_done W_Pause None W_Return"
| Resume: "worker_step duration ctx_done W_Pause None W_Top"

section \<open>Lemmas\<close>

text \<open>What the operations on the connection leave of the recorded additions: everything.\<close>

definition keeps_adds :: "(load_worker, 'r) state \<Rightarrow> bool" where
  "keeps_adds m \<longleftrightarrow> (\<forall>s. ld_adds (snd (run_state m s)) = ld_adds s)"

lemma keeps_adds_io:
  "keeps_adds time_Now" "keeps_adds (SetDeadline t)" "keeps_adds (conn_WriteMessage m)" "keeps_adds conn_ReadMessage"
  by (auto simp: keeps_adds_def time_Now_def SetDeadline_def conn_WriteMessage_def conn_ReadMessage_def
      split: prod.split sum.split)

lemma keeps_addsD: "keeps_adds m \<Longrightarrow> run_state m s = (r, s') \<Longrightarrow> ld_adds s' = ld_adds s"
  by (auto simp: keeps_adds_def dest: spec [of _ s])

lemmas adds_kept = keeps_adds_io [THEN keeps_addsD]

text \<open>A request is counted first, it adds its success last and only once, and never counts a failure itself.\<close>

lemma doRequest_adds:
  assumes "run_state (doRequest dial ctx) s = (err, s')"
  shows "\<exists>ds. ld_adds s' = ld_adds s @ Add_Total # ds \<and>
    (if err = None then \<exists>t r. ds = [Add_SolveTime t, Add_Success, Add_RoundTrip r]
     else ds = [] \<or> (\<exists>t. ds = [Add_SolveTime t]))"
  using assms unfolding doRequest_def
  by (auto simp: stats_add_def dest!: adds_kept split: option.splits sum.splits prod.splits if_splits)

lemma request_adds:
  assumes "run_state (doRequest dial ctx) (world.extend w \<lparr>ld_adds = []\<rparr>) = (err, s)"
  shows "count_list (ld_adds s) Add_Total = 1" "count_list (ld_adds s) Add_Failed = 0"
    "count_list (ld_adds s) Add_Success = (if err = None then 1 else 0)"
  using doRequest_adds [OF assms] by (auto simp: world.defs load_worker.defs split: if_splits)

inductive_cases worker_stepE: "worker_step duration ctx_done pc a pc'"

text \<open>
  The additions to the counters of finished requests that a worker still owes, less those to the
  counter of all requests: a step keeps the balance.
\<close>

fun owed :: "worker_pc \<Rightarrow> int" where
  "owed (W_Request as err) =
    int (count_list as Add_Success) + (if err = None then 0 else 1) - int (count_list as Add_Total)"
| "owed _ = 0"

fun finished :: "stat_add option \<Rightarrow> int" where
  "finished (Some Add_Total) = - 1"
| "finished (Some Add_Success) = 1"
| "finished (Some Add_Failed) = 1"
| "finished _ = 0"

text \<open>A request itself does not count failures.\<close>

fun no_failure :: "worker_pc \<Rightarrow> bool" where
  "no_failure (W_Request as err) \<longleftrightarrow> count_list as Add_Failed = 0"
| "no_failure _ \<longleftrightarrow> True"

lemma worker_step_owed:
  assumes "worker_step duration ctx_done pc a pc'" "no_failure pc"
  shows "owed pc = owed pc' + finished a \<and> no_failure pc'"
  using assms
proof (cases rule: worker_step.cases)
  case (Begin elapsed dial ctx w err s)
  then show ?thesis using request_adds [OF Begin(6)] by simp
next
  case (Add b as err)
  then show ?thesis using assms(2) by (cases b) auto
qed auto

text \<open>After cancellation every step of a worker brings it closer to its return.\<close>

fun worker_weight :: "worker_pc \<Rightarrow> nat" where
  "worker_weight W_Top = 1"
| "worker_weight (W_Request as err) = length as + 3"
| "worker_weight W_Pause = 2"
| "worker_weight W_Return = 0"

lemma worker_step_weight: "worker_step duration True pc a pc' \<Longrightarrow> worker_weight pc' < worker_weight pc"
  by (auto elim: worker_stepE)

lemma worker_can_step:
  assumes "pc \<noteq> W_Return"
  shows "\<exists>a pc'. worker_step duration ctx_done pc a pc'"
proof (cases pc)
  case W_Top
  then show ?thesis
    using worker_step.Done [of ctx_done duration] worker_step.Over [of ctx_done duration "duration + 1"]
    by (cases ctx_done) auto
next
  case (W_Request as err)
  then show ?thesis by (cases as; cases err) (auto intro: worker_step.intros)
next
  case W_Pause
  then show ?thesis by (blast intro: worker_step.Resume)
qed (use assms in simp)

lemma worker_returns_once: "\<not> worker_step duration ctx_done W_Return a pc"
  by (auto elim: worker_stepE)

end
