(* ===== verification/Load_Report.thy ===== *)
theory Load_Report
  imports Load_Test "HOL-Library.Signed_Division"
begin

text \<open>
  The reports of \<^verbatim>\<open>cmd/loadtest/main.go\<close>: the pause between the starts of two workers, and the numbers
  that the two functions for the statistics print. The format of the printed lines is not modelled. Go's division of
  integers truncates, and panics for a divisor of zero.
\<close>

section \<open>Definitions\<close>

definition time_Millisecond :: duration where
  "time_Millisecond = 1000000"

text \<open>\<^verbatim>\<open>Duration.Truncate\<close>.\<close>

definition Duration_Truncate :: "duration \<Rightarrow> duration \<Rightarrow> duration" where
  "Duration_Truncate d m = (if m \<le> 0 then d else d - d smod m)"

text \<open>The pause of \<^verbatim>\<open>main\<close> between the starts of two workers. \<open>None\<close> is the panic of the division.\<close>

definition workerDelay :: "duration \<Rightarrow> int \<Rightarrow> duration option" where
  "workerDelay rampUp workers = (if workers = 0 then None else Some (rampUp sdiv workers))"

record live_report =
  lr_elapsed :: f64
  lr_total :: int
  lr_success :: int
  lr_successRate :: f64
  lr_failed :: int
  lr_rps :: f64
  lr_avgSolve :: duration
  lr_avgRoundTrip :: duration

definition success_rate :: "int \<Rightarrow> int \<Rightarrow> f64" where
  "success_rate success requests = f64_mul (f64_div (f64_of_int success) (f64_of_int requests)) (Fin 100)"

text \<open>One line of \<^verbatim>\<open>printLiveStats\<close>, for the time since the start.\<close>

definition printLiveStats :: "duration \<Rightarrow> load_Stats \<Rightarrow> live_report" where
  "printLiveStats since stats =
    (let elapsed = Duration_Seconds since;
         requests = totalRequests stats;
         success = successRequests stats;
         failed = failedRequests stats;
         rps = f64_div (f64_of_int requests) elapsed;
         successRate = (if requests > 0 then success_rate success requests else Fin 0);
         avgSolve = (if success > 0 then totalSolveTime stats sdiv success else 0);
         avgRoundTrip = (if success > 0 then totalRoundTrip stats sdiv success else 0)
     in \<lparr>lr_elapsed = elapsed, lr_total = requests, lr_success = success, lr_successRate = successRate,
         lr_failed = failed, lr_rps = rps, lr_avgSolve = Duration_Truncate avgSolve time_Millisecond,
         lr_avgRoundTrip = Duration_Truncate avgRoundTrip time_Millisecond\<rparr>)"

record final_report =
  fr_duration :: duration
  fr_total :: int
  fr_success :: int
  fr_failed :: int
  fr_rates :: "(f64 \<times> f64) option"
  fr_averages :: "(duration \<times> duration) option"

definition printFinalStats :: "load_Stats \<Rightarrow> duration \<Rightarrow> final_report" where
  "printFinalStats stats duration =
    (let requests = totalRequests stats;
         success = successRequests stats;
         failed = failedRequests stats
     in \<lparr>fr_duration = Duration_Truncate duration time_Millisecond, fr_total = requests, fr_success = success,
         fr_failed = failed,
         fr_rates =
           (if requests > 0
            then Some (success_rate success requests, f64_div (f64_of_int requests) (Duration_Seconds duration))
            else None),
         fr_averages =
           (if success > 0
            then Some (Duration_Truncate (totalSolveTime stats sdiv success) time_Millisecond,
                       Duration_Truncate (totalRoundTrip stats sdiv success) time_Millisecond)
            else None)\<rparr>)"

section \<open>Lemmas\<close>

lemma sdiv_pos: "0 \<le> (a :: int) \<Longrightarrow> 0 < b \<Longrightarrow> a sdiv b = a div b"
  by (cases "a = 0") (simp_all add: signed_divide_int_def)

lemma smod_pos: "0 \<le> (a :: int) \<Longrightarrow> 0 < b \<Longrightarrow> a smod b = a mod b"
  by (cases "a = 0") (simp_all add: signed_modulo_int_def)

lemma success_rate_range:
  assumes "0 \<le> s" "s \<le> t" "0 < t" "t < 2 ^ 53"
  shows "\<exists>r. success_rate s t = Fin r \<and> 0 \<le> r \<and> r \<le> 100 \<and> (s = t \<longrightarrow> r = 100) \<and> (s = 0 \<longrightarrow> r = 0)"
proof -
  let ?q = "of_int s / of_int t :: rat"
  have q: "0 \<le> ?q" "?q \<le> 1" using assms by (simp_all add: divide_le_eq_1)
  have rnd: "0 \<le> rnd ?q" "rnd ?q \<le> 1" using rnd_nonneg [OF q(1)] rnd_mono [OF q(2)] rnd_of_int [of 1] by simp_all
  have ints: "f64_of_int s = Fin (of_int s)" "f64_of_int t = Fin (of_int t)"
    using assms by (simp_all add: f64_of_int_exact)
  have "f64_of_rat ?q = Fin (rnd ?q)"
    by (rule f64_of_rat_small) (use q in simp)
  moreover have "f64_of_rat (rnd ?q * 100) = Fin (rnd (rnd ?q * 100))"
    by (rule f64_of_rat_small) (use rnd in simp)
  ultimately have "success_rate s t = Fin (rnd (rnd ?q * 100))"
    using assms(3) by (simp add: success_rate_def ints)
  moreover have "0 \<le> rnd (rnd ?q * 100)" "rnd (rnd ?q * 100) \<le> 100"
    using rnd_nonneg [of "rnd ?q * 100"] rnd_mono [of "rnd ?q * 100" 100] rnd rnd_of_int [of 100] by simp_all
  moreover have "rnd (rnd ?q * 100) = 100" if "s = t"
    using that assms(3) rnd_of_int [of 100] rnd_of_int [of 1] by simp
  ultimately show ?thesis by auto
qed

text \<open>The printed average, in whole milliseconds, of a total over a number of requests.\<close>

lemma truncated_average:
  fixes t n :: int
  assumes "0 \<le> t" "0 < n"
  defines "a \<equiv> Duration_Truncate (t sdiv n) time_Millisecond"
  shows "0 \<le> a" "a mod time_Millisecond = 0" "a * n \<le> t" "t < (a + time_Millisecond) * n"
proof -
  have quot: "t sdiv n = t div n" using assms(1,2) by (rule sdiv_pos)
  have "0 \<le> t div n" using assms(1,2) by (simp add: pos_imp_zdiv_nonneg_iff)
  then have a: "a = t div n - (t div n) mod time_Millisecond"
    by (simp add: a_def quot Duration_Truncate_def smod_pos time_Millisecond_def)
  then have a': "a = (t div n) div time_Millisecond * time_Millisecond" by (simp add: minus_mod_eq_div_mult)
  show "0 \<le> a" "a mod time_Millisecond = 0"
    using \<open>0 \<le> t div n\<close> by (simp_all add: a' time_Millisecond_def)
  have le: "a \<le> t div n" "t div n < a + time_Millisecond" by (simp_all add: a time_Millisecond_def)
  have "a * n \<le> t div n * n" using le(1) assms(2) by simp
  also have "\<dots> \<le> t" using assms(2) by (simp add: minus_mod_eq_div_mult [symmetric])
  finally show "a * n \<le> t" .
  have "t < (t div n + 1) * n"
    using pos_mod_bound [OF assms(2), of t] div_mult_mod_eq [of t n] unfolding distrib_right by linarith
  also have "\<dots> \<le> (a + time_Millisecond) * n" using le(2) assms(2) by simp
  finally show "t < (a + time_Millisecond) * n" .
qed

text \<open>The reports for statistics that add up.\<close>

lemma reported_rate:
  assumes "0 < totalRequests st" "totalRequests st < 2 ^ 53" "0 \<le> successRequests st" "0 \<le> failedRequests st"
    "totalRequests st = successRequests st + failedRequests st"
  shows "\<exists>r f. fr_rates (printFinalStats st d) = Some (Fin r, f) \<and> lr_successRate (printLiveStats e st) = Fin r \<and>
    0 \<le> r \<and> r \<le> 100 \<and> (failedRequests st = 0 \<longrightarrow> r = 100) \<and> (successRequests st = 0 \<longrightarrow> r = 0)"
proof -
  obtain r where "success_rate (successRequests st) (totalRequests st) = Fin r" "0 \<le> r" "r \<le> 100"
      "successRequests st = totalRequests st \<longrightarrow> r = 100" "successRequests st = 0 \<longrightarrow> r = 0"
    using success_rate_range [of "successRequests st" "totalRequests st"] assms by auto
  moreover from this(1) assms(1)
  have "fr_rates (printFinalStats st d) = Some (Fin r, f64_div (f64_of_int (totalRequests st)) (Duration_Seconds d))"
      "lr_successRate (printLiveStats e st) = Fin r"
    by (simp_all add: printFinalStats_def printLiveStats_def Let_def)
  moreover have "successRequests st = totalRequests st" if "failedRequests st = 0" using that assms(5) by simp
  ultimately show ?thesis by blast
qed

lemma reported_averages:
  assumes "0 < successRequests st" "0 \<le> totalSolveTime st" "0 \<le> totalRoundTrip st"
  shows "\<exists>a b. fr_averages (printFinalStats st d) = Some (a, b) \<and> a mod time_Millisecond = 0 \<and> b mod time_Millisecond = 0 \<and>
    a * successRequests st \<le> totalSolveTime st \<and> totalSolveTime st < (a + time_Millisecond) * successRequests st \<and>
    b * successRequests st \<le> totalRoundTrip st \<and> totalRoundTrip st < (b + time_Millisecond) * successRequests st"
  using truncated_average [OF assms(2,1)] truncated_average [OF assms(3,1)] assms(1)
  by (simp add: printFinalStats_def Let_def)

end
