(* ===== verification/Load_Main.thy ===== *)
theory Load_Main
  imports Load_Report
begin

text \<open>
  \<^verbatim>\<open>main\<close> of \<^verbatim>\<open>cmd/loadtest/main.go\<close> with all its goroutines as one step relation: \<^verbatim>\<open>main\<close> itself, the
  workers, the one that waits for a signal and the one that prints live statistics. They share
  the context, the wait group and the statistics, which are read and added to one counter at a
  time.
\<close>

section \<open>Definitions\<close>

datatype load_pc =
    M_Start nat
  | M_Sleep nat
  | M_Select
  | M_Wait
  | M_Report final_report

text \<open>
  The printing goroutine: it has not started, waits for its ticker, or has loaded the first \<open>n\<close>
  counters, each with an atomic load of its own.
\<close>

datatype printer_pc =
    P_Off
  | P_Select
  | P_Loaded duration nat load_Stats
  | P_Return

text \<open>
  The state of the program. \<open>lm_delay\<close> is \<^verbatim>\<open>workerDelay\<close>; \<open>lm_slept\<close> is how long \<^verbatim>\<open>main\<close> has slept in its
  ramp-up loop, where every \<^verbatim>\<open>time.Sleep\<close> takes at least the delay.
\<close>

record load_main =
  lm_pc :: load_pc
  lm_delay :: duration
  lm_slept :: duration
  lm_stats :: load_Stats
  lm_cancelled :: bool
  lm_wg :: nat
  lm_workers :: "worker_pc list"
  lm_signalled :: bool
  lm_printer :: printer_pc
  lm_live :: "live_report list"

definition stats_zero :: load_Stats where
  "stats_zero = \<lparr>totalRequests = 0, successRequests = 0, failedRequests = 0, totalSolveTime = 0, totalRoundTrip = 0\<rparr>"

definition load_init :: "duration \<Rightarrow> load_main" where
  "load_init delay = \<lparr>lm_pc = M_Start 0, lm_delay = delay, lm_slept = 0, lm_stats = stats_zero, lm_cancelled = False, lm_wg = 0, lm_workers = [],
     lm_signalled = False, lm_printer = P_Off, lm_live = []\<rparr>"

text \<open>\<^verbatim>\<open>main\<close> up to its loop: the division panics for no workers.\<close>

definition load_start :: "int \<Rightarrow> duration \<Rightarrow> load_main option" where
  "load_start workers rampUp = map_option load_init (workerDelay rampUp workers)"

text \<open>The loads of one live line, in order; the two times are read only if there was a success.\<close>

fun live_load :: "nat \<Rightarrow> load_Stats \<Rightarrow> load_Stats \<Rightarrow> load_Stats" where
  "live_load 0 st snap = snap\<lparr>totalRequests := totalRequests st\<rparr>"
| "live_load (Suc 0) st snap = snap\<lparr>successRequests := successRequests st\<rparr>"
| "live_load (Suc (Suc 0)) st snap = snap\<lparr>failedRequests := failedRequests st\<rparr>"
| "live_load (Suc (Suc (Suc 0))) st snap = snap\<lparr>totalSolveTime := totalSolveTime st\<rparr>"
| "live_load _ st snap = snap\<lparr>totalRoundTrip := totalRoundTrip st\<rparr>"

definition live_loads :: "load_Stats \<Rightarrow> nat" where
  "live_loads snap = (if successRequests snap > 0 then 5 else 3)"

datatype load_event = Ev_Main | Ev_Worker nat "stat_add option" | Ev_Signal | Ev_Printer

definition add_opt :: "stat_add option \<Rightarrow> load_Stats \<Rightarrow> load_Stats" where
  "add_opt a st = (case a of None \<Rightarrow> st | Some a \<Rightarrow> apply_add a st)"

fun reported :: "load_pc \<Rightarrow> bool" where
  "reported (M_Report rep) = True"
| "reported _ = False"

inductive load_step :: "int \<Rightarrow> duration \<Rightarrow> load_main \<Rightarrow> load_event \<Rightarrow> load_main \<Rightarrow> bool" for workers duration where
  Start: "lm_pc s = M_Start i \<Longrightarrow> int i < workers \<Longrightarrow>
     load_step workers duration s Ev_Main
       (s\<lparr>lm_wg := lm_wg s + 1, lm_workers := lm_workers s @ [W_Top],
          lm_pc := (if int i < workers - 1 then M_Sleep (Suc i) else M_Start (Suc i))\<rparr>)"
| Slept: "lm_pc s = M_Sleep i \<Longrightarrow> 0 \<le> d \<Longrightarrow> lm_delay s \<le> d \<Longrightarrow>
     load_step workers duration s Ev_Main (s\<lparr>lm_pc := M_Start i, lm_slept := lm_slept s + d\<rparr>)"
| Started: "lm_pc s = M_Start i \<Longrightarrow> \<not> int i < workers \<Longrightarrow>
     load_step workers duration s Ev_Main (s\<lparr>lm_printer := P_Select, lm_pc := M_Select\<rparr>)"
| Selected_Done: "lm_pc s = M_Select \<Longrightarrow> lm_cancelled s \<Longrightarrow>
     load_step workers duration s Ev_Main (s\<lparr>lm_pc := M_Wait\<rparr>)"
| Selected_After: "lm_pc s = M_Select \<Longrightarrow>
     load_step workers duration s Ev_Main (s\<lparr>lm_cancelled := True, lm_pc := M_Wait\<rparr>)"
| Waited: "lm_pc s = M_Wait \<Longrightarrow> lm_wg s = 0 \<Longrightarrow>
     load_step workers duration s Ev_Main (s\<lparr>lm_pc := M_Report (printFinalStats (lm_stats s) since)\<rparr>)"
| Worker: "i < length (lm_workers s) \<Longrightarrow> worker_step duration (lm_cancelled s) (lm_workers s ! i) a pc \<Longrightarrow>
     load_step workers duration s (Ev_Worker i a)
       (s\<lparr>lm_workers := (lm_workers s)[i := pc], lm_stats := add_opt a (lm_stats s),
          lm_wg := (if pc = W_Return then lm_wg s - 1 else lm_wg s)\<rparr>)"
| Signal: "\<not> reported (lm_pc s) \<Longrightarrow> \<not> lm_signalled s \<Longrightarrow>
     load_step workers duration s Ev_Signal (s\<lparr>lm_signalled := True, lm_cancelled := True\<rparr>)"
| Print_Done: "\<not> reported (lm_pc s) \<Longrightarrow> lm_printer s = P_Select \<Longrightarrow> lm_cancelled s \<Longrightarrow>
     load_step workers duration s Ev_Printer (s\<lparr>lm_printer := P_Return\<rparr>)"
| Print_Tick: "\<not> reported (lm_pc s) \<Longrightarrow> lm_printer s = P_Select \<Longrightarrow>
     load_step workers duration s Ev_Printer (s\<lparr>lm_printer := P_Loaded since 0 stats_zero\<rparr>)"
| Print_Load: "\<not> reported (lm_pc s) \<Longrightarrow> lm_printer s = P_Loaded since n snap \<Longrightarrow> n < live_loads snap \<Longrightarrow>
     load_step workers duration s Ev_Printer (s\<lparr>lm_printer := P_Loaded since (Suc n) (live_load n (lm_stats s) snap)\<rparr>)"
| Print_Line: "\<not> reported (lm_pc s) \<Longrightarrow> lm_printer s = P_Loaded since n snap \<Longrightarrow> n = live_loads snap \<Longrightarrow>
     load_step workers duration s Ev_Printer (s\<lparr>lm_live := lm_live s @ [printLiveStats since snap], lm_printer := P_Select\<rparr>)"

text \<open>The additions of an execution.\<close>

fun event_add :: "load_event \<Rightarrow> stat_add option" where
  "event_add (Ev_Worker i a) = a"
| "event_add _ = None"

definition adds_of :: "load_event list \<Rightarrow> stat_add list" where
  "adds_of es = List.map_filter event_add es"

section \<open>Lemmas\<close>

inductive_cases load_stepE: "load_step workers duration s e s'"

subsection \<open>Sums over the workers\<close>

lemma sum_list_update_int:
  fixes f :: "'a \<Rightarrow> int"
  shows "i < length xs \<Longrightarrow> sum_list (map f (xs[i := y])) = sum_list (map f xs) - f (xs ! i) + f y"
proof (induction xs arbitrary: i)
  case (Cons x xs)
  then show ?case by (cases i) auto
qed simp

lemma sum_list_update_less:
  fixes f :: "'a \<Rightarrow> nat"
  shows "i < length xs \<Longrightarrow> f y < f (xs ! i) \<Longrightarrow> sum_list (map f (xs[i := y])) < sum_list (map f xs)"
proof (induction xs arbitrary: i)
  case (Cons x xs)
  then show ?case by (cases i) auto
qed simp

text \<open>The wait group counts the workers that have not returned.\<close>

definition running :: "worker_pc \<Rightarrow> int" where
  "running pc = (if pc = W_Return then 0 else 1)"

lemma running_positive:
  assumes "i < length ws" "ws ! i \<noteq> W_Return"
  shows "0 < sum_list (map running ws)"
proof -
  have "0 \<le> sum_list (map running (ws[i := W_Return]))" by (rule sum_list_nonneg) (auto simp: running_def)
  then show ?thesis using assms by (simp add: sum_list_update_int running_def)
qed

lemma running_zero:
  assumes "sum_list (map running ws) = 0"
  shows "list_all (\<lambda>pc. pc = W_Return) ws"
  using assms running_positive unfolding list_all_length by fastforce

lemma running_returned: "list_all (\<lambda>pc. pc = W_Return) ws \<Longrightarrow> sum_list (map running ws) = 0"
  by (induction ws) (simp_all add: running_def)

subsection \<open>Invariants\<close>

text \<open>How many workers there are, by where \<^verbatim>\<open>main\<close> is.\<close>

fun started_workers :: "int \<Rightarrow> load_pc \<Rightarrow> nat \<Rightarrow> bool" where
  "started_workers workers (M_Start i) n \<longleftrightarrow> n = i \<and> i \<le> nat workers"
| "started_workers workers (M_Sleep i) n \<longleftrightarrow> n = i \<and> i \<le> nat workers"
| "started_workers workers _ n \<longleftrightarrow> n = nat workers"

definition load_inv :: "int \<Rightarrow> load_main \<Rightarrow> bool" where
  "load_inv workers s \<longleftrightarrow>
     started_workers workers (lm_pc s) (length (lm_workers s)) \<and>
     int (lm_wg s) = sum_list (map running (lm_workers s)) \<and> list_all no_failure (lm_workers s) \<and>
     (case lm_pc s of M_Report rep \<Rightarrow> lm_wg s = 0 \<and> (\<exists>since. rep = printFinalStats (lm_stats s) since) | _ \<Rightarrow> True)"

lemma worker_step_inv:
  assumes "load_inv workers s" "i < length (lm_workers s)"
    and step: "worker_step duration (lm_cancelled s) (lm_workers s ! i) a pc"
  shows "load_inv workers (s\<lparr>lm_workers := (lm_workers s)[i := pc], lm_stats := add_opt a (lm_stats s),
      lm_wg := (if pc = W_Return then lm_wg s - 1 else lm_wg s)\<rparr>)"
proof -
  have not_yet: "lm_workers s ! i \<noteq> W_Return" using step worker_returns_once by metis
  have wg: "int (lm_wg s) = sum_list (map running (lm_workers s))" "list_all no_failure (lm_workers s)"
    using assms(1) by (simp_all add: load_inv_def)
  have "0 < lm_wg s" using running_positive [OF assms(2) not_yet] wg by simp
  moreover from this have "\<not> reported (lm_pc s)" using assms(1) by (cases "lm_pc s") (auto simp: load_inv_def)
  moreover have "no_failure pc"
    using worker_step_owed [OF step] wg(2) assms(2) by (simp add: list_all_length)
  moreover from this have "list_all no_failure ((lm_workers s)[i := pc])"
    using wg(2) by (auto simp: list_all_iff dest: set_update_subset_insert [THEN subsetD])
  ultimately show ?thesis
    using assms(1,2) not_yet wg(1)
    by (cases "lm_pc s") (auto simp: load_inv_def sum_list_update_int running_def of_nat_diff)
qed

lemma load_step_inv:
  assumes "load_step workers duration s e s'" "load_inv workers s"
  shows "load_inv workers s'"
  using assms
proof (cases rule: load_step.cases)
  case (Worker i a pc)
  then show ?thesis using worker_step_inv [OF assms(2)] by simp
qed (auto simp: load_inv_def running_def split: load_pc.splits)

lemma load_runs_inv: "runs (load_step workers duration) (load_init delay) es s \<Longrightarrow> load_inv workers s"
  by (erule runs_inv) (auto simp: load_inv_def load_init_def dest: load_step_inv)

subsection \<open>The statistics\<close>

lemma adds_of_simps [simp]:
  "adds_of [] = []"
  "adds_of (es @ [e]) = adds_of es @ (case event_add e of None \<Rightarrow> [] | Some a \<Rightarrow> [a])"
  by (auto simp: adds_of_def List.map_filter_def split: option.split)

lemma length_adds_of: "length (adds_of es) \<le> length es"
  by (simp add: adds_of_def List.map_filter_def)

text \<open>They are the sum of the additions so far, and what is not yet balanced is owed by a worker.\<close>

lemma load_stats_fold:
  assumes "runs (load_step workers duration) (load_init delay) es s"
  shows "lm_stats s = fold apply_add (adds_of es) stats_zero"
  using assms
proof (induction "load_init delay" es s rule: runs.induct)
  case Nil
  show ?case by (simp add: load_init_def)
next
  case (Snoc es s e s')
  from \<open>load_step workers duration s e s'\<close> show ?case
    by (cases rule: load_step.cases) (use Snoc in \<open>auto simp: add_opt_def split: option.split\<close>)
qed

definition balance :: "stat_add list \<Rightarrow> int" where
  "balance as = sum_list (map (\<lambda>a. finished (Some a)) as)"

lemma balance_counts:
  "balance as = int (count_list as Add_Success) + int (count_list as Add_Failed) - int (count_list as Add_Total)"
proof (induction as)
  case (Cons a as)
  then show ?case by (cases a) (simp_all add: balance_def)
qed (simp add: balance_def)

lemma load_balance:
  assumes "runs (load_step workers duration) (load_init delay) es s"
  shows "sum_list (map owed (lm_workers s)) + balance (adds_of es) = 0"
  using assms
proof (induction "load_init delay" es s rule: runs.induct)
  case Nil
  show ?case by (simp add: load_init_def balance_def)
next
  case (Snoc es s e s')
  have inv: "load_inv workers s" using Snoc by (simp add: load_runs_inv)
  from \<open>load_step workers duration s e s'\<close> show ?case
  proof (cases rule: load_step.cases)
    case (Worker i a pc)
    then have "owed (lm_workers s ! i) = owed pc + finished a"
      using worker_step_owed inv by (simp add: load_inv_def list_all_length)
    moreover have "balance (adds_of (es @ [e])) = balance (adds_of es) + finished a"
      using Worker by (simp add: balance_def split: option.split)
    ultimately show ?thesis using Worker Snoc.hyps(2) by (simp add: sum_list_update_int)
  qed (use Snoc in auto)
qed

lemma owed_returned: "list_all (\<lambda>pc. pc = W_Return) ws \<Longrightarrow> sum_list (map owed ws) = 0"
  by (induction ws) auto

text \<open>No counter wraps before it has seen 2 ^ 63 additions, and no sum of times before it reaches that many nanoseconds.\<close>

lemma int64_add_exact: "0 \<le> a + b \<Longrightarrow> a + b < 2 ^ 63 \<Longrightarrow> int64_add a b = a + b"
  unfolding int64_add_def signed_of_int by (simp add: signed_take_bit_int_eq_self)

fun solve_time :: "stat_add \<Rightarrow> int" where
  "solve_time (Add_SolveTime d) = d"
| "solve_time _ = 0"

fun round_trip :: "stat_add \<Rightarrow> int" where
  "round_trip (Add_RoundTrip d) = d"
| "round_trip _ = 0"

lemma fold_counts:
  assumes "int (length as) < 2 ^ 63"
  defines "st \<equiv> fold apply_add as stats_zero"
  shows "totalRequests st = int (count_list as Add_Total) \<and> successRequests st = int (count_list as Add_Success) \<and>
    failedRequests st = int (count_list as Add_Failed)"
  unfolding st_def using assms(1)
proof (induction as rule: rev_induct)
  case Nil
  show ?case by (simp add: stats_zero_def)
next
  case (snoc a as)
  have "count_list as x \<le> length as" for x by (rule count_le_length)
  then have "int (count_list as x) + 1 < 2 ^ 63" for x
    using snoc.prems by (simp add: order.strict_trans1 [of _ "int (length as) + 1"])
  then show ?case using snoc by (cases a) (simp_all add: int64_add_exact)
qed

lemma fold_times:
  assumes "list_all (\<lambda>a. 0 \<le> solve_time a \<and> 0 \<le> round_trip a) as"
    "sum_list (map solve_time as) < 2 ^ 63" "sum_list (map round_trip as) < 2 ^ 63"
  defines "st \<equiv> fold apply_add as stats_zero"
  shows "totalSolveTime st = sum_list (map solve_time as) \<and> totalRoundTrip st = sum_list (map round_trip as) \<and>
    0 \<le> sum_list (map solve_time as) \<and> 0 \<le> sum_list (map round_trip as)"
  unfolding st_def using assms(1-3)
proof (induction as rule: rev_induct)
  case Nil
  show ?case by (simp add: stats_zero_def)
next
  case (snoc a as)
  then have "0 \<le> solve_time a" "0 \<le> round_trip a" by simp_all
  then show ?case using snoc by (cases a) (simp_all add: int64_add_exact)
qed

subsection \<open>The ramp-up\<close>

text \<open>Between the starts of two workers \<^verbatim>\<open>main\<close> sleeps for the delay at least.\<close>

definition ramp_inv :: "int \<Rightarrow> load_main \<Rightarrow> bool" where
  "ramp_inv workers s \<longleftrightarrow> (int (length (lm_workers s)) - 1) * lm_delay s \<le> lm_slept s \<and>
     (\<forall>i. lm_pc s = M_Start i \<and> int i < workers \<longrightarrow> int i * lm_delay s \<le> lm_slept s)"

lemma ramp_step:
  assumes "load_step workers duration s e s'" "load_inv workers s" "ramp_inv workers s" "0 \<le> lm_delay s"
  shows "ramp_inv workers s' \<and> lm_delay s' = lm_delay s"
  using assms(1)
proof (cases rule: load_step.cases)
  case (Start i)
  then show ?thesis using assms(2,3) by (auto simp: ramp_inv_def load_inv_def)
next
  case (Slept i d)
  have "(int i - 1) * lm_delay s \<le> lm_slept s" "length (lm_workers s) = i"
    using assms(2,3) Slept by (simp_all add: ramp_inv_def load_inv_def)
  then show ?thesis using Slept assms(4) by (simp add: ramp_inv_def algebra_simps)
qed (use assms(3) in \<open>auto simp: ramp_inv_def\<close>)

lemma load_runs_ramp:
  assumes "runs (load_step workers duration) (load_init delay) es s" "0 \<le> delay"
  shows "ramp_inv workers s \<and> lm_delay s = delay"
  using assms
proof (induction "load_init delay" es s rule: runs.induct)
  case (Snoc es s e s')
  then show ?case using ramp_step [OF Snoc.hyps(3) load_runs_inv [OF Snoc.hyps(1)]] by simp
qed (simp add: ramp_inv_def load_init_def)

subsection \<open>Termination\<close>

text \<open>The steps that bring the program to its end: those of \<^verbatim>\<open>main\<close> and of the workers.\<close>

fun is_work :: "load_event \<Rightarrow> bool" where
  "is_work Ev_Main = True"
| "is_work (Ev_Worker i a) = True"
| "is_work _ = False"

fun pc_weight :: "int \<Rightarrow> load_pc \<Rightarrow> nat" where
  "pc_weight workers (M_Start i) = 3 + 3 * (nat workers - i)"
| "pc_weight workers (M_Sleep i) = 4 + 3 * (nat workers - i)"
| "pc_weight workers M_Select = 2"
| "pc_weight workers M_Wait = 1"
| "pc_weight workers (M_Report rep) = 0"

definition load_weight :: "int \<Rightarrow> load_main \<Rightarrow> nat" where
  "load_weight workers s = pc_weight workers (lm_pc s) + sum_list (map worker_weight (lm_workers s))"

lemma start_weight:
  "int i < workers \<Longrightarrow> pc_weight workers (if int i < workers - 1 then M_Sleep (Suc i) else M_Start (Suc i)) + 1 < pc_weight workers (M_Start i)"
  by auto

lemma load_step_weight:
  assumes "load_step workers duration s e s'" "lm_cancelled s"
  shows "lm_cancelled s' \<and> load_weight workers s' + (if is_work e then 1 else 0) \<le> load_weight workers s"
  using assms
proof (cases rule: load_step.cases)
  case (Start i)
  then show ?thesis using start_weight [of i workers] assms(2) by (simp add: load_weight_def)
next
  case (Worker i a pc)
  then have "worker_weight pc < worker_weight (lm_workers s ! i)"
    using worker_step_weight assms(2) by simp
  then show ?thesis
    using sum_list_update_less [of i "lm_workers s" worker_weight pc] Worker assms(2) by (simp add: load_weight_def)
qed (auto simp: load_weight_def)

lemma load_runs_weight:
  assumes "runs (load_step workers duration) s es s'" "lm_cancelled s"
  shows "lm_cancelled s' \<and> load_weight workers s' + length (filter is_work es) \<le> load_weight workers s"
  using assms
proof (induction rule: runs.induct)
  case (Snoc s es s' e s'')
  then show ?case using load_step_weight [OF Snoc(2)] by auto
qed simp

lemma load_can_step:
  assumes "load_inv workers s" "\<not> reported (lm_pc s)"
  shows "\<exists>e s'. is_work e \<and> load_step workers duration s e s'"
proof (cases "lm_pc s")
  case (M_Start i)
  then show ?thesis
    using load_step.Start [of s i workers duration] load_step.Started [of s i workers duration]
    by (cases "int i < workers") (meson is_work.simps)+
next
  case M_Wait
  show ?thesis
  proof (cases "lm_wg s = 0")
    case True
    then show ?thesis using load_step.Waited [OF M_Wait] by (meson is_work.simps)
  next
    case False
    then have "\<not> list_all (\<lambda>pc. pc = W_Return) (lm_workers s)"
      using assms(1) running_returned [of "lm_workers s"] by (auto simp: load_inv_def)
    then obtain i where "i < length (lm_workers s)" "lm_workers s ! i \<noteq> W_Return"
      by (auto simp: list_all_length)
    then show ?thesis
      using worker_can_step load_step.Worker by (meson is_work.simps)
  qed
next
  case (M_Sleep i)
  have "0 \<le> max 0 (lm_delay s)" "lm_delay s \<le> max 0 (lm_delay s)" by simp_all
  then show ?thesis using load_step.Slept [OF M_Sleep] by (meson is_work.simps)
next
  case M_Select
  show ?thesis using load_step.Selected_After [OF M_Select] by (meson is_work.simps)
qed (use assms(2) in simp)

subsection \<open>Executions\<close>

text \<open>The steps on states that are written out, for concrete executions.\<close>

definition load_at :: "load_pc \<Rightarrow> load_Stats \<Rightarrow> bool \<Rightarrow> nat \<Rightarrow> worker_pc list \<Rightarrow> printer_pc \<Rightarrow> live_report list \<Rightarrow> load_main" where
  "load_at pc st cancelled wg ws printer live = \<lparr>lm_pc = pc, lm_delay = 0, lm_slept = 0, lm_stats = st, lm_cancelled = cancelled, lm_wg = wg,
     lm_workers = ws, lm_signalled = False, lm_printer = printer, lm_live = live\<rparr>"

lemma load_init_at: "load_init 0 = load_at (M_Start 0) stats_zero False 0 [] P_Off []"
  by (simp add: load_init_def load_at_def)

lemma load_at_main:
  "int i < n \<Longrightarrow> load_step n d (load_at (M_Start i) st c wg ws pr live) Ev_Main
     (load_at (if int i < n - 1 then M_Sleep (Suc i) else M_Start (Suc i)) st c (wg + 1) (ws @ [W_Top]) pr live)"
  "load_step n d (load_at (M_Sleep i) st c wg ws pr live) Ev_Main (load_at (M_Start i) st c wg ws pr live)"
  "\<not> int i < n \<Longrightarrow> load_step n d (load_at (M_Start i) st c wg ws pr live) Ev_Main (load_at M_Select st c wg ws P_Select live)"
  "load_step n d (load_at M_Select st c wg ws pr live) Ev_Main (load_at M_Wait st True wg ws pr live)"
  "load_step n d (load_at M_Wait st c 0 ws pr live) Ev_Main (load_at (M_Report (printFinalStats st since)) st c 0 ws pr live)"
  using load_step.Start [of "load_at (M_Start i) st c wg ws pr live" i n d]
    load_step.Slept [of "load_at (M_Sleep i) st c wg ws pr live" i 0 n d]
    load_step.Started [of "load_at (M_Start i) st c wg ws pr live" i n d]
    load_step.Selected_After [of "load_at M_Select st c wg ws pr live" n d]
    load_step.Waited [of "load_at M_Wait st c 0 ws pr live" n d since]
  by (simp_all add: load_at_def)

lemma load_at_worker:
  assumes "i < length ws" "worker_step d c (ws ! i) a w"
  shows "load_step n d (load_at pc st c wg ws pr live) (Ev_Worker i a)
    (load_at pc (add_opt a st) c (if w = W_Return then wg - 1 else wg) (ws[i := w]) pr live)"
  using load_step.Worker [of i "load_at pc st c wg ws pr live" d a w n] assms by (simp add: load_at_def cong: if_cong)

lemma load_at_printer:
  assumes "\<not> reported pc"
  shows "load_step n d (load_at pc st c wg ws P_Select live) Ev_Printer (load_at pc st c wg ws (P_Loaded since 0 stats_zero) live)"
    "k < live_loads snap \<Longrightarrow> load_step n d (load_at pc st c wg ws (P_Loaded since k snap) live) Ev_Printer
       (load_at pc st c wg ws (P_Loaded since (Suc k) (live_load k st snap)) live)"
    "k = live_loads snap \<Longrightarrow> load_step n d (load_at pc st c wg ws (P_Loaded since k snap) live) Ev_Printer
       (load_at pc st c wg ws P_Select (live @ [printLiveStats since snap]))"
  using assms load_step.Print_Tick [of "load_at pc st c wg ws P_Select live" n d since]
    load_step.Print_Load [of "load_at pc st c wg ws (P_Loaded since k snap) live" since k snap n d]
    load_step.Print_Line [of "load_at pc st c wg ws (P_Loaded since k snap) live" since k snap n d]
  by (simp_all add: load_at_def)

lemma request_runs:
  assumes "i < length ws" "ws ! i = W_Request (as @ bs) err"
  shows "runs (load_step n d) (load_at pc st c wg ws pr live) (map (\<lambda>a. Ev_Worker i (Some a)) as)
    (load_at pc (fold apply_add as st) c wg (ws[i := W_Request bs err]) pr live)"
  using assms
proof (induction as arbitrary: ws st)
  case Nil
  then show ?case by (simp add: list_update_same_conv [THEN iffD2] runs.Nil)
next
  case (Cons a as)
  have "load_step n d (load_at pc st c wg ws pr live) (Ev_Worker i (Some a))
      (load_at pc (apply_add a st) c wg (ws[i := W_Request (as @ bs) err]) pr live)"
    using load_at_worker [of i ws d c "Some a" "W_Request (as @ bs) err"] Cons.prems
    by (simp add: add_opt_def worker_step.Add)
  then show ?case
    using runs_Cons [OF _ Cons.IH [of "ws[i := W_Request (as @ bs) err]" "apply_add a st"]] Cons.prems by simp
qed

text \<open>One worker whose only request cannot connect; then the time is over.\<close>

definition ex_load_stats :: load_Stats where
  "ex_load_stats = stats_zero\<lparr>totalRequests := 1, failedRequests := 1\<rparr>"

text \<open>A connection that is closed by the peer at once, for a worker that never gets to use one.\<close>

definition closed_world :: world where
  "closed_world =
    \<lparr>w_reader = \<lparr>rd_data = [], rd_err = io_EOF\<rparr>, w_writes = (\<lambda>_. (0, Some io_EOF)), w_deadlines = (\<lambda>_. None),
     w_clock = (\<lambda>_. 0), w_rand = (\<lambda>_. Rand_Bytes (\<lambda>_. 0)), w_randint = (\<lambda>_. Rand_Int_Value 0), w_ctx = (\<lambda>_. None),
     n_writes = 0, n_deadlines = 0, n_clock = 0, n_rand = 0, n_randint = 0, n_ctx = 0, w_sent = [],
     w_readDeadline = None, w_writeDeadline = None, w_metrics = [], w_trace = []\<rparr>"

lemma ex_request_begins:
  "worker_step time_Second False W_Top None (W_Request [Add_Total] (Some (Errorf ''connect: '' io_EOF [])))"
proof -
  obtain s where "run_state (doRequest (Some io_EOF) (\<lambda>_. None)) (world.extend closed_world \<lparr>ld_adds = []\<rparr>) =
      (Some (Errorf ''connect: '' io_EOF []), s)" "ld_adds s = [Add_Total]"
    by (simp add: doRequest_def time_Now_def stats_add_def world.defs load_worker.defs closed_world_def)
  then show ?thesis
    using worker_step.Begin [of False 0 time_Second "Some io_EOF" "\<lambda>_. None" closed_world] by simp
qed

lemma ex_load_runs:
  "runs (load_step 1 time_Second) (load_init 0)
     [Ev_Main, Ev_Worker 0 None, Ev_Worker 0 (Some Add_Total), Ev_Worker 0 (Some Add_Failed), Ev_Main, Ev_Main,
      Ev_Worker 0 None, Ev_Main]
     (load_at (M_Report (printFinalStats ex_load_stats time_Second)) ex_load_stats True 0 [W_Return] P_Select [])"
proof -
  let ?step = "load_step 1 time_Second" and ?e = "Some (Errorf ''connect: '' io_EOF [])"
  let ?st = "stats_zero\<lparr>totalRequests := 1\<rparr>"
  have 1: "?step (load_init 0) Ev_Main (load_at (M_Start 1) stats_zero False 1 [W_Top] P_Off [])"
    using load_at_main(1) [of 0 1 time_Second stats_zero False 0 "[]" P_Off "[]"] by (simp add: load_init_at)
  have 2: "?step (load_at (M_Start 1) stats_zero False 1 [W_Top] P_Off []) (Ev_Worker 0 None)
      (load_at (M_Start 1) stats_zero False 1 [W_Request [Add_Total] ?e] P_Off [])"
    using load_at_worker [of 0 "[W_Top]" time_Second False None] ex_request_begins by (fastforce simp: add_opt_def)
  have 3: "?step (load_at (M_Start 1) stats_zero False 1 [W_Request [Add_Total] ?e] P_Off []) (Ev_Worker 0 (Some Add_Total))
      (load_at (M_Start 1) ?st False 1 [W_Request [] ?e] P_Off [])"
    using load_at_worker [of 0 "[W_Request [Add_Total] ?e]" time_Second False "Some Add_Total" "W_Request [] ?e" 1 "M_Start 1" stats_zero]
    by (simp add: worker_step.Add add_opt_def int64_add_exact stats_zero_def)
  have 4: "?step (load_at (M_Start 1) ?st False 1 [W_Request [] ?e] P_Off []) (Ev_Worker 0 (Some Add_Failed))
      (load_at (M_Start 1) ex_load_stats False 1 [W_Pause] P_Off [])"
    using load_at_worker [of 0 "[W_Request [] ?e]" time_Second False "Some Add_Failed" W_Pause 1 "M_Start 1" ?st]
    by (simp add: worker_step.Failed add_opt_def int64_add_exact stats_zero_def ex_load_stats_def)
  have 5: "?step (load_at (M_Start 1) ex_load_stats False 1 [W_Pause] P_Off []) Ev_Main
      (load_at M_Select ex_load_stats False 1 [W_Pause] P_Select [])"
    by (rule load_at_main(3)) simp
  have 6: "?step (load_at M_Wait ex_load_stats True 1 [W_Pause] P_Select []) (Ev_Worker 0 None)
      (load_at M_Wait ex_load_stats True 0 [W_Return] P_Select [])"
    using load_at_worker [of 0 "[W_Pause]" time_Second True None W_Return 1 M_Wait ex_load_stats 1]
    by (simp add: worker_step.Cancelled add_opt_def)
  note on = runs_Cons [of ?step]
  show ?thesis
    by (rule on [OF 1], rule on [OF 2], rule on [OF 3], rule on [OF 4], rule on [OF 5], rule on [OF load_at_main(4)],
      rule on [OF 6], rule runs_step [of ?step], rule load_at_main(5))
qed

lemma load_start_iff: "load_start workers rampUp = Some s \<longleftrightarrow> workers \<noteq> 0 \<and> s = load_init (rampUp sdiv workers)"
  by (auto simp: load_start_def workerDelay_def)

text \<open>What a report says of the execution that ends with it.\<close>

lemma report_of_run:
  assumes run: "runs (load_step workers duration) (load_init delay) es s" and rep: "lm_pc s = M_Report rep" and len: "int (length es) < 2 ^ 53"
  defines "as \<equiv> adds_of es"
  obtains since where "rep = printFinalStats (lm_stats s) since" "lm_stats s = fold apply_add as stats_zero"
    "length (lm_workers s) = nat workers" "list_all (\<lambda>pc. pc = W_Return) (lm_workers s)"
    "totalRequests (lm_stats s) = int (count_list as Add_Total)" "successRequests (lm_stats s) = int (count_list as Add_Success)"
    "failedRequests (lm_stats s) = int (count_list as Add_Failed)"
    "totalRequests (lm_stats s) = successRequests (lm_stats s) + failedRequests (lm_stats s)" "totalRequests (lm_stats s) < 2 ^ 53"
proof -
  obtain since where inv: "rep = printFinalStats (lm_stats s) since" "length (lm_workers s) = nat workers"
      "sum_list (map running (lm_workers s)) = 0"
    using load_runs_inv [OF run] rep by (auto simp: load_inv_def)
  have returned: "list_all (\<lambda>pc. pc = W_Return) (lm_workers s)" using inv(3) by (rule running_zero)
  have st: "lm_stats s = fold apply_add as stats_zero" using load_stats_fold [OF run] by (simp add: as_def)
  have short: "int (length as) < 2 ^ 53" using length_adds_of [of es] len by (simp add: as_def)
  then have counts: "totalRequests (lm_stats s) = int (count_list as Add_Total)" "successRequests (lm_stats s) = int (count_list as Add_Success)"
      "failedRequests (lm_stats s) = int (count_list as Add_Failed)"
    using fold_counts [of as] unfolding st by simp_all
  have sums: "totalRequests (lm_stats s) = successRequests (lm_stats s) + failedRequests (lm_stats s)"
    using load_balance [OF run] owed_returned [OF returned] balance_counts [of as] by (simp add: counts as_def)
  have "count_list as Add_Total \<le> length as" by (rule count_le_length)
  then have "totalRequests (lm_stats s) < 2 ^ 53" using short counts(1) by linarith
  with inv(1) st inv(2) returned counts sums show thesis by (rule that)
qed

section \<open>Properties\<close>

text \<open>
  C37: The final report of the load test is right, however its workers, the signal and the printing
  goroutine interleave. When \<^verbatim>\<open>main\<close> reports, all workers have returned; the reported numbers are
  the requests that were begun, succeeded and failed in this execution, and every request is one
  of the latter. The success rate is between 0 and 100, and exact at both ends; the averages are
  whole milliseconds, less than one below the times measured in this execution divided by the
  number of successful requests.
\<close>

theorem load_test_report:
  assumes start: "load_start workers rampUp = Some s0" and run: "runs (load_step workers duration) s0 es s"
    and rep: "lm_pc s = M_Report rep" and len: "int (length es) < 2 ^ 53"
  defines "as \<equiv> adds_of es"
  shows "length (lm_workers s) = nat workers \<and> list_all (\<lambda>pc. pc = W_Return) (lm_workers s) \<and>
    fr_total rep = int (count_list as Add_Total) \<and> fr_success rep = int (count_list as Add_Success) \<and>
    fr_failed rep = int (count_list as Add_Failed) \<and> fr_total rep = fr_success rep + fr_failed rep \<and>
    (0 < fr_total rep \<longrightarrow> (\<exists>r f. fr_rates rep = Some (Fin r, f) \<and> 0 \<le> r \<and> r \<le> 100 \<and>
       (fr_failed rep = 0 \<longrightarrow> r = 100) \<and> (fr_success rep = 0 \<longrightarrow> r = 0))) \<and>
    (0 < fr_success rep \<and> list_all (\<lambda>a. 0 \<le> solve_time a \<and> 0 \<le> round_trip a) as \<and>
       sum_list (map solve_time as) < 2 ^ 63 \<and> sum_list (map round_trip as) < 2 ^ 63 \<longrightarrow>
       (\<exists>a b. fr_averages rep = Some (a, b) \<and> a mod time_Millisecond = 0 \<and> b mod time_Millisecond = 0 \<and>
         a * fr_success rep \<le> sum_list (map solve_time as) \<and>
         sum_list (map solve_time as) < (a + time_Millisecond) * fr_success rep \<and>
         b * fr_success rep \<le> sum_list (map round_trip as) \<and>
         sum_list (map round_trip as) < (b + time_Millisecond) * fr_success rep))"
proof -
  have "runs (load_step workers duration) (load_init (rampUp sdiv workers)) es s" using start run by (simp add: load_start_iff)
  then obtain since where r: "rep = printFinalStats (lm_stats s) since" "lm_stats s = fold apply_add as stats_zero"
    "length (lm_workers s) = nat workers" "list_all (\<lambda>pc. pc = W_Return) (lm_workers s)"
    "totalRequests (lm_stats s) = int (count_list as Add_Total)" "successRequests (lm_stats s) = int (count_list as Add_Success)"
    "failedRequests (lm_stats s) = int (count_list as Add_Failed)"
    "totalRequests (lm_stats s) = successRequests (lm_stats s) + failedRequests (lm_stats s)" "totalRequests (lm_stats s) < 2 ^ 53"
    unfolding as_def by (rule report_of_run [OF _ rep len])
  have fields: "fr_total rep = totalRequests (lm_stats s)" "fr_success rep = successRequests (lm_stats s)"
      "fr_failed rep = failedRequests (lm_stats s)"
    by (simp_all add: r(1) printFinalStats_def Let_def)
  have nonneg: "0 \<le> successRequests (lm_stats s)" "0 \<le> failedRequests (lm_stats s)" using r(6,7) by simp_all
  have "\<exists>r f. fr_rates rep = Some (Fin r, f) \<and> 0 \<le> r \<and> r \<le> 100 \<and>
      (fr_failed rep = 0 \<longrightarrow> r = 100) \<and> (fr_success rep = 0 \<longrightarrow> r = 0)" if "0 < fr_total rep"
    using reported_rate [OF _ r(9) nonneg r(8), of since, folded r(1)] that unfolding fields by blast
  moreover have "\<exists>a b. fr_averages rep = Some (a, b) \<and> a mod time_Millisecond = 0 \<and> b mod time_Millisecond = 0 \<and>
         a * fr_success rep \<le> sum_list (map solve_time as) \<and>
         sum_list (map solve_time as) < (a + time_Millisecond) * fr_success rep \<and>
         b * fr_success rep \<le> sum_list (map round_trip as) \<and>
         sum_list (map round_trip as) < (b + time_Millisecond) * fr_success rep"
    if "0 < fr_success rep" "list_all (\<lambda>a. 0 \<le> solve_time a \<and> 0 \<le> round_trip a) as"
       "sum_list (map solve_time as) < 2 ^ 63" "sum_list (map round_trip as) < 2 ^ 63"
    using reported_averages [of "lm_stats s" since, folded r(1)] fold_times [OF that(2-4), folded r(2)] that(1) unfolding fields by simp
  ultimately show ?thesis using r(3-8) unfolding fields by blast
qed

theorem load_test_report_witness:
  "\<exists>s rep. runs (load_step 1 time_Second) (load_init 0)
     [Ev_Main, Ev_Worker 0 None, Ev_Worker 0 (Some Add_Total), Ev_Worker 0 (Some Add_Failed), Ev_Main, Ev_Main,
      Ev_Worker 0 None, Ev_Main] s \<and> lm_pc s = M_Report rep \<and> fr_total rep = 1 \<and> fr_failed rep = 1"
proof -
  have start: "load_start 1 0 = Some (load_init 0)" by (simp add: load_start_iff)
  let ?s = "load_at (M_Report (printFinalStats ex_load_stats time_Second)) ex_load_stats True 0 [W_Return] P_Select []"
  have pc: "lm_pc ?s = M_Report (printFinalStats ex_load_stats time_Second)" by (simp add: load_at_def)
  show ?thesis
    using load_test_report [OF start ex_load_runs pc] ex_load_runs pc
    by (intro exI [of _ ?s] exI [of _ "printFinalStats ex_load_stats time_Second"]) (simp add: adds_of_def List.map_filter_def)
qed

text \<open>
  C38: The load test ends. In every state before the report \<^verbatim>\<open>main\<close> or a worker can make a step, so the
  program is never stuck; and once the context is cancelled, by a signal or by the timer, they
  make only finitely many more, at most the number that \<open>load_weight\<close> computes from the state.
  It starts unless the number of workers is 0, for which it panics. The workers are spread over
  the ramp-up: when \<open>n\<close> of them have been started, \<^verbatim>\<open>main\<close> has slept at least \<open>n - 1\<close> times the
  ramp-up time divided by the number of workers.
\<close>

theorem load_test_ends:
  assumes start: "load_start workers rampUp = Some s0" and run: "runs (load_step workers duration) s0 es s"
  shows "(reported (lm_pc s) \<or> (\<exists>e s'. is_work e \<and> load_step workers duration s e s')) \<and>
    (lm_cancelled s \<longrightarrow> (\<forall>es' s'. runs (load_step workers duration) s es' s' \<longrightarrow>
       length (filter is_work es') \<le> load_weight workers s)) \<and>
    workers \<noteq> 0 \<and>
    (0 < workers \<and> 0 \<le> rampUp \<longrightarrow> (int (length (lm_workers s)) - 1) * (rampUp div workers) \<le> lm_slept s)"
proof -
  have w: "workers \<noteq> 0" "runs (load_step workers duration) (load_init (rampUp sdiv workers)) es s"
    using start run by (simp_all add: load_start_iff)
  have "(int (length (lm_workers s)) - 1) * (rampUp div workers) \<le> lm_slept s" if "0 < workers" "0 \<le> rampUp"
    using load_runs_ramp [OF w(2)] that by (auto simp: sdiv_pos pos_imp_zdiv_nonneg_iff ramp_inv_def)
  moreover
  have "length (filter is_work es') \<le> load_weight workers s"
    if "lm_cancelled s" "runs (load_step workers duration) s es' s'" for es' s'
    using load_runs_weight [OF that(2,1)] by linarith
  ultimately show ?thesis
    using load_can_step [OF load_runs_inv [OF w(2)]] w(1) by blast
qed

theorem load_test_ends_witness:
  "\<exists>s. runs (load_step 1 time_Second) (load_init 0) [Ev_Signal] s \<and> lm_cancelled s \<and>
     (\<exists>e s'. is_work e \<and> load_step 1 time_Second s e s') \<and>
     (\<forall>es' s'. runs (load_step 1 time_Second) s es' s' \<longrightarrow> length (filter is_work es') \<le> 6)"
proof -
  let ?s = "(load_init 0)\<lparr>lm_signalled := True, lm_cancelled := True\<rparr>"
  have start: "load_start 1 0 = Some (load_init 0)" by (simp add: load_start_iff)
  have run: "runs (load_step 1 time_Second) (load_init 0) [Ev_Signal] ?s"
    by (rule runs_step, rule load_step.Signal) (simp_all add: load_init_def)
  have "load_weight 1 ?s = 6" "\<not> reported (lm_pc ?s)" "lm_cancelled ?s" by (simp_all add: load_weight_def load_init_def)
  then show ?thesis using load_test_ends [OF start run] run by (intro exI [of _ ?s]) auto
qed

end
