(* ===== verification/Load_Live.thy ===== *)
theory Load_Live
  imports Load_Main Conn_Properties Pow_Properties
begin

text \<open>
  The live line of the load test loads the counters one after the other while the workers go
  on. An execution of two workers, both served, in which the line shows more successful requests
  than requests.
\<close>

section \<open>Definitions\<close>

text \<open>A connection on which the example challenge and then a quote arrive.\<close>

definition served_world :: world where
  "served_world =
    \<lparr>w_reader = \<lparr>rd_data = frame_of (NewChallenge (Challenge_Marshal ex_challenge)) @ frame_of (NewQuote DefaultQuote),
                 rd_err = io_EOF\<rparr>,
     w_writes = (\<lambda>k. (if k = 0 then 3 else 101, None)), w_deadlines = (\<lambda>_. None), w_clock = (\<lambda>_. ex_time),
     w_rand = (\<lambda>_. Rand_Bytes (\<lambda>_. 0)), w_randint = (\<lambda>_. Rand_Int_Value 0), w_ctx = (\<lambda>_. None),
     n_writes = 0, n_deadlines = 0, n_clock = 0, n_rand = 0, n_randint = 0, n_ctx = 0,
     w_sent = [], w_readDeadline = None, w_writeDeadline = None, w_metrics = [], w_trace = []\<rparr>"

section \<open>Lemmas\<close>

lemma served_request:
  obtains s where "run_state (doRequest None (\<lambda>_. None)) (world.extend served_world \<lparr>ld_adds = []\<rparr>) = (None, s)"
    "ld_adds s = [Add_Total, Add_SolveTime 0, Add_Success, Add_RoundTrip 0]"
proof -
  note last_read = conn_ReadMessage_ok [where rest = "[]", simplified]
  have wf: "wf_solution ex_solution" "fits (NewQuote DefaultQuote)"
    using ex_solution_wf ex_quote(3) by simp_all
  show thesis
    by (rule that, simp add: doRequest_def time_Now_def SetDeadline_def stats_add_def conn_ReadMessage_ok last_read conn_WriteMessage_ok message_sizes
        client_message_sizes client_kinds wf Solve_example challenge_codec.dec_enc [OF ex_challenge_wf] served_world_def
        world.defs load_worker.defs time_Sub_def,
        simp)
qed

text \<open>A worker makes the first additions of a new request, and the printer the last loads of its line.\<close>

lemma begin_runs:
  assumes "i < length ws" "ws ! i = W_Top" "worker_step d c W_Top None (W_Request (as @ bs) err)"
  shows "runs (load_step n d) (load_at pc st c wg ws pr live) (Ev_Worker i None # map (\<lambda>a. Ev_Worker i (Some a)) as)
    (load_at pc (fold apply_add as st) c wg (ws[i := W_Request bs err]) pr live)"
proof -
  have "load_step n d (load_at pc st c wg ws pr live) (Ev_Worker i None)
      (load_at pc st c wg (ws[i := W_Request (as @ bs) err]) pr live)"
    using load_at_worker [OF assms(1), of d c None "W_Request (as @ bs) err" n pc st wg pr live] assms by (simp add: add_opt_def)
  moreover have "runs (load_step n d) (load_at pc st c wg (ws[i := W_Request (as @ bs) err]) pr live)
      (map (\<lambda>a. Ev_Worker i (Some a)) as) (load_at pc (fold apply_add as st) c wg (ws[i := W_Request bs err]) pr live)"
    using request_runs [of i "ws[i := W_Request (as @ bs) err]" as bs err] assms(1) by simp
  ultimately show ?thesis by (rule runs_Cons [of "load_step n d"])
qed

lemma line_runs:
  assumes "\<not> reported pc" "0 < successRequests st"
  shows "runs (load_step n d) (load_at pc st c wg ws (P_Loaded since 1 (stats_zero\<lparr>totalRequests := k\<rparr>)) live)
    [Ev_Printer, Ev_Printer, Ev_Printer, Ev_Printer, Ev_Printer]
    (load_at pc st c wg ws P_Select (live @ [printLiveStats since (st\<lparr>totalRequests := k\<rparr>)]))"
proof -
  define s1 s2 s3 s4 where "s1 = stats_zero\<lparr>totalRequests := k\<rparr>" and "s2 = live_load 1 st s1"
    and "s3 = live_load 2 st s2" and "s4 = live_load 3 st s3"
  note defs = s1_def s2_def s3_def s4_def numeral_eq_Suc
  have snap: "live_load 4 st s4 = st\<lparr>totalRequests := k\<rparr>"
    by (simp add: defs stats_zero_def)
  have loads: "1 < live_loads s1" "2 < live_loads s2" "3 < live_loads s3" "4 < live_loads s4" "5 = live_loads (st\<lparr>totalRequests := k\<rparr>)"
    using assms(2) by (simp_all add: live_loads_def defs)
  note on = runs_Cons [of "load_step n d"] and load = load_at_printer(2) [OF assms(1), of _ _ n d st c wg ws since live]
  note steps = load [OF loads(1)] load [OF loads(2)] load [OF loads(3)] load [OF loads(4)]
    load_at_printer(3) [OF assms(1) loads(5), of n d st c wg ws since live]
  have "Suc 1 = 2" "Suc 2 = 3" "Suc 3 = 4" "Suc 4 = 5" by simp_all
  note steps = steps [unfolded this, folded s2_def s3_def s4_def, unfolded snap]
  show ?thesis
    unfolding s1_def [symmetric]
    by (rule on [OF steps(1)], rule on [OF steps(2)], rule on [OF steps(3)], rule on [OF steps(4)],
      rule runs_step [of "load_step n d", OF steps(5)])
qed

lemma two_workers_start:
  "runs (load_step 2 time_Second) (load_init 0) [Ev_Main, Ev_Main, Ev_Main, Ev_Main]
     (load_at M_Select stats_zero False 2 [W_Top, W_Top] P_Select [])"
proof -
  let ?step = "load_step 2 time_Second"
  have "?step (load_init 0) Ev_Main (load_at (M_Sleep 1) stats_zero False 1 [W_Top] P_Off [])"
    using load_at_main(1) [of 0 2 time_Second stats_zero False 0 "[]" P_Off "[]"] by (simp add: load_init_at)
  moreover have "?step (load_at (M_Start 1) stats_zero False 1 [W_Top] P_Off []) Ev_Main
      (load_at (M_Start 2) stats_zero False 2 [W_Top, W_Top] P_Off [])"
    using load_at_main(1) [of 1 2 time_Second stats_zero False 1 "[W_Top]" P_Off "[]"] by (simp add: numeral_2_eq_2)
  moreover have "?step (load_at (M_Start 2) stats_zero False 2 [W_Top, W_Top] P_Off []) Ev_Main
      (load_at M_Select stats_zero False 2 [W_Top, W_Top] P_Select [])"
    by (rule load_at_main(3)) simp
  ultimately show ?thesis by (metis runs_Cons [of ?step] load_at_main(2) runs_step)
qed

text \<open>
  A worker is between the loads of the two counters of the line: one request is counted when the
  number of requests is loaded, two have succeeded when the number of successes is.
\<close>

lemma live_rate_exceeds:
  "\<exists>es s line. runs (load_step 2 time_Second) (load_init 0) es s \<and> lm_live s = [line] \<and>
     lr_total line = 1 \<and> lr_success line = 2 \<and> lr_successRate line = Fin 200"
proof -
  let ?step = "load_step 2 time_Second" and ?more = "[Add_SolveTime 0, Add_Success, Add_RoundTrip 0]"
  let ?fin = "W_Request [] None" and ?st = "\<lambda>n k. stats_zero\<lparr>totalRequests := n, successRequests := k\<rparr>"
  let ?at = "\<lambda>st ws pr. load_at M_Select st False 2 ws pr []" and ?pr = "P_Loaded time_Second 1 (stats_zero\<lparr>totalRequests := 1\<rparr>)"
  note on = runs_Cons [of ?step] and app = runs_append [of ?step]
  obtain s where "run_state (doRequest None (\<lambda>_. None)) (world.extend served_world \<lparr>ld_adds = []\<rparr>) = (None, s)"
      "ld_adds s = Add_Total # ?more" by (rule served_request)
  then have begins: "worker_step time_Second False W_Top None (W_Request (Add_Total # ?more) None)"
    using worker_step.Begin [of False 0 time_Second None "\<lambda>_. None" served_world None s] by simp
  have first: "runs ?step (?at stats_zero [W_Top, W_Top] P_Select) [Ev_Worker 0 None, Ev_Worker 0 (Some Add_Total)]
      (?at (?st 1 0) [W_Request ?more None, W_Top] P_Select)"
    using begin_runs [of 0 "[W_Top, W_Top]" time_Second False "[Add_Total]" ?more None 2 M_Select stats_zero 2 P_Select "[]"] begins
    by (simp add: stats_zero_def int64_add_exact)
  have tick: "?step (?at st ws P_Select) Ev_Printer (?at st ws (P_Loaded time_Second 0 stats_zero))" for st ws
    by (rule load_at_printer(1)) simp
  have load: "?step (?at (?st 1 0) ws (P_Loaded time_Second 0 stats_zero)) Ev_Printer (?at (?st 1 0) ws ?pr)" for ws
    using load_at_printer(2) [of M_Select 0 stats_zero 2 time_Second "?st 1 0" False 2 ws time_Second "[]"]
    by (simp add: live_loads_def stats_zero_def)
  have rest: "runs ?step (?at (?st 1 0) [W_Request ?more None, W_Top] ?pr) (map (\<lambda>a. Ev_Worker 0 (Some a)) ?more)
      (?at (?st 1 1) [?fin, W_Top] ?pr)"
    using request_runs [of 0 "[W_Request ?more None, W_Top]" ?more "[]" None 2 time_Second M_Select "?st 1 0" False 2 ?pr "[]"]
    by (simp add: stats_zero_def int64_add_exact)
  have second: "runs ?step (?at (?st 1 1) [?fin, W_Top] ?pr) (Ev_Worker 1 None # map (\<lambda>a. Ev_Worker 1 (Some a)) (Add_Total # ?more))
      (?at (?st 2 2) [?fin, ?fin] ?pr)"
    using begin_runs [of 1 "[?fin, W_Top]" time_Second False "Add_Total # ?more" "[]" None 2 M_Select "?st 1 1" 2 ?pr "[]"] begins
    by (simp add: stats_zero_def int64_add_exact)
  have line: "runs ?step (?at (?st 2 2) [?fin, ?fin] ?pr) [Ev_Printer, Ev_Printer, Ev_Printer, Ev_Printer, Ev_Printer]
      (load_at M_Select (?st 2 2) False 2 [?fin, ?fin] P_Select [printLiveStats time_Second (?st 1 2)])"
    using line_runs [of M_Select "?st 2 2" 2 time_Second False 2 "[?fin, ?fin]" time_Second 1 "[]"] by (simp add: stats_zero_def)
  let ?last = "load_at M_Select (?st 2 2) False 2 [?fin, ?fin] P_Select [printLiveStats time_Second (?st 1 2)]"
  note run = app [OF two_workers_start app [OF first on [OF tick on [OF load app [OF rest app [OF second line]]]]]]
  have rate: "success_rate 2 1 = Fin 200"
    using rnd_of_int [of 2] rnd_of_int [of 200] by (simp add: success_rate_def f64_of_int_exact f64_of_rat_small)
  have "lm_live ?last = [printLiveStats time_Second (?st 1 2)] \<and> lr_total (printLiveStats time_Second (?st 1 2)) = 1 \<and>
      lr_success (printLiveStats time_Second (?st 1 2)) = 2 \<and> lr_successRate (printLiveStats time_Second (?st 1 2)) = Fin 200"
    by (simp add: printLiveStats_def Let_def load_at_def rate)
  with run show ?thesis by blast
qed

end
