(* ===== verification/App_Config.thy ===== *)
theory App_Config
  imports Go_Strconv
begin

text \<open>
  \<^verbatim>\<open>internal/config/config.go\<close>: the configuration, its defaults, how the environment overrides
  them and which configurations are valid. The environment is a function from names to values,
  empty for a variable that is not set, as \<^verbatim>\<open>os.Getenv\<close> returns it.
\<close>

section \<open>Definitions\<close>

record Config =
  cf_ServerAddress :: string
  cf_MetricsAddress :: string
  cf_MaxConnections :: int
  cf_ReadTimeout :: duration
  cf_WriteTimeout :: duration
  cf_IdleTimeout :: duration
  cf_ChallengeTimeout :: duration
  cf_GracefulTimeout :: duration
  cf_PowSecret :: "byte list"
  cf_PowDifficulty :: int
  cf_PowMinDifficulty :: int
  cf_PowMaxDifficulty :: int
  cf_ClockSkewTolerance :: duration
  cf_RateLimitRPS :: f64
  cf_RateLimitBurst :: int
  cf_MaxConnectionsPerIP :: int
  cf_MaxAttemptsPerIP :: int
  cf_LogLevel :: string
  cf_LogFormat :: string
  cf_QuotesFile :: string

definition Defaults :: Config where
  "Defaults =
    \<lparr>cf_ServerAddress = '':8080'', cf_MetricsAddress = '':9090'', cf_MaxConnections = 10000,
     cf_ReadTimeout = 10 * time_Second, cf_WriteTimeout = 10 * time_Second, cf_IdleTimeout = 5 * time_Second,
     cf_ChallengeTimeout = 60 * time_Second, cf_GracefulTimeout = 30 * time_Second,
     cf_PowSecret = [], cf_PowDifficulty = 20, cf_PowMinDifficulty = 16, cf_PowMaxDifficulty = 24,
     cf_ClockSkewTolerance = 30 * time_Second,
     cf_RateLimitRPS = Fin 10, cf_RateLimitBurst = 20, cf_MaxConnectionsPerIP = 100, cf_MaxAttemptsPerIP = 50,
     cf_LogLevel = ''info'', cf_LogFormat = ''json'', cf_QuotesFile = ''quotes.txt''\<rparr>"

type_synonym environment = "string \<Rightarrow> string"
type_synonym load_step = "Config \<Rightarrow> Config result"

text \<open>The four kinds of variables, each with how its field is set.\<close>

definition env_text :: "environment \<Rightarrow> string \<Rightarrow> (string \<Rightarrow> Config \<Rightarrow> Config) \<Rightarrow> load_step" where
  "env_text env name upd cfg = (let v = env name in if v \<noteq> [] then Inr (upd v cfg) else Inr cfg)"

definition env_parsed ::
  "(string \<Rightarrow> 'a result) \<Rightarrow> environment \<Rightarrow> string \<Rightarrow> ('a \<Rightarrow> Config \<Rightarrow> Config) \<Rightarrow> load_step" where
  "env_parsed parse env name upd cfg =
    (let v = env name
     in if v \<noteq> []
        then (case parse v of
                Inl err \<Rightarrow> Inl (Errorf (''invalid '' @ name @ '': '') err [])
              | Inr x \<Rightarrow> Inr (upd x cfg))
        else Inr cfg)"

abbreviation env_int :: "environment \<Rightarrow> string \<Rightarrow> (int \<Rightarrow> Config \<Rightarrow> Config) \<Rightarrow> load_step" where
  "env_int \<equiv> env_parsed strconv_Atoi"

abbreviation env_duration :: "environment \<Rightarrow> string \<Rightarrow> (duration \<Rightarrow> Config \<Rightarrow> Config) \<Rightarrow> load_step" where
  "env_duration \<equiv> env_parsed time_ParseDuration"

abbreviation env_float :: "environment \<Rightarrow> string \<Rightarrow> (f64 \<Rightarrow> Config \<Rightarrow> Config) \<Rightarrow> load_step" where
  "env_float \<equiv> env_parsed strconv_ParseFloat"

primrec run_steps :: "load_step list \<Rightarrow> Config \<Rightarrow> Config result" where
  "run_steps [] cfg = Inr cfg"
| "run_steps (step # steps) cfg =
    (case step cfg of Inl err \<Rightarrow> Inl err | Inr cfg \<Rightarrow> run_steps steps cfg)"

definition load_steps :: "environment \<Rightarrow> load_step list" where
  "load_steps env =
    [env_text env ''SERVER_ADDRESS'' (\<lambda>v. cf_ServerAddress_update (\<lambda>_. v)),
     env_text env ''METRICS_ADDRESS'' (\<lambda>v. cf_MetricsAddress_update (\<lambda>_. v)),
     env_int env ''MAX_CONNECTIONS'' (\<lambda>n. cf_MaxConnections_update (\<lambda>_. n)),
     env_duration env ''READ_TIMEOUT'' (\<lambda>d. cf_ReadTimeout_update (\<lambda>_. d)),
     env_duration env ''WRITE_TIMEOUT'' (\<lambda>d. cf_WriteTimeout_update (\<lambda>_. d)),
     env_duration env ''IDLE_TIMEOUT'' (\<lambda>d. cf_IdleTimeout_update (\<lambda>_. d)),
     env_duration env ''CHALLENGE_TIMEOUT'' (\<lambda>d. cf_ChallengeTimeout_update (\<lambda>_. d)),
     env_duration env ''GRACEFUL_TIMEOUT'' (\<lambda>d. cf_GracefulTimeout_update (\<lambda>_. d)),
     env_text env ''POW_SECRET'' (\<lambda>v. cf_PowSecret_update (\<lambda>_. string_bytes v)),
     env_int env ''POW_DIFFICULTY'' (\<lambda>n. cf_PowDifficulty_update (\<lambda>_. n)),
     env_int env ''POW_MIN_DIFFICULTY'' (\<lambda>n. cf_PowMinDifficulty_update (\<lambda>_. n)),
     env_int env ''POW_MAX_DIFFICULTY'' (\<lambda>n. cf_PowMaxDifficulty_update (\<lambda>_. n)),
     env_duration env ''CLOCK_SKEW_TOLERANCE'' (\<lambda>d. cf_ClockSkewTolerance_update (\<lambda>_. d)),
     env_float env ''RATE_LIMIT_RPS'' (\<lambda>f. cf_RateLimitRPS_update (\<lambda>_. f)),
     env_int env ''RATE_LIMIT_BURST'' (\<lambda>n. cf_RateLimitBurst_update (\<lambda>_. n)),
     env_int env ''MAX_CONNECTIONS_PER_IP'' (\<lambda>n. cf_MaxConnectionsPerIP_update (\<lambda>_. n)),
     env_int env ''MAX_ATTEMPTS_PER_IP'' (\<lambda>n. cf_MaxAttemptsPerIP_update (\<lambda>_. n)),
     env_text env ''LOG_LEVEL'' (\<lambda>v. cf_LogLevel_update (\<lambda>_. v)),
     env_text env ''LOG_FORMAT'' (\<lambda>v. cf_LogFormat_update (\<lambda>_. v)),
     env_text env ''QUOTES_FILE'' (\<lambda>v. cf_QuotesFile_update (\<lambda>_. v))]"

definition Load :: "environment \<Rightarrow> Config result" where
  "Load env = run_steps (load_steps env) Defaults"

subsection \<open>Validation\<close>

definition ErrMissingPowSecret :: go_error where
  [go_errs]: "ErrMissingPowSecret = Sentinel ''config.ErrMissingPowSecret'' ''POW_SECRET is required''"
definition ErrPowSecretTooShort :: go_error where
  [go_errs]: "ErrPowSecretTooShort = Sentinel ''config.ErrPowSecretTooShort'' ''POW_SECRET must be at least 32 bytes''"
definition ErrInvalidDifficultyRange :: go_error where
  [go_errs]: "ErrInvalidDifficultyRange =
     Sentinel ''config.ErrInvalidDifficultyRange'' ''POW_MIN_DIFFICULTY must be <= POW_MAX_DIFFICULTY''"
definition ErrDifficultyOutOfRange :: go_error where
  [go_errs]: "ErrDifficultyOutOfRange = Sentinel ''config.ErrDifficultyOutOfRange''
     ''POW_DIFFICULTY must be between POW_MIN_DIFFICULTY and POW_MAX_DIFFICULTY''"
definition ErrNegativeTimeout :: go_error where
  [go_errs]: "ErrNegativeTimeout = Sentinel ''config.ErrNegativeTimeout'' ''timeout values must be positive''"
definition ErrInvalidMaxConnections :: go_error where
  [go_errs]: "ErrInvalidMaxConnections = Sentinel ''config.ErrInvalidMaxConnections'' ''MAX_CONNECTIONS must be positive''"
definition ErrInvalidRateLimit :: go_error where
  [go_errs]: "ErrInvalidRateLimit = Sentinel ''config.ErrInvalidRateLimit'' ''rate limit values must be positive''"
definition ErrInvalidLogLevel :: go_error where
  [go_errs]: "ErrInvalidLogLevel =
     Sentinel ''config.ErrInvalidLogLevel'' ''LOG_LEVEL must be one of: debug, info, warn, error''"
definition ErrInvalidLogFormat :: go_error where
  [go_errs]: "ErrInvalidLogFormat = Sentinel ''config.ErrInvalidLogFormat'' ''LOG_FORMAT must be one of: json, text''"

definition Config_Validate :: "Config \<Rightarrow> go_error option" where
  "Config_Validate c =
    (if length (cf_PowSecret c) = 0 then Some ErrMissingPowSecret
     else if length (cf_PowSecret c) < 32 then Some ErrPowSecretTooShort
     else if cf_PowMinDifficulty c > cf_PowMaxDifficulty c then Some ErrInvalidDifficultyRange
     else if cf_PowDifficulty c < cf_PowMinDifficulty c \<or> cf_PowDifficulty c > cf_PowMaxDifficulty c
     then Some ErrDifficultyOutOfRange
     else if cf_ReadTimeout c \<le> 0 \<or> cf_WriteTimeout c \<le> 0 \<or> cf_IdleTimeout c \<le> 0 \<or>
             cf_ChallengeTimeout c \<le> 0 \<or> cf_GracefulTimeout c \<le> 0
     then Some ErrNegativeTimeout
     else if cf_MaxConnections c \<le> 0 then Some ErrInvalidMaxConnections
     else if f64_le (cf_RateLimitRPS c) (Fin 0) \<or> cf_RateLimitBurst c \<le> 0 then Some ErrInvalidRateLimit
     else if cf_LogLevel c \<notin> {''debug'', ''info'', ''warn'', ''error''} then Some ErrInvalidLogLevel
     else if cf_LogFormat c \<notin> {''json'', ''text''} then Some ErrInvalidLogFormat
     else None)"

text \<open>\<^verbatim>\<open>MustLoad\<close>; \<open>None\<close> is its panic.\<close>

definition MustLoad :: "environment \<Rightarrow> Config option" where
  "MustLoad env =
    (case Load env of
       Inl err \<Rightarrow> None
     | Inr cfg \<Rightarrow> (case Config_Validate cfg of Some err \<Rightarrow> None | None \<Rightarrow> Some cfg))"

subsection \<open>What the variables stand for\<close>

text \<open>
  The default when a variable is not set and otherwise what its text parses to; and whether
  the text of a variable is malformed, with the error.
\<close>

definition env_value :: "(string \<Rightarrow> 'a result) \<Rightarrow> environment \<Rightarrow> string \<Rightarrow> 'a \<Rightarrow> 'a" where
  "env_value parse env name d = (if env name = [] then d else projr (parse (env name)))"

definition malformed :: "(string \<Rightarrow> 'a result) \<Rightarrow> environment \<Rightarrow> string \<Rightarrow> (string \<times> go_error) list" where
  "malformed parse env name =
    (if env name = [] then []
     else case parse (env name) of Inl err \<Rightarrow> [(name, err)] | Inr _ \<Rightarrow> [])"

definition malformed_settings :: "environment \<Rightarrow> (string \<times> go_error) list" where
  "malformed_settings env = concat
    [malformed strconv_Atoi env ''MAX_CONNECTIONS'',
     malformed time_ParseDuration env ''READ_TIMEOUT'',
     malformed time_ParseDuration env ''WRITE_TIMEOUT'',
     malformed time_ParseDuration env ''IDLE_TIMEOUT'',
     malformed time_ParseDuration env ''CHALLENGE_TIMEOUT'',
     malformed time_ParseDuration env ''GRACEFUL_TIMEOUT'',
     malformed strconv_Atoi env ''POW_DIFFICULTY'',
     malformed strconv_Atoi env ''POW_MIN_DIFFICULTY'',
     malformed strconv_Atoi env ''POW_MAX_DIFFICULTY'',
     malformed time_ParseDuration env ''CLOCK_SKEW_TOLERANCE'',
     malformed strconv_ParseFloat env ''RATE_LIMIT_RPS'',
     malformed strconv_Atoi env ''RATE_LIMIT_BURST'',
     malformed strconv_Atoi env ''MAX_CONNECTIONS_PER_IP'',
     malformed strconv_Atoi env ''MAX_ATTEMPTS_PER_IP'']"

definition env_config :: "environment \<Rightarrow> Config" where
  "env_config env =
    \<lparr>cf_ServerAddress = env_value Inr env ''SERVER_ADDRESS'' '':8080'',
     cf_MetricsAddress = env_value Inr env ''METRICS_ADDRESS'' '':9090'',
     cf_MaxConnections = env_value strconv_Atoi env ''MAX_CONNECTIONS'' 10000,
     cf_ReadTimeout = env_value time_ParseDuration env ''READ_TIMEOUT'' (10 * time_Second),
     cf_WriteTimeout = env_value time_ParseDuration env ''WRITE_TIMEOUT'' (10 * time_Second),
     cf_IdleTimeout = env_value time_ParseDuration env ''IDLE_TIMEOUT'' (5 * time_Second),
     cf_ChallengeTimeout = env_value time_ParseDuration env ''CHALLENGE_TIMEOUT'' (60 * time_Second),
     cf_GracefulTimeout = env_value time_ParseDuration env ''GRACEFUL_TIMEOUT'' (30 * time_Second),
     cf_PowSecret = string_bytes (env ''POW_SECRET''),
     cf_PowDifficulty = env_value strconv_Atoi env ''POW_DIFFICULTY'' 20,
     cf_PowMinDifficulty = env_value strconv_Atoi env ''POW_MIN_DIFFICULTY'' 16,
     cf_PowMaxDifficulty = env_value strconv_Atoi env ''POW_MAX_DIFFICULTY'' 24,
     cf_ClockSkewTolerance = env_value time_ParseDuration env ''CLOCK_SKEW_TOLERANCE'' (30 * time_Second),
     cf_RateLimitRPS = env_value strconv_ParseFloat env ''RATE_LIMIT_RPS'' (Fin 10),
     cf_RateLimitBurst = env_value strconv_Atoi env ''RATE_LIMIT_BURST'' 20,
     cf_MaxConnectionsPerIP = env_value strconv_Atoi env ''MAX_CONNECTIONS_PER_IP'' 100,
     cf_MaxAttemptsPerIP = env_value strconv_Atoi env ''MAX_ATTEMPTS_PER_IP'' 50,
     cf_LogLevel = env_value Inr env ''LOG_LEVEL'' ''info'',
     cf_LogFormat = env_value Inr env ''LOG_FORMAT'' ''json'',
     cf_QuotesFile = env_value Inr env ''QUOTES_FILE'' ''quotes.txt''\<rparr>"

section \<open>Lemmas\<close>

lemma env_text_parsed: "env_text env name upd = env_parsed Inr env name upd"
  by (rule ext) (simp add: env_text_def env_parsed_def Let_def)

lemma malformed_Inr [simp]: "malformed Inr env name = []"
  by (simp add: malformed_def)

text \<open>One step of \<open>Load\<close> on the field it sets; the first malformed variable ends it.\<close>

definition unless_malformed :: "(string \<times> go_error) list \<Rightarrow> 'a result \<Rightarrow> 'a result" where
  "unless_malformed ms r = (case ms of [] \<Rightarrow> r | (name, err) # _ \<Rightarrow> Inl (Errorf (''invalid '' @ name @ '': '') err []))"

lemma unless_malformed_simps [simp]:
  "unless_malformed [] r = r"
  "unless_malformed (ms @ ns) r = unless_malformed ms (unless_malformed ns r)"
  by (auto simp: unless_malformed_def split: list.splits)

lemma run_env_parsed:
  assumes "\<And>c. upd (get c) c = c"
  shows "run_steps (env_parsed parse env name upd # steps) cfg =
    unless_malformed (malformed parse env name) (run_steps steps (upd (env_value parse env name (get cfg)) cfg))"
  using assms by (auto simp: env_parsed_def env_value_def malformed_def unless_malformed_def Let_def split: sum.splits)

lemma config_same:
  "cf_ServerAddress_update (\<lambda>_. cf_ServerAddress cfg) cfg = cfg"
  "cf_MetricsAddress_update (\<lambda>_. cf_MetricsAddress cfg) cfg = cfg"
  "cf_MaxConnections_update (\<lambda>_. cf_MaxConnections cfg) cfg = cfg"
  "cf_ReadTimeout_update (\<lambda>_. cf_ReadTimeout cfg) cfg = cfg"
  "cf_WriteTimeout_update (\<lambda>_. cf_WriteTimeout cfg) cfg = cfg"
  "cf_IdleTimeout_update (\<lambda>_. cf_IdleTimeout cfg) cfg = cfg"
  "cf_ChallengeTimeout_update (\<lambda>_. cf_ChallengeTimeout cfg) cfg = cfg"
  "cf_GracefulTimeout_update (\<lambda>_. cf_GracefulTimeout cfg) cfg = cfg"
  "cf_PowDifficulty_update (\<lambda>_. cf_PowDifficulty cfg) cfg = cfg"
  "cf_PowMinDifficulty_update (\<lambda>_. cf_PowMinDifficulty cfg) cfg = cfg"
  "cf_PowMaxDifficulty_update (\<lambda>_. cf_PowMaxDifficulty cfg) cfg = cfg"
  "cf_ClockSkewTolerance_update (\<lambda>_. cf_ClockSkewTolerance cfg) cfg = cfg"
  "cf_RateLimitRPS_update (\<lambda>_. cf_RateLimitRPS cfg) cfg = cfg"
  "cf_RateLimitBurst_update (\<lambda>_. cf_RateLimitBurst cfg) cfg = cfg"
  "cf_MaxConnectionsPerIP_update (\<lambda>_. cf_MaxConnectionsPerIP cfg) cfg = cfg"
  "cf_MaxAttemptsPerIP_update (\<lambda>_. cf_MaxAttemptsPerIP cfg) cfg = cfg"
  "cf_LogLevel_update (\<lambda>_. cf_LogLevel cfg) cfg = cfg"
  "cf_LogFormat_update (\<lambda>_. cf_LogFormat cfg) cfg = cfg"
  "cf_QuotesFile_update (\<lambda>_. cf_QuotesFile cfg) cfg = cfg"
  by simp_all

lemma run_env_secret:
  "run_steps (env_parsed Inr env name (\<lambda>v. cf_PowSecret_update (\<lambda>_. string_bytes v)) # steps) cfg =
    run_steps steps (cf_PowSecret_update (\<lambda>_. if env name = [] then cf_PowSecret cfg else string_bytes (env name)) cfg)"
  by (simp add: env_parsed_def Let_def)

lemmas load_fields = run_env_secret
  run_env_parsed [where upd = "\<lambda>v. cf_ServerAddress_update (\<lambda>_. v)", OF config_same(1)]
  run_env_parsed [where upd = "\<lambda>v. cf_MetricsAddress_update (\<lambda>_. v)", OF config_same(2)]
  run_env_parsed [where upd = "\<lambda>v. cf_MaxConnections_update (\<lambda>_. v)", OF config_same(3)]
  run_env_parsed [where upd = "\<lambda>v. cf_ReadTimeout_update (\<lambda>_. v)", OF config_same(4)]
  run_env_parsed [where upd = "\<lambda>v. cf_WriteTimeout_update (\<lambda>_. v)", OF config_same(5)]
  run_env_parsed [where upd = "\<lambda>v. cf_IdleTimeout_update (\<lambda>_. v)", OF config_same(6)]
  run_env_parsed [where upd = "\<lambda>v. cf_ChallengeTimeout_update (\<lambda>_. v)", OF config_same(7)]
  run_env_parsed [where upd = "\<lambda>v. cf_GracefulTimeout_update (\<lambda>_. v)", OF config_same(8)]
  run_env_parsed [where upd = "\<lambda>v. cf_PowDifficulty_update (\<lambda>_. v)", OF config_same(9)]
  run_env_parsed [where upd = "\<lambda>v. cf_PowMinDifficulty_update (\<lambda>_. v)", OF config_same(10)]
  run_env_parsed [where upd = "\<lambda>v. cf_PowMaxDifficulty_update (\<lambda>_. v)", OF config_same(11)]
  run_env_parsed [where upd = "\<lambda>v. cf_ClockSkewTolerance_update (\<lambda>_. v)", OF config_same(12)]
  run_env_parsed [where upd = "\<lambda>v. cf_RateLimitRPS_update (\<lambda>_. v)", OF config_same(13)]
  run_env_parsed [where upd = "\<lambda>v. cf_RateLimitBurst_update (\<lambda>_. v)", OF config_same(14)]
  run_env_parsed [where upd = "\<lambda>v. cf_MaxConnectionsPerIP_update (\<lambda>_. v)", OF config_same(15)]
  run_env_parsed [where upd = "\<lambda>v. cf_MaxAttemptsPerIP_update (\<lambda>_. v)", OF config_same(16)]
  run_env_parsed [where upd = "\<lambda>v. cf_LogLevel_update (\<lambda>_. v)", OF config_same(17)]
  run_env_parsed [where upd = "\<lambda>v. cf_LogFormat_update (\<lambda>_. v)", OF config_same(18)]
  run_env_parsed [where upd = "\<lambda>v. cf_QuotesFile_update (\<lambda>_. v)", OF config_same(19)]

section \<open>Properties\<close>

text \<open>
  C23: The configuration the environment gives. \<^verbatim>\<open>Load\<close> fails with the error of the first malformed
  variable, in the order of the code, and otherwise returns for every field the parsed value
  of its variable or, when that is not set, the default.
\<close>

theorem load_exact:
  "Load env =
    (case malformed_settings env of
       [] \<Rightarrow> Inr (env_config env)
     | (name, err) # _ \<Rightarrow> Inl (Errorf (''invalid '' @ name @ '': '') err []))"
proof -
  have secret: "string_bytes [] = []" by (simp add: string_bytes_def)
  have "Load env = unless_malformed (malformed_settings env) (Inr (env_config env))"
    by (simp add: Load_def env_config_def load_steps_def Defaults_def env_text_parsed load_fields malformed_settings_def
        secret del: run_steps.simps(2))
  then show ?thesis by (simp only: unless_malformed_def)
qed

end
