(* ===== verification/App_Logging.thy ===== *)
theory App_Logging
  imports Go_Strconv
begin

text \<open>
  \<^verbatim>\<open>internal/logging/logger.go\<close>: loggers over \<^verbatim>\<open>log/slog\<close> with a level that can be changed at run
  time. The level of a logger is a \<^verbatim>\<open>slog.LevelVar\<close>, a variable that \<^verbatim>\<open>With\<close> and \<^verbatim>\<open>WithGroup\<close> share
  between loggers: it is a location in a store. What \<^verbatim>\<open>slog\<close> writes is kept as the list of the
  records it hands to an output, not as the bytes of the two formats.
\<close>

section \<open>Definitions\<close>

type_synonym log_level = int

definition LevelDebug :: log_level where "LevelDebug = -4"
definition LevelInfo :: log_level where "LevelInfo = 0"
definition LevelWarn :: log_level where "LevelWarn = 4"
definition LevelError :: log_level where "LevelError = 8"

lemmas log_levels = LevelDebug_def LevelInfo_def LevelWarn_def LevelError_def

text \<open>A writer is a number; \<open>None\<close> is the nil writer of a configuration without output.\<close>

type_synonym writer = nat

definition os_Stdout :: writer where "os_Stdout = 1"

record log_Config =
  lc_Level :: string
  lc_Format :: string
  lc_Output :: "writer option"
  lc_AddSource :: bool

definition log_DefaultConfig :: log_Config where
  "log_DefaultConfig = \<lparr>lc_Level = ''info'', lc_Format = ''json'', lc_Output = Some os_Stdout, lc_AddSource = False\<rparr>"

subsection \<open>The loggers of slog\<close>

datatype log_value = Log_Any string | Log_String string | Log_Uint64 u64

record log_attr =
  at_Key :: string
  at_Value :: log_value

datatype log_format = Format_Text | Format_JSON

text \<open>What \<^verbatim>\<open>With\<close> and \<^verbatim>\<open>WithGroup\<close> add to a handler.\<close>

datatype log_scope = Scope_Attrs "log_attr list" | Scope_Group string

record slog_Logger =
  hd_Format :: log_format
  hd_Output :: writer
  hd_AddSource :: bool
  hd_Level :: nat
  hd_Scopes :: "log_scope list"

record log_entry =
  le_Logger :: slog_Logger
  le_Level :: log_level
  le_Msg :: string
  le_Attrs :: "log_attr list"

text \<open>A logger without arguments or with an empty group name is the same logger.\<close>

definition slog_With :: "log_attr list \<Rightarrow> slog_Logger \<Rightarrow> slog_Logger" where
  "slog_With args l = (if args = [] then l else l\<lparr>hd_Scopes := hd_Scopes l @ [Scope_Attrs args]\<rparr>)"

definition slog_WithGroup :: "string \<Rightarrow> slog_Logger \<Rightarrow> slog_Logger" where
  "slog_WithGroup name l = (if name = [] then l else l\<lparr>hd_Scopes := hd_Scopes l @ [Scope_Group name]\<rparr>)"

subsection \<open>Loggers\<close>

record Logger =
  lg_Logger :: slog_Logger
  lg_level :: nat
  lg_config :: log_Config

text \<open>The store: the level variables, the two default loggers and what has been written.\<close>

record log_state =
  lv_vars :: "log_level list"
  defaultLogger :: Logger
  slog_default :: slog_Logger
  lv_written :: "log_entry list"

text \<open>
  \<^verbatim>\<open>strings.ToLower\<close>, for the comparison with ASCII texts: besides A to Z two letters have an ASCII
  letter as their lower case, the dotted I (U+0130) and the Kelvin sign (U+212A), here by their
  UTF-8 bytes. Every other letter stays different from ASCII and is left as it is.
\<close>

fun strings_ToLower :: "string \<Rightarrow> string" where
  "strings_ToLower (a # b # c # s) =
    (if [of_char a, of_char b, of_char c] = [226 :: nat, 132, 170] then CHR ''k'' # strings_ToLower s
     else if [of_char a, of_char b] = [196 :: nat, 176] then CHR ''i'' # strings_ToLower (c # s)
     else lower a # strings_ToLower (b # c # s))"
| "strings_ToLower [a, b] =
    (if [of_char a, of_char b] = [196 :: nat, 176] then ''i'' else [lower a, lower b])"
| "strings_ToLower [a] = [lower a]"
| "strings_ToLower [] = []"

definition parseLevel :: "string \<Rightarrow> log_level" where
  "parseLevel level =
    (let t = strings_ToLower level
     in if t = ''debug'' then LevelDebug
        else if t = ''warn'' \<or> t = ''warning'' then LevelWarn
        else if t = ''error'' then LevelError
        else LevelInfo)"

definition log_New :: "log_Config \<Rightarrow> log_state \<Rightarrow> Logger \<times> log_state" where
  "log_New cfg st =
    (let cfg = (if lc_Output cfg = None then cfg\<lparr>lc_Output := Some os_Stdout\<rparr> else cfg);
         level = length (lv_vars st);
         st = st\<lparr>lv_vars := lv_vars st @ [parseLevel (lc_Level cfg)]\<rparr>;
         format = (if strings_ToLower (lc_Format cfg) = ''text'' then Format_Text else Format_JSON);
         handler = \<lparr>hd_Format = format, hd_Output = the (lc_Output cfg), hd_AddSource = lc_AddSource cfg,
                    hd_Level = level, hd_Scopes = []\<rparr>
     in (\<lparr>lg_Logger = handler, lg_level = level, lg_config = cfg\<rparr>, st))"

definition SetLevelValue :: "log_level \<Rightarrow> Logger \<Rightarrow> log_state \<Rightarrow> log_state" where
  "SetLevelValue level l st = st\<lparr>lv_vars := (lv_vars st)[lg_level l := level]\<rparr>"

definition SetLevel :: "string \<Rightarrow> Logger \<Rightarrow> log_state \<Rightarrow> log_state" where
  "SetLevel level l st = st\<lparr>lv_vars := (lv_vars st)[lg_level l := parseLevel level]\<rparr>"

definition GetLevel :: "Logger \<Rightarrow> log_state \<Rightarrow> log_level" where
  "GetLevel l st = lv_vars st ! lg_level l"

definition Logger_With :: "log_attr list \<Rightarrow> Logger \<Rightarrow> Logger" where
  "Logger_With args l = \<lparr>lg_Logger = slog_With args (lg_Logger l), lg_level = lg_level l, lg_config = lg_config l\<rparr>"

definition Logger_WithGroup :: "string \<Rightarrow> Logger \<Rightarrow> Logger" where
  "Logger_WithGroup name l =
    \<lparr>lg_Logger = slog_WithGroup name (lg_Logger l), lg_level = lg_level l, lg_config = lg_config l\<rparr>"

text \<open>A context is what it holds under the key of this package, if anything.\<close>

type_synonym log_context = "Logger option"

definition WithContext :: "log_context \<Rightarrow> Logger \<Rightarrow> log_context" where
  "WithContext ctx logger = Some logger"

definition FromContext :: "log_context \<Rightarrow> log_state \<Rightarrow> Logger" where
  "FromContext ctx st = (case ctx of Some logger \<Rightarrow> logger | None \<Rightarrow> defaultLogger st)"

definition log_Default :: "log_state \<Rightarrow> Logger" where
  "log_Default st = defaultLogger st"

definition SetDefault :: "Logger \<Rightarrow> log_state \<Rightarrow> log_state" where
  "SetDefault logger st = st\<lparr>defaultLogger := logger, slog_default := lg_Logger logger\<rparr>"

text \<open>Writing: \<^verbatim>\<open>slog\<close> drops what is below the level of the handler.\<close>

definition slog_log :: "log_level \<Rightarrow> string \<Rightarrow> log_attr list \<Rightarrow> slog_Logger \<Rightarrow> log_state \<Rightarrow> log_state" where
  "slog_log level msg args l st =
    (if lv_vars st ! hd_Level l \<le> level
     then st\<lparr>lv_written := lv_written st @ [\<lparr>le_Logger = l, le_Level = level, le_Msg = msg, le_Attrs = args\<rparr>]\<rparr>
     else st)"

definition log_Debug :: "string \<Rightarrow> log_attr list \<Rightarrow> log_state \<Rightarrow> log_state" where
  "log_Debug msg args st = slog_log LevelDebug msg args (lg_Logger (defaultLogger st)) st"
definition log_Info :: "string \<Rightarrow> log_attr list \<Rightarrow> log_state \<Rightarrow> log_state" where
  "log_Info msg args st = slog_log LevelInfo msg args (lg_Logger (defaultLogger st)) st"
definition log_Warn :: "string \<Rightarrow> log_attr list \<Rightarrow> log_state \<Rightarrow> log_state" where
  "log_Warn msg args st = slog_log LevelWarn msg args (lg_Logger (defaultLogger st)) st"
definition log_Error :: "string \<Rightarrow> log_attr list \<Rightarrow> log_state \<Rightarrow> log_state" where
  "log_Error msg args st = slog_log LevelError msg args (lg_Logger (defaultLogger st)) st"

definition DebugContext :: "log_context \<Rightarrow> string \<Rightarrow> log_attr list \<Rightarrow> log_state \<Rightarrow> log_state" where
  "DebugContext ctx msg args st = slog_log LevelDebug msg args (lg_Logger (FromContext ctx st)) st"
definition InfoContext :: "log_context \<Rightarrow> string \<Rightarrow> log_attr list \<Rightarrow> log_state \<Rightarrow> log_state" where
  "InfoContext ctx msg args st = slog_log LevelInfo msg args (lg_Logger (FromContext ctx st)) st"
definition WarnContext :: "log_context \<Rightarrow> string \<Rightarrow> log_attr list \<Rightarrow> log_state \<Rightarrow> log_state" where
  "WarnContext ctx msg args st = slog_log LevelWarn msg args (lg_Logger (FromContext ctx st)) st"
definition ErrorContext :: "log_context \<Rightarrow> string \<Rightarrow> log_attr list \<Rightarrow> log_state \<Rightarrow> log_state" where
  "ErrorContext ctx msg args st = slog_log LevelError msg args (lg_Logger (FromContext ctx st)) st"

subsection \<open>Attributes\<close>

definition KeyError :: string where "KeyError = ''error''"
definition KeyRemoteAddr :: string where "KeyRemoteAddr = ''remote_addr''"
definition KeyDuration :: string where "KeyDuration = ''duration''"
definition KeyDifficulty :: string where "KeyDifficulty = ''difficulty''"
definition KeyChallenge :: string where "KeyChallenge = ''challenge_id''"
definition KeyConnID :: string where "KeyConnID = ''conn_id''"

definition log_Err :: "string \<Rightarrow> log_attr" where
  "log_Err err = \<lparr>at_Key = KeyError, at_Value = Log_Any err\<rparr>"
definition log_RemoteAddr :: "string \<Rightarrow> log_attr" where
  "log_RemoteAddr addr = \<lparr>at_Key = KeyRemoteAddr, at_Value = Log_String addr\<rparr>"
definition log_Duration :: "string \<Rightarrow> string \<Rightarrow> log_attr" where
  "log_Duration name d = \<lparr>at_Key = name, at_Value = Log_Any d\<rparr>"
definition log_ConnID :: "u64 \<Rightarrow> log_attr" where
  "log_ConnID i = \<lparr>at_Key = KeyConnID, at_Value = Log_Uint64 i\<rparr>"

subsection \<open>A program that logs\<close>

text \<open>
  The package at its start, with \<^verbatim>\<open>slog\<close>'s own default logger as an argument, and the loggers a
  program has made. A program makes loggers, changes levels and the default, and writes.
\<close>

definition log_init :: "slog_Logger \<Rightarrow> log_state" where
  "log_init d =
    \<lparr>lv_vars = [LevelInfo],
     defaultLogger =
       \<lparr>lg_Logger = \<lparr>hd_Format = Format_JSON, hd_Output = os_Stdout, hd_AddSource = False, hd_Level = 0, hd_Scopes = []\<rparr>,
        lg_level = 0, lg_config = log_DefaultConfig\<rparr>,
     slog_default = d, lv_written = []\<rparr>"

record log_program =
  lp_loggers :: "Logger list"
  lp_state :: log_state

datatype log_event =
    Log_New log_Config | Log_With Logger "log_attr list" | Log_WithGroup Logger string
  | Log_SetLevel Logger string | Log_SetLevelValue Logger log_level | Log_SetDefault Logger
  | Log_Write log_context log_level string "log_attr list"

inductive log_step :: "log_program \<Rightarrow> log_event \<Rightarrow> log_program \<Rightarrow> bool" where
  New: "log_New cfg (lp_state p) = (l, st) \<Longrightarrow>
     log_step p (Log_New cfg) \<lparr>lp_loggers = l # lp_loggers p, lp_state = st\<rparr>"
| With: "l \<in> set (lp_loggers p) \<Longrightarrow>
     log_step p (Log_With l args) (p\<lparr>lp_loggers := Logger_With args l # lp_loggers p\<rparr>)"
| WithGroup: "l \<in> set (lp_loggers p) \<Longrightarrow>
     log_step p (Log_WithGroup l name) (p\<lparr>lp_loggers := Logger_WithGroup name l # lp_loggers p\<rparr>)"
| SetLevel: "l \<in> set (lp_loggers p) \<Longrightarrow>
     log_step p (Log_SetLevel l level) (p\<lparr>lp_state := SetLevel level l (lp_state p)\<rparr>)"
| SetLevelValue: "l \<in> set (lp_loggers p) \<Longrightarrow>
     log_step p (Log_SetLevelValue l v) (p\<lparr>lp_state := SetLevelValue v l (lp_state p)\<rparr>)"
| SetDefault: "l \<in> set (lp_loggers p) \<Longrightarrow>
     log_step p (Log_SetDefault l) (p\<lparr>lp_state := SetDefault l (lp_state p)\<rparr>)"
| Write: "(\<And>l. ctx = Some l \<Longrightarrow> l \<in> set (lp_loggers p)) \<Longrightarrow>
     log_step p (Log_Write ctx level msg args)
       (p\<lparr>lp_state := slog_log level msg args (lg_Logger (FromContext ctx (lp_state p))) (lp_state p)\<rparr>)"

definition log_start :: "slog_Logger \<Rightarrow> log_program" where
  "log_start d = \<lparr>lp_loggers = [defaultLogger (log_init d)], lp_state = log_init d\<rparr>"

text \<open>A logger and its handler have one level variable, and it is allocated.\<close>

definition wf_logger :: "log_state \<Rightarrow> Logger \<Rightarrow> bool" where
  "wf_logger st l \<longleftrightarrow> lg_level l < length (lv_vars st) \<and> hd_Level (lg_Logger l) = lg_level l"

section \<open>Lemmas\<close>

lemma log_init_New:
  "lv_vars st = [] \<Longrightarrow> fst (log_New log_DefaultConfig st) = defaultLogger (log_init d)"
  "lv_vars st = [] \<Longrightarrow> lv_vars (snd (log_New log_DefaultConfig st)) = lv_vars (log_init d)"
  by (simp_all add: log_New_def log_init_def log_DefaultConfig_def parseLevel_def lower_def Let_def)

lemma log_New_level:
  "lg_level (fst (log_New cfg st)) = length (lv_vars st)"
  "GetLevel (fst (log_New cfg st)) (snd (log_New cfg st)) = parseLevel (lc_Level cfg)"
  by (simp_all add: log_New_def GetLevel_def Let_def)

lemma With_level [simp]:
  "lg_level (Logger_With args l) = lg_level l" "lg_level (Logger_WithGroup name l) = lg_level l"
  "hd_Level (lg_Logger (Logger_With args l)) = hd_Level (lg_Logger l)"
  "hd_Level (lg_Logger (Logger_WithGroup name l)) = hd_Level (lg_Logger l)"
  by (simp_all add: Logger_With_def Logger_WithGroup_def slog_With_def slog_WithGroup_def)

definition log_inv :: "log_program \<Rightarrow> bool" where
  "log_inv p \<longleftrightarrow> (\<forall>l \<in> set (lp_loggers p). wf_logger (lp_state p) l)"

lemma log_step_inv: "log_step p e p' \<Longrightarrow> log_inv p \<Longrightarrow> log_inv p'"
  by (induction rule: log_step.induct)
    (auto simp: log_inv_def wf_logger_def log_New_def SetLevel_def SetLevelValue_def SetDefault_def slog_log_def Let_def
      less_Suc_eq)

lemma log_start_inv: "log_inv (log_start d)"
  by (simp add: log_start_def log_inv_def wf_logger_def log_init_def)

lemma log_runs_inv: "runs log_step (log_start d) es p \<Longrightarrow> log_inv p"
  by (erule runs_inv [where I = log_inv]) (auto intro: log_start_inv log_step_inv)

definition ex_slog :: slog_Logger where
  "ex_slog = \<lparr>hd_Format = Format_Text, hd_Output = 2, hd_AddSource = False, hd_Level = 0, hd_Scopes = []\<rparr>"

section \<open>Properties\<close>

text \<open>
  C39: The level of a logger governs what is written by every logger that shares it, and by no
  other. In every state a program can reach, after \<^verbatim>\<open>SetLevel\<close> on one logger a record of another is
  written exactly when it reaches the new level, if the two share their level variable, and
  exactly when it reaches the old level of its own otherwise. Loggers made by \<^verbatim>\<open>With\<close> and
  \<^verbatim>\<open>WithGroup\<close> share the variable, a logger made by \<^verbatim>\<open>New\<close> has its own.
\<close>

theorem set_level_governs:
  assumes "runs log_step (log_start d) es p" "l \<in> set (lp_loggers p)" "l' \<in> set (lp_loggers p)"
  shows "lv_written (slog_log lvl msg args (lg_Logger l') (SetLevel name l (lp_state p))) =
      lv_written (lp_state p) @
        (if (if lg_level l' = lg_level l then parseLevel name else GetLevel l' (lp_state p)) \<le> lvl
         then [\<lparr>le_Logger = lg_Logger l', le_Level = lvl, le_Msg = msg, le_Attrs = args\<rparr>] else []) \<and>
    lg_level (Logger_With as l) = lg_level l \<and> lg_level (Logger_WithGroup g l) = lg_level l \<and>
    lg_level (fst (log_New cfg (lp_state p))) \<noteq> lg_level l"
proof -
  have "wf_logger (lp_state p) l" "wf_logger (lp_state p) l'"
    using log_runs_inv [OF assms(1)] assms(2,3) by (auto simp: log_inv_def)
  then show ?thesis
    by (auto simp: wf_logger_def slog_log_def SetLevel_def GetLevel_def log_New_level)
qed

theorem set_level_governs_witness:
  "let l = defaultLogger (log_init ex_slog) in
   lv_written (slog_log LevelWarn ''m'' [] (lg_Logger l) (SetLevel ''WARNING'' l (log_init ex_slog))) =
     [\<lparr>le_Logger = lg_Logger l, le_Level = LevelWarn, le_Msg = ''m'', le_Attrs = []\<rparr>]"
proof -
  have "parseLevel ''WARNING'' = LevelWarn" by code_simp
  then show ?thesis
    using set_level_governs [OF runs.Nil [of log_step "log_start ex_slog"], of "defaultLogger (log_init ex_slog)"
        "defaultLogger (log_init ex_slog)" LevelWarn "''m''" "[]" "''WARNING''"]
    by (simp add: log_start_def Let_def) (simp add: log_init_def)
qed

end
