(* ===== verification/Metrics_Server.thy ===== *)
theory Metrics_Server
  imports App_Metrics
begin

text \<open>
  The rest of \<^verbatim>\<open>internal/metrics/prometheus.go\<close>: the HTTP server for the metrics, what it answers
  and how it is started; and that the collectors do not clash. \<^verbatim>\<open>net/http\<close> is used for its
  routes and for the error its server ends with; the text of the metrics comes from the
  Prometheus library and is an argument.
\<close>

section \<open>Definitions\<close>

definition http_ErrServerClosed :: go_error where
  [go_errs]: "http_ErrServerClosed = Sentinel ''http.ErrServerClosed'' ''http: Server closed''"

record http_Server =
  http_Addr :: string
  http_ReadTimeout :: duration
  http_WriteTimeout :: duration
  http_IdleTimeout :: duration

record metrics_Server =
  httpServer :: http_Server
  ms_address :: string

definition NewServer :: "string \<Rightarrow> metrics_Server" where
  "NewServer address =
    \<lparr>httpServer = \<lparr>http_Addr = address, http_ReadTimeout = 10 * time_Second, http_WriteTimeout = 10 * time_Second,
       http_IdleTimeout = 60 * time_Second\<rparr>,
     ms_address = address\<rparr>"

text \<open>
  The handler of \<^verbatim>\<open>NewServer\<close>: the status and the body for a path in canonical form. The two patterns have no
  trailing slash, so they match only themselves.
\<close>

definition mux :: "string \<Rightarrow> string \<Rightarrow> nat \<times> string" where
  "mux exposition path =
    (if path = ''/metrics'' then (200, exposition)
     else if path = ''/health'' then (200, ''OK'')
     else (404, ''404 page not found'' @ [char_of (10 :: nat)]))"

definition ms_Address :: "metrics_Server \<Rightarrow> string" where
  "ms_Address s = ms_address s"

text \<open>
  \<^verbatim>\<open>StartServer\<close>: \<open>ended\<close> is what \<^verbatim>\<open>Start\<close> returned in the first 100 milliseconds, if it did. A server
  that was closed reports nothing, so that the time-out comes.
\<close>

definition StartServer :: "string \<Rightarrow> go_error option \<Rightarrow> metrics_Server result" where
  "StartServer address ended =
    (let s = NewServer address
     in case ended of
          Some err \<Rightarrow>
            (if err \<noteq> http_ErrServerClosed
             then Inl (Errorf ''metrics server failed to start: '' err [])
             else Inr s)
        | None \<Rightarrow> Inr s)"

section \<open>Lemmas\<close>

lemma StartServer_Inr_iff:
  "StartServer address ended = Inr s \<longleftrightarrow> ended \<in> {None, Some http_ErrServerClosed} \<and> s = NewServer address"
  by (auto simp: StartServer_def Let_def split: option.splits if_splits)

text \<open>
  The collectors can be registered together: no two have the same namespace and name, and
  \<^verbatim>\<open>TestMetrics\<close> registers each exactly once. The isolated metrics for tests are created with the
  same options as those of the program.
\<close>

lemma collectors_distinct:
  "TestMetrics = metrics_New \<and> inj (\<lambda>m. collector_name (metrics_New m)) \<and>
   distinct TestMetrics_registered \<and> set TestMetrics_registered = UNIV"
proof (intro conjI)
  show "TestMetrics = metrics_New"
  proof
    fix m show "TestMetrics m = metrics_New m" by (cases m) simp_all
  qed
  have "m \<in> set TestMetrics_registered" for m
    by (cases m) (simp_all add: TestMetrics_registered_def)
  then show all: "set TestMetrics_registered = UNIV" by blast
  show "distinct TestMetrics_registered" by (simp add: TestMetrics_registered_def)
  have "distinct (map (\<lambda>m. collector_name (metrics_New m)) TestMetrics_registered)"
    by (simp add: TestMetrics_registered_def)
  then show "inj (\<lambda>m. collector_name (metrics_New m))"
    using all by (simp add: distinct_map)
qed

end
