(* ===== verification/Server_Main.thy ===== *)
theory Server_Main
  imports App_Config App_Logging Metrics_Server Pow_Difficulty Tcp_Server_Runs
begin

text \<open>
  \<^verbatim>\<open>cmd/server/main.go\<close>, the first half of \<^verbatim>\<open>main\<close>: how the program makes its parts from the
  environment.
\<close>

section \<open>Definitions\<close>

text \<open>\<^verbatim>\<open>uint8(n)\<close> keeps the low eight bits.\<close>

definition main_difficultyConfig :: "Config \<Rightarrow> DifficultyConfig" where
  "main_difficultyConfig cfg =
    \<lparr>dc_Base = word_of_int (cf_PowDifficulty cfg), dc_Min = word_of_int (cf_PowMinDifficulty cfg),
     dc_Max = word_of_int (cf_PowMaxDifficulty cfg), UpdateInterval = 10 * time_Second,
     ConnectionThresholdHigh = 5000, ConnectionThresholdMedium = 1000,
     RateThresholdHigh = Fin 100, RateThresholdMedium = Fin 50, CPUThreshold = f64_of_rat (8 / 10)\<rparr>"

text \<open>The fields that the literal of the rate limiter's configuration leaves out are zero.\<close>

definition main_serverConfig :: "Config \<Rightarrow> server_Config" where
  "main_serverConfig cfg =
    \<lparr>sc_Address = cf_ServerAddress cfg, sc_MaxConnections = cf_MaxConnections cfg,
     sc_GracefulTimeout = cf_GracefulTimeout cfg,
     sc_HandlerConfig =
       \<lparr>hc_ReadTimeout = cf_ReadTimeout cfg, hc_WriteTimeout = cf_WriteTimeout cfg, hc_IdleTimeout = cf_IdleTimeout cfg,
        hc_ChallengeTimeout = cf_ChallengeTimeout cfg, hc_MaxAttempts = cf_MaxAttemptsPerIP cfg,
        hc_Difficulty = word_of_int (cf_PowDifficulty cfg), hc_ClockSkew = cf_ClockSkewTolerance cfg\<rparr>,
     sc_RateLimitConfig =
       \<lparr>rl_Rate = cf_RateLimitRPS cfg, rl_Burst = cf_RateLimitBurst cfg, rl_CleanupInterval = 5 * time_Minute,
        rl_CleanupAge = 0, rl_MaxBuckets = 0, rl_ShardCount = 0\<rparr>\<rparr>"

definition main_loggerConfig :: "Config \<Rightarrow> log_Config" where
  "main_loggerConfig cfg =
    \<lparr>lc_Level = cf_LogLevel cfg, lc_Format = cf_LogFormat cfg, lc_Output = Some os_Stdout, lc_AddSource = False\<rparr>"

datatype main_end = Main_Panic string | Main_Exit int

record program =
  pg_logger :: Logger
  pg_metricsServer :: metrics_Server
  pg_difficultyManager :: difficultyManager
  pg_server :: Server

text \<open>
  \<^verbatim>\<open>main\<close> up to the creation of the server: it panics, it exits, or it has its parts. \<open>ended\<close> is what
  the metrics server ended with at once, if it did; the log is threaded through.
\<close>

definition main_setup ::
  "environment \<Rightarrow> go_error option \<Rightarrow> log_state \<Rightarrow> (main_end + program) \<times> log_state" where
  "main_setup env ended st =
    (case Load env of
       Inl err \<Rightarrow> (Inl (Main_Panic (''failed to load configuration: '' @ error_text err)), st)
     | Inr cfg \<Rightarrow>
        (case Config_Validate cfg of
           Some err \<Rightarrow> (Inl (Main_Panic (''configuration validation failed: '' @ error_text err)), st)
         | None \<Rightarrow>
            (let (logger, st) = log_New (main_loggerConfig cfg) st;
                 st = SetDefault logger st;
                 log = (\<lambda>lvl msg args. slog_log lvl msg args (lg_Logger logger));
                 st = log LevelInfo ''starting Word of Wisdom server''
                   [\<lparr>at_Key = ''version'', at_Value = Log_String ''1.0.0''\<rparr>,
                    \<lparr>at_Key = ''address'', at_Value = Log_String (cf_ServerAddress cfg)\<rparr>,
                    \<lparr>at_Key = ''metrics_address'', at_Value = Log_String (cf_MetricsAddress cfg)\<rparr>] st
             in case StartServer (cf_MetricsAddress cfg) ended of
                  Inl err \<Rightarrow> (Inl (Main_Exit 1), log LevelError ''failed to start metrics server'' [log_Err (error_text err)] st)
                | Inr metricsServer \<Rightarrow>
                   (let st = log LevelInfo ''metrics server started''
                          [\<lparr>at_Key = ''address'', at_Value = Log_String (cf_MetricsAddress cfg)\<rparr>] st
                    in case NewGenerator (cf_PowSecret cfg) of
                         Inl err \<Rightarrow> (Inl (Main_Exit 1), log LevelError ''failed to create PoW generator'' [log_Err (error_text err)] st)
                       | Inr generator \<Rightarrow>
                          (case NewVerifier \<lparr>vc_Secret = cf_PowSecret cfg, vc_ChallengeTimeout = cf_ChallengeTimeout cfg,
                                  vc_ClockSkew = cf_ClockSkewTolerance cfg\<rparr> of
                             Inl err \<Rightarrow> (Inl (Main_Exit 1), log LevelError ''failed to create PoW verifier'' [log_Err (error_text err)] st)
                           | Inr verifier \<Rightarrow>
                              (let difficultyManager = NewDifficultyManager (main_difficultyConfig cfg);
                                   quoteStore = NewMemoryStore [];
                                   srv = server_New (main_serverConfig cfg) generator verifier quoteStore
                               in (Inr \<lparr>pg_logger = logger, pg_metricsServer = metricsServer,
                                        pg_difficultyManager = difficultyManager, pg_server = srv\<rparr>, st)))))))"

section \<open>Lemmas\<close>

lemma Validate_None_iff:
  "Config_Validate c = None \<longleftrightarrow>
     32 \<le> length (cf_PowSecret c) \<and> cf_PowMinDifficulty c \<le> cf_PowDifficulty c \<and>
     cf_PowDifficulty c \<le> cf_PowMaxDifficulty c \<and>
     0 < cf_ReadTimeout c \<and> 0 < cf_WriteTimeout c \<and> 0 < cf_IdleTimeout c \<and> 0 < cf_ChallengeTimeout c \<and>
     0 < cf_GracefulTimeout c \<and> 0 < cf_MaxConnections c \<and>
     \<not> f64_le (cf_RateLimitRPS c) (Fin 0) \<and> 0 < cf_RateLimitBurst c \<and>
     cf_LogLevel c \<in> {''debug'', ''info'', ''warn'', ''error''} \<and> cf_LogFormat c \<in> {''json'', ''text''}"
  by (auto simp: Config_Validate_def)

text \<open>The program that a valid configuration gives.\<close>

definition program_of :: "Config \<Rightarrow> log_state \<Rightarrow> program" where
  "program_of cfg st =
    \<lparr>pg_logger = fst (log_New (main_loggerConfig cfg) st), pg_metricsServer = NewServer (cf_MetricsAddress cfg),
     pg_difficultyManager = NewDifficultyManager (main_difficultyConfig cfg),
     pg_server = server_New (main_serverConfig cfg) \<lparr>gen_secret = cf_PowSecret cfg\<rparr>
       \<lparr>ver_secret = cf_PowSecret cfg, challengeTimeout = cf_ChallengeTimeout cfg,
        clockSkew = (if cf_ClockSkewTolerance cfg = 0 then 30 * time_Second else cf_ClockSkewTolerance cfg)\<rparr>
       (NewMemoryStore [])\<rparr>"

lemma keys_of_valid:
  assumes "Config_Validate cfg = None"
  shows "NewGenerator (cf_PowSecret cfg) = Inr \<lparr>gen_secret = cf_PowSecret cfg\<rparr>"
    "NewVerifier \<lparr>vc_Secret = cf_PowSecret cfg, vc_ChallengeTimeout = cf_ChallengeTimeout cfg,
       vc_ClockSkew = cf_ClockSkewTolerance cfg\<rparr> =
     Inr \<lparr>ver_secret = cf_PowSecret cfg, challengeTimeout = cf_ChallengeTimeout cfg,
       clockSkew = (if cf_ClockSkewTolerance cfg = 0 then 30 * time_Second else cf_ClockSkewTolerance cfg)\<rparr>"
  using assms by (simp_all add: Validate_None_iff NewGenerator_def NewVerifier_def MinSecretLength_def)

lemma main_setup_Inr:
  "fst (main_setup env ended st) = Inr p \<longleftrightarrow>
     (\<exists>cfg. Load env = Inr cfg \<and> Config_Validate cfg = None \<and> ended \<in> {None, Some http_ErrServerClosed} \<and>
        p = program_of cfg st)"
proof (cases "Load env")
  case (Inr cfg)
  show ?thesis
  proof (cases "Config_Validate cfg")
    case None
    note keys = keys_of_valid [OF None]
    show ?thesis
    proof (cases "StartServer (cf_MetricsAddress cfg) ended")
      case Inl: (Inl err)
      then have "ended \<notin> {None, Some http_ErrServerClosed}"
        using StartServer_Inr_iff [of "cf_MetricsAddress cfg" ended "NewServer (cf_MetricsAddress cfg)"] by auto
      then show ?thesis using Inr None Inl by (simp add: main_setup_def Let_def split_beta)
    next
      case m: (Inr m)
      then have "ended \<in> {None, Some http_ErrServerClosed}" "m = NewServer (cf_MetricsAddress cfg)"
        by (simp_all add: StartServer_Inr_iff)
      then show ?thesis
        using Inr None m keys by (auto simp: main_setup_def program_of_def Let_def split_beta)
    qed
  next
    case (Some err)
    then show ?thesis using Inr by (simp add: main_setup_def)
  qed
qed (simp add: main_setup_def)

lemma slog_log_vars [simp]:
  "lv_vars (slog_log lvl msg args l st) = lv_vars st" "lv_vars (SetDefault logger st) = lv_vars st"
  by (simp_all add: slog_log_def SetDefault_def)

lemma main_setup_level:
  assumes "Load env = Inr cfg" "Config_Validate cfg = None" "ended \<in> {None, Some http_ErrServerClosed}"
  shows "GetLevel (pg_logger (program_of cfg st)) (snd (main_setup env ended st)) = parseLevel (cf_LogLevel cfg)"
proof -
  have "StartServer (cf_MetricsAddress cfg) ended = Inr (NewServer (cf_MetricsAddress cfg))"
    using assms(3) by (simp add: StartServer_Inr_iff)
  then show ?thesis
    using assms keys_of_valid [OF assms(2)] log_New_level(2) [of "main_loggerConfig cfg" st]
    by (simp add: main_setup_def program_of_def GetLevel_def main_loggerConfig_def Let_def split_beta)
qed

lemma main_setup_exit:
  assumes "Load env = Inr cfg" "Config_Validate cfg = None" "ended \<notin> {None, Some http_ErrServerClosed}"
  shows "fst (main_setup env ended st) = Inl (Main_Exit 1)"
proof (cases "StartServer (cf_MetricsAddress cfg) ended")
  case (Inr m)
  then show ?thesis using assms(3) by (simp add: StartServer_Inr_iff)
qed (use assms in \<open>simp add: main_setup_def Let_def split_beta\<close>)

text \<open>The parts of the program.\<close>

lemma program_of_parts:
  assumes "Config_Validate cfg = None" and p: "p = program_of cfg st"
  shows "sc_Address (sv_config (pg_server p)) = cf_ServerAddress cfg"
    "sc_GracefulTimeout (sv_config (pg_server p)) = cf_GracefulTimeout cfg"
    "NewGenerator (cf_PowSecret cfg) = Inr (h_generator (sv_handler (pg_server p)))"
    "NewVerifier \<lparr>vc_Secret = cf_PowSecret cfg, vc_ChallengeTimeout = cf_ChallengeTimeout cfg,
       vc_ClockSkew = cf_ClockSkewTolerance cfg\<rparr> = Inr (h_verifier (sv_handler (pg_server p)))"
    "h_quotes (sv_handler (pg_server p)) = NewMemoryStore []"
    "pool_max (sv_pool (pg_server p)) = cf_MaxConnections cfg"
    "h_config (sv_handler (pg_server p)) =
      \<lparr>hc_ReadTimeout = cf_ReadTimeout cfg, hc_WriteTimeout = cf_WriteTimeout cfg, hc_IdleTimeout = cf_IdleTimeout cfg,
       hc_ChallengeTimeout = cf_ChallengeTimeout cfg, hc_MaxAttempts = cf_MaxAttemptsPerIP cfg,
       hc_Difficulty = word_of_int (cf_PowDifficulty cfg), hc_ClockSkew = cf_ClockSkewTolerance cfg\<rparr>"
    "limiter_start (sc_RateLimitConfig (sv_config (pg_server p))) t0 =
      \<lparr>ls_limiter = sv_rateLimiter (pg_server p), ls_clock = t0, ls_loop = Loop_Running, ls_locks = Map.empty, ls_cleanup = None\<rparr>"
    "sv_rateLimiter (pg_server p) =
      \<lparr>shards = replicate 16 [], shardCount = 16, rate = cf_RateLimitRPS cfg, burst = cf_RateLimitBurst cfg,
       maxBuckets = 0, bucketCount = 0, rl_stopChan_closed = False, stopOnce_done = False,
       cleanupInterval = 5 * 60 * 10 ^ 9, cleanupAge = 0\<rparr>"
    "pg_difficultyManager p = NewDifficultyManager (main_difficultyConfig cfg)"
  using keys_of_valid [OF assms(1)] assms(1)
  by (simp_all add: p program_of_def server_New_def NewHandler_def NewPool_def main_serverConfig_def Let_def
      limiter_start_def ratelimit_New_def ticker_loop_def Validate_None_iff)

lemma parseLevel_names:
  "parseLevel ''debug'' = LevelDebug" "parseLevel ''info'' = LevelInfo" "parseLevel ''warn'' = LevelWarn"
  "parseLevel ''error'' = LevelError"
  by code_simp+

subsection \<open>Examples\<close>

text \<open>An environment with a secret of 32 bytes and one with an easy difficulty.\<close>

definition ex_env :: environment where
  "ex_env name = (if name = ''POW_SECRET'' then replicate 32 (CHR ''s'') else [])"

definition ex_env_easy :: environment where
  "ex_env_easy name =
    (if name = ''POW_SECRET'' then replicate 32 (CHR ''s'')
     else if name = ''POW_DIFFICULTY'' then ''10''
     else if name = ''POW_MIN_DIFFICULTY'' then ''1'' else [])"

definition ex_config :: Config where
  "ex_config = Defaults\<lparr>cf_PowSecret := string_bytes (replicate 32 (CHR ''s''))\<rparr>"

lemma ex_Load: "Load ex_env = Inr ex_config"
  by code_simp

lemma ex_Load_easy: "Load ex_env_easy = Inr (ex_config\<lparr>cf_PowDifficulty := 10, cf_PowMinDifficulty := 1\<rparr>)"
  by code_simp

lemma ex_valid:
  "Config_Validate ex_config = None"
  "Config_Validate (ex_config\<lparr>cf_PowDifficulty := 10, cf_PowMinDifficulty := 1\<rparr>) = None"
  by (simp_all add: Validate_None_iff ex_config_def Defaults_def)

lemma ex_setup:
  "fst (main_setup ex_env None (log_init ex_slog)) = Inr (program_of ex_config (log_init ex_slog))"
  using ex_Load ex_valid(1) by (simp add: main_setup_Inr)

lemma ex_setup_easy:
  "fst (main_setup ex_env_easy None (log_init ex_slog)) =
     Inr (program_of (ex_config\<lparr>cf_PowDifficulty := 10, cf_PowMinDifficulty := 1\<rparr>) (log_init ex_slog))"
  using ex_Load_easy ex_valid(2) by (simp add: main_setup_Inr)

section \<open>Properties\<close>



text \<open>
  C22: Which difficulties work. \<^verbatim>\<open>Validate\<close> accepts every difficulty between the configured bounds,
  and \<^verbatim>\<open>main\<close> keeps its low eight bits; a server that \<^verbatim>\<open>main\<close> has started can generate a challenge
  exactly when those are between 16 and 24.
\<close>

theorem main_difficulty_works_iff:
  assumes "fst (main_setup env ended st) = Inr p" "Load env = Inr cfg"
  shows "is_ok (Generate (h_generator (sv_handler (pg_server p))) (hc_Difficulty (h_config (sv_handler (pg_server p)))) now
      (Rand_Bytes f) (Rand_Bytes g)) \<longleftrightarrow> cf_PowDifficulty cfg mod 256 \<in> {16..24}"
proof -
  have "p = program_of cfg st" using assms by (auto simp: main_setup_Inr)
  then have "hc_Difficulty (h_config (sv_handler (pg_server p))) = word_of_int (cf_PowDifficulty cfg)"
    by (simp add: program_of_def server_New_def NewHandler_def main_serverConfig_def Let_def)
  moreover have "MinDifficulty \<le> (word_of_int n :: u8) \<and> word_of_int n \<le> MaxDifficulty \<longleftrightarrow> n mod 256 \<in> {16..24}" for n
    by (simp add: word_le_def uint_word_of_int MinDifficulty_def MaxDifficulty_def)
  ultimately show ?thesis by (simp add: Generate_ok_iff)
qed

theorem main_difficulty_works_iff_witness:
  "\<exists>p. fst (main_setup ex_env_easy None (log_init ex_slog)) = Inr p \<and>
     \<not> is_ok (Generate (h_generator (sv_handler (pg_server p))) (hc_Difficulty (h_config (sv_handler (pg_server p)))) 0
        (Rand_Bytes (\<lambda>_. 0)) (Rand_Bytes (\<lambda>_. 0)))"
  using main_difficulty_works_iff [OF ex_setup_easy ex_Load_easy, of 0 "\<lambda>_. 0" "\<lambda>_. 0"] ex_setup_easy by simp

end
