(* ===== verification/Server_Main_Runs.thy ===== *)
theory Server_Main_Runs
  imports Server_Main
begin

text \<open>
  \<^verbatim>\<open>cmd/server/main.go\<close>, the second half of \<^verbatim>\<open>main\<close>: the goroutines of the program, which are the server,
  the update loop of the difficulty manager, the publication of the difficulty, and \<^verbatim>\<open>main\<close> itself,
  whose return ends them all. The executions of the program project to those of the server
  and of the difficulty manager.
\<close>

section \<open>Definitions\<close>

text \<open>
  What the update loop of the difficulty manager is given about the server, from the loads of
  \<^verbatim>\<open>Stats\<close>.
\<close>

definition main_gather :: "(nat \<Rightarrow> Server) \<Rightarrow> int \<times> f64 \<times> f64" where
  "main_gather load =
    (let stats = Server_Stats load;
         connRate = f64_div (f64_of_int (st_ActiveConnections stats)) (Fin 10);
         cpuLoad = Fin (1 / 2)
     in (st_ActiveConnections stats, connRate, cpuLoad))"

subsection \<open>The running program\<close>

text \<open>
  \<^verbatim>\<open>main\<close> waits for a signal or an error of the server, cancels the context, shuts the metrics
  server down and runs its deferred calls. The server is absent until it listens.
\<close>

datatype main_pc = Mn_Waiting | Mn_Cancel | Mn_MetricsShutdown | Mn_Deferred | Mn_Returned

record main_system =
  mn_pc :: main_pc
  mn_program :: program
  mn_server :: "server_system option"
  mn_dm :: dm_system
  mn_startReturned :: bool
  mn_errChan :: "go_error option"
  mn_publishing :: bool
  mn_gauge :: "metric_call list"

datatype main_event =
    Mn_Listen "string result" instant | Mn_Server server_event | Mn_StartReturn "go_error option"
  | Mn_Tick int f64 f64 | Mn_UpdateReturn | Mn_Publish | Mn_PublishReturn
  | Mn_Signal | Mn_Error | Mn_CancelContext | Mn_ShutdownMetrics "go_error option" | Mn_Defer

definition current_server :: "main_system \<Rightarrow> Server" where
  "current_server s = (case mn_server s of None \<Rightarrow> pg_server (mn_program s) | Some v \<Rightarrow> sy_server v)"

definition main_start :: "program \<Rightarrow> main_system" where
  "main_start p =
    \<lparr>mn_pc = Mn_Waiting, mn_program = p, mn_server = None,
     mn_dm = \<lparr>sys_dm = pg_difficultyManager p, sys_ctx_done = False,
              sys_loop = ticker_loop (UpdateInterval (dm_config (pg_difficultyManager p)))\<rparr>,
     mn_startReturned = False, mn_errChan = None, mn_publishing = True, mn_gauge = []\<rparr>"

text \<open>
  The steps. The context is cancelled by \<^verbatim>\<open>main\<close> only, and \<^verbatim>\<open>Start\<close> calls \<^verbatim>\<open>shutdown\<close> only after that.
  When \<^verbatim>\<open>main\<close> has returned, no goroutine makes another step. A tick of the update loop is a step
  at the instant at which \<^verbatim>\<open>Stats\<close> loads the active connections, the only number it uses.
\<close>

inductive main_step :: "main_system \<Rightarrow> main_event \<Rightarrow> main_system \<Rightarrow> bool" where
  Listen: "mn_pc s \<noteq> Mn_Returned \<Longrightarrow> mn_server s = None \<Longrightarrow> \<not> mn_startReturned s \<Longrightarrow>
     Start (Inr addr) (pg_server (mn_program s)) = (None, v) \<Longrightarrow>
     main_step s (Mn_Listen (Inr addr) now)
       (s\<lparr>mn_server := Some ((server_started addr now (pg_server (mn_program s)))\<lparr>sy_cancelled := sys_ctx_done (mn_dm s)\<rparr>)\<rparr>)"
| ListenError: "mn_pc s \<noteq> Mn_Returned \<Longrightarrow> mn_server s = None \<Longrightarrow> \<not> mn_startReturned s \<Longrightarrow>
     Start listen (pg_server (mn_program s)) = (Some err, v) \<Longrightarrow>
     main_step s (Mn_Listen listen now) (s\<lparr>mn_startReturned := True, mn_errChan := Some err\<rparr>)"
| Server: "mn_pc s \<noteq> Mn_Returned \<Longrightarrow> mn_server s = Some v \<Longrightarrow> e \<noteq> Sv_Cancel \<Longrightarrow>
     (e = Sv_Shutdown \<Longrightarrow> sy_cancelled v) \<Longrightarrow> server_step v e v' \<Longrightarrow>
     main_step s (Mn_Server e) (s\<lparr>mn_server := Some v'\<rparr>)"
| StartReturn: "mn_pc s \<noteq> Mn_Returned \<Longrightarrow> mn_server s = Some v \<Longrightarrow> sy_shutdown v = Sd_Finished \<Longrightarrow>
     \<not> mn_startReturned s \<Longrightarrow>
     main_step s (Mn_StartReturn err) (s\<lparr>mn_startReturned := True, mn_errChan := err\<rparr>)"
| Tick: "mn_pc s \<noteq> Mn_Returned \<Longrightarrow> load 3 = current_server s \<Longrightarrow> main_gather load = (n, f, cpu) \<Longrightarrow>
     dm_step True (mn_dm s) (Ev_Tick n f cpu) d \<Longrightarrow>
     main_step s (Mn_Tick n f cpu) (s\<lparr>mn_dm := d\<rparr>)"
| UpdateReturn: "mn_pc s \<noteq> Mn_Returned \<Longrightarrow> dm_step True (mn_dm s) Ev_Return d \<Longrightarrow>
     main_step s Mn_UpdateReturn (s\<lparr>mn_dm := d\<rparr>)"
| Publish: "mn_pc s \<noteq> Mn_Returned \<Longrightarrow> mn_publishing s \<Longrightarrow>
     main_step s Mn_Publish
       (s\<lparr>mn_gauge := mn_gauge s @ [metrics_SetDifficulty (uint (dm_Current (sys_dm (mn_dm s))))]\<rparr>)"
| PublishReturn: "mn_pc s \<noteq> Mn_Returned \<Longrightarrow> mn_publishing s \<Longrightarrow> sys_ctx_done (mn_dm s) \<Longrightarrow>
     main_step s Mn_PublishReturn (s\<lparr>mn_publishing := False\<rparr>)"
| Signal: "mn_pc s = Mn_Waiting \<Longrightarrow> main_step s Mn_Signal (s\<lparr>mn_pc := Mn_Cancel\<rparr>)"
| Error: "mn_pc s = Mn_Waiting \<Longrightarrow> mn_errChan s = Some err \<Longrightarrow>
     main_step s Mn_Error (s\<lparr>mn_pc := Mn_Cancel, mn_errChan := None\<rparr>)"
| CancelContext: "mn_pc s = Mn_Cancel \<Longrightarrow> dm_step True (mn_dm s) Ev_Cancel d \<Longrightarrow>
     main_step s Mn_CancelContext
       (s\<lparr>mn_pc := Mn_MetricsShutdown, mn_dm := d,
          mn_server := map_option (\<lambda>v. v\<lparr>sy_cancelled := True\<rparr>) (mn_server s)\<rparr>)"
| ShutdownMetrics: "mn_pc s = Mn_MetricsShutdown \<Longrightarrow>
     main_step s (Mn_ShutdownMetrics res) (s\<lparr>mn_pc := Mn_Deferred\<rparr>)"
| Defer: "mn_pc s = Mn_Deferred \<Longrightarrow> dm_step True (mn_dm s) Ev_Stop d \<Longrightarrow>
     main_step s Mn_Defer (s\<lparr>mn_pc := Mn_Returned, mn_dm := d\<rparr>)"

inductive_cases main_step_cases [elim]: "main_step s e s'"

section \<open>Lemmas\<close>

subsection \<open>The parts of the running program\<close>

lemma server_step_handler: "server_step v e v' \<Longrightarrow> sv_handler (sy_server v') = sv_handler (sy_server v)"
  by (induction rule: server_step.induct) (auto simp: set_conn_def record_result_def split: option.splits)

text \<open>The server inside the program is an execution of the server on its own.\<close>

definition server_follows :: "main_system \<Rightarrow> bool" where
  "server_follows s \<longleftrightarrow>
    (\<forall>v. mn_server s = Some v \<longrightarrow>
       (\<exists>es addr t0. runs server_step (server_started addr t0 (pg_server (mn_program s))) es v))"

lemma server_started_cancelled:
  "\<exists>es. runs server_step (server_started addr t0 srv) es ((server_started addr t0 srv)\<lparr>sy_cancelled := b\<rparr>)"
proof (cases b)
  case True
  then show ?thesis using runs_step [of server_step, OF server_step.Cancel] by auto
next
  case False
  then have "(server_started addr t0 srv)\<lparr>sy_cancelled := b\<rparr> = server_started addr t0 srv"
    by (simp add: server_started_def)
  then show ?thesis using runs.Nil [of server_step "server_started addr t0 srv"] by metis
qed

lemma server_follows_step: "main_step s e s' \<Longrightarrow> server_follows s \<Longrightarrow> server_follows s'"
proof (induction rule: main_step.induct)
  case (Listen s addr v now)
  then show ?case
    using server_started_cancelled [of addr now "pg_server (mn_program s)" "sys_ctx_done (mn_dm s)"]
    by (simp add: server_follows_def) blast
next
  case (Server s v e v')
  then show ?case by (fastforce simp: server_follows_def intro: runs.Snoc)
next
  case (CancelContext s d)
  then show ?case by (fastforce simp: server_follows_def intro: runs.Snoc server_step.Cancel)
qed (simp_all add: server_follows_def)

lemma mn_program_step: "main_step s e s' \<Longrightarrow> mn_program s' = mn_program s"
  by (induction rule: main_step.induct) simp_all

text \<open>The steps of the difficulty manager in the program are steps of the manager on its own.\<close>

fun dm_label :: "main_event \<Rightarrow> dm_event option" where
  "dm_label (Mn_Tick n f c) = Some (Ev_Tick n f c)"
| "dm_label Mn_UpdateReturn = Some Ev_Return"
| "dm_label Mn_CancelContext = Some Ev_Cancel"
| "dm_label Mn_Defer = Some Ev_Stop"
| "dm_label e = None"

interpretation dm_view: projection main_step "dm_step True" mn_dm dm_label
proof
  fix s e s'
  assume "main_step s e s'"
  then show "case dm_label e of None \<Rightarrow> mn_dm s' = mn_dm s | Some f \<Rightarrow> dm_step True (mn_dm s) f (mn_dm s')"
    by (induction rule: main_step.induct) simp_all
qed

lemma main_runs:
  assumes "runs main_step (main_start (program_of cfg st)) es s"
  shows "mn_program s = program_of cfg st" "server_follows s"
    "dm_inv (dc_defaults (main_difficultyConfig cfg)) (sys_dm (mn_dm s))"
proof -
  have start: "mn_program (main_start (program_of cfg st)) = program_of cfg st" "server_follows (main_start (program_of cfg st))"
    "dm_inv (dc_defaults (main_difficultyConfig cfg)) (sys_dm (mn_dm (main_start (program_of cfg st))))"
    by (simp_all add: main_start_def server_follows_def program_of_def NewDifficultyManager_inv)
  show "mn_program s = program_of cfg st"
    using runs_inv [OF assms, of "\<lambda>s. mn_program s = program_of cfg st"] start(1) mn_program_step by metis
  show "server_follows s" using runs_inv [OF assms, of server_follows] start(2) server_follows_step by blast
  show "dm_inv (dc_defaults (main_difficultyConfig cfg)) (sys_dm (mn_dm s))"
    using dm_runs_inv [OF dm_view.runs_view [OF assms] start(3)] .
qed

text \<open>What every reachable state of the program says of the current server.\<close>

lemma current_server_ok:
  assumes run: "runs main_step (main_start (program_of cfg st)) es s" and valid: "Config_Validate cfg = None"
  shows "sv_handler (current_server s) = sv_handler (pg_server (program_of cfg st))"
    "0 \<le> sv_activeConnections (current_server s)"
    "sv_activeConnections (current_server s) \<le> cf_MaxConnections cfg"
proof -
  let ?srv = "pg_server (program_of cfg st)"
  note main = main_runs [OF run]
  have max: "sc_MaxConnections (main_serverConfig cfg) = cf_MaxConnections cfg" "0 < cf_MaxConnections cfg"
    using valid by (simp_all add: main_serverConfig_def Validate_None_iff)
  have "sv_handler (current_server s) = sv_handler ?srv \<and> 0 \<le> sv_activeConnections (current_server s) \<and>
    sv_activeConnections (current_server s) \<le> cf_MaxConnections cfg"
  proof (cases "mn_server s")
    case None
    then have "current_server s = ?srv" using main(1) by (simp add: current_server_def)
    then show ?thesis using max by (simp add: program_of_def server_New_def Let_def)
  next
    case (Some v)
    then obtain fs addr t0 where v: "runs server_step (server_started addr t0 ?srv) fs v"
      using main(1,2) by (auto simp: server_follows_def)
    have "sv_handler (sy_server v) = sv_handler ?srv"
      using runs_inv [OF v, of "\<lambda>v. sv_handler (sy_server v) = sv_handler ?srv"] server_step_handler
      by (simp add: server_started_def Start_def program_of_def server_New_def Let_def)
    moreover have "0 \<le> sv_activeConnections (sy_server v) \<and> sv_activeConnections (sy_server v) \<le> cf_MaxConnections cfg"
      using active_bounded [OF v [unfolded program_of_def program.simps]] max by simp
    ultimately show ?thesis using Some by (simp add: current_server_def)
  qed
  then show "sv_handler (current_server s) = sv_handler ?srv"
    "0 \<le> sv_activeConnections (current_server s)"
    "sv_activeConnections (current_server s) \<le> cf_MaxConnections cfg" by blast+
qed

subsection \<open>The difficulty\<close>

lemma rate_exceeds:
  assumes "0 \<le> n" "n < 2 ^ 53" "0 \<le> k" "k < 2 ^ 40"
  shows "f64_less (Fin (of_int k)) (f64_div (f64_of_int n) (Fin 10)) \<longleftrightarrow> 10 * k < n"
proof -
  have n: "f64_of_int n = Fin (of_int n)" using assms by (simp add: f64_of_int_exact)
  have "f64_of_rat (of_int n / 10) = Fin (rnd (of_int n / 10))"
  proof (rule f64_of_rat_small)
    have "(of_int n :: rat) \<le> of_int (2 ^ 64)" using assms(2) by (subst of_int_le_iff) simp
    then show "\<bar>of_int n / 10\<bar> \<le> (2 ^ 64 :: rat)" using assms(1) by simp
  qed
  then have eq: "f64_less (Fin (of_int k)) (f64_div (f64_of_int n) (Fin 10)) \<longleftrightarrow> of_int k < rnd (of_int n / 10)"
    by (simp add: n)
  show ?thesis
  proof
    assume "10 * k < n"
    then have "(of_int (10 * k + 1) :: rat) \<le> of_int n" by (subst of_int_le_iff) simp
    then have "of_int (16 * k + 1) / 2 ^ 4 \<le> (of_int n / 10 :: rat)" by (simp add: field_simps)
    from rnd_mono [OF this] have "of_int (16 * k + 1) / 2 ^ 4 \<le> rnd (of_int n / 10)"
      using rnd_dyadic [of "16 * k + 1" 4] assms(3,4) by simp
    then show "f64_less (Fin (of_int k)) (f64_div (f64_of_int n) (Fin 10))" unfolding eq by simp
  next
    assume less: "f64_less (Fin (of_int k)) (f64_div (f64_of_int n) (Fin 10))"
    show "10 * k < n"
    proof (rule ccontr)
      assume "\<not> 10 * k < n"
      then have "(of_int n :: rat) \<le> of_int (10 * k)" by (subst of_int_le_iff) simp
      then have "of_int n / 10 \<le> (of_int k :: rat)" by simp
      from rnd_mono [OF this] have "rnd (of_int n / 10) \<le> of_int k"
        using rnd_of_int [of k] assms(3,4) by simp
      then show False using less unfolding eq by simp
    qed
  qed
qed

definition surge :: "int \<Rightarrow> int" where
  "surge n = (if n > 5000 then 4 else if n > 1000 then 3 else if n > 500 then 1 else 0)"

lemma cpu_placeholder: "\<not> f64_less (f64_of_rat (8 / 10)) (Fin (1 / 2))"
proof -
  have "f64_of_rat (8 / 10) = Fin (rnd (8 / 10))" by (rule f64_of_rat_small) simp
  moreover have "1 / 2 \<le> rnd (8 / 10)"
    using rnd_mono [of "1 / 2" "8 / 10"] rnd_dyadic [of 1 1] by simp
  ultimately show ?thesis by simp
qed

lemma main_adjustment:
  assumes "main_gather load = (n, f, c)" "0 \<le> n" "n < 2 ^ 53"
  shows "load_adjustment (dc_defaults (main_difficultyConfig cfg)) n f c = surge n"
proof -
  have f: "n = st_ActiveConnections (Server_Stats load)" "f = f64_div (f64_of_int n) (Fin 10)" "c = Fin (1 / 2)"
    using assms(1) by (auto simp: main_gather_def Let_def)
  have "f64_of_rat (8 / 10) \<noteq> Fin 0" using cpu_placeholder by auto
  then have "ConnectionThresholdHigh (dc_defaults (main_difficultyConfig cfg)) = 5000"
    "ConnectionThresholdMedium (dc_defaults (main_difficultyConfig cfg)) = 1000"
    "RateThresholdHigh (dc_defaults (main_difficultyConfig cfg)) = Fin 100"
    "RateThresholdMedium (dc_defaults (main_difficultyConfig cfg)) = Fin 50"
    "CPUThreshold (dc_defaults (main_difficultyConfig cfg)) = f64_of_rat (8 / 10)"
    by (simp_all add: dc_defaults_def dc_clamp_def dc_zero_defaults_def main_difficultyConfig_def Let_def)
  then show ?thesis
    using rate_exceeds [OF assms(2,3), of 100] rate_exceeds [OF assms(2,3), of 50] cpu_placeholder
    by (auto simp: load_adjustment_def surge_def f(2,3) Let_def)
qed

text \<open>Bounds that fit into eight bits and are not zero are kept as they are.\<close>

lemma main_dc_exact:
  assumes "1 \<le> cf_PowMinDifficulty cfg" "cf_PowMinDifficulty cfg \<le> cf_PowDifficulty cfg"
    "cf_PowDifficulty cfg \<le> cf_PowMaxDifficulty cfg" "cf_PowMaxDifficulty cfg \<le> 255"
  defines "c \<equiv> dc_defaults (main_difficultyConfig cfg)"
  shows "uint (dc_Min c) = cf_PowMinDifficulty cfg" "uint (dc_Base c) = cf_PowDifficulty cfg"
    "uint (dc_Max c) = cf_PowMaxDifficulty cfg"
proof -
  have byte: "uint (word_of_int n :: u8) = n" if "1 \<le> n" "n \<le> 255" for n
    using that by (simp add: uint_word_of_int)
  let ?c = "dc_zero_defaults (main_difficultyConfig cfg)"
  have "uint (dc_Min ?c) = cf_PowMinDifficulty cfg" "uint (dc_Base ?c) = cf_PowDifficulty cfg"
    "uint (dc_Max ?c) = cf_PowMaxDifficulty cfg"
    using byte [of "cf_PowMinDifficulty cfg"] byte [of "cf_PowDifficulty cfg"] byte [of "cf_PowMaxDifficulty cfg"] assms(1-4)
    by (auto simp: dc_zero_defaults_def main_difficultyConfig_def)
  moreover from this have "dc_clamp ?c = ?c"
    using assms(1-4) by (simp add: dc_clamp_def word_less_def)
  ultimately show "uint (dc_Min c) = cf_PowMinDifficulty cfg" "uint (dc_Base c) = cf_PowDifficulty cfg"
    "uint (dc_Max c) = cf_PowMaxDifficulty cfg"
    by (simp_all add: c_def dc_defaults_def)
qed

lemma main_tick:
  assumes run: "runs main_step (main_start (program_of cfg st)) es s" and valid: "Config_Validate cfg = None"
    and tick: "main_step s (Mn_Tick m f c) s'"
    and cfg: "1 \<le> cf_PowMinDifficulty cfg" "cf_PowMaxDifficulty cfg \<le> 255" "cf_MaxConnections cfg < 2 ^ 53"
    and n: "n = sv_activeConnections (current_server s)"
  shows "uint (dm_Current (sys_dm (mn_dm s'))) = min (cf_PowMaxDifficulty cfg) (cf_PowDifficulty cfg + surge n)"
proof -
  let ?c = "dc_defaults (main_difficultyConfig cfg)"
  note n_ok = current_server_ok(2,3) [OF run valid, folded n]
  have order: "cf_PowMinDifficulty cfg \<le> cf_PowDifficulty cfg" "cf_PowDifficulty cfg \<le> cf_PowMaxDifficulty cfg"
    using valid by (simp_all add: Validate_None_iff)
  obtain load where gather: "main_gather load = (n, f, c)"
    and dm: "sys_dm (mn_dm s') = dm_Update n f c (sys_dm (mn_dm s))"
    using tick
  proof (cases rule: main_step.cases)
    case (Tick load d)
    then have "m = n" using n by (simp add: main_gather_def Server_Stats_def Let_def)
    then show thesis using Tick by (intro that [of load]) (auto elim!: dm_step.cases)
  qed
  have inv: "dm_inv ?c (sys_dm (mn_dm s))" "dm_inv ?c (sys_dm (mn_dm s'))"
    using main_runs(3) [OF run] main_runs(3) [OF runs.Snoc [OF run tick]] .
  have conf: "dm_config (sys_dm (mn_dm s)) = ?c" using inv(1) by (simp add: dm_inv_def)
  have "uint (dc_Min ?c) = cf_PowMinDifficulty cfg" "uint (dc_Base ?c) = cf_PowDifficulty cfg"
    "uint (dc_Max ?c) = cf_PowMaxDifficulty cfg"
    using main_dc_exact [OF cfg(1) order cfg(2)] .
  moreover have "uint (dm_Current (sys_dm (mn_dm s'))) = uint (dm_current (sys_dm (mn_dm s')))"
    using unat_dm_Current [OF inv(2)] by (metis of_nat_unat)
  moreover have "0 \<le> surge n" by (simp add: surge_def)
  ultimately show ?thesis
    using order main_adjustment [OF gather] n_ok cfg(3) by (simp add: dm dm_Update_current conf max_absorb2)
qed

subsection \<open>An example\<close>

abbreviation ex_main_events :: "main_event list" where
  "ex_main_events \<equiv>
    [Mn_Listen (Inr '':8080'') 0, Mn_Server Sv_Continue, Mn_Server (Sv_Accept ''10.0.0.1:4711''),
     Mn_Server Sv_CountAccepted, Mn_Server Sv_Go]"

lemma ex_main_accepts:
  obtains s v where "runs main_step (main_start (program_of ex_config (log_init ex_slog))) ex_main_events s"
    "mn_pc s = Mn_Waiting" "mn_server s = Some v" "sy_conns v = {#Cn_Accepted ''10.0.0.1''#}" "sy_shutdown v = Sd_Idle"
proof -
  let ?p = "program_of ex_config (log_init ex_slog)"
  let ?s0 = "main_start ?p"
  let ?v1 = "(server_started '':8080'' 0 (pg_server (mn_program ?s0)))\<lparr>sy_cancelled := sys_ctx_done (mn_dm ?s0)\<rparr>"
  let ?v2 = "?v1\<lparr>sy_loop := Lp_Accept\<rparr>"
  let ?v3 = "?v2\<lparr>sy_loop := Lp_Got ''10.0.0.1:4711''\<rparr>"
  let ?v4 = "on_server (\<lambda>v. v\<lparr>sv_totalConnections := sv_totalConnections v + 1\<rparr>) (?v3\<lparr>sy_loop := Lp_Counted ''10.0.0.1:4711''\<rparr>)"
  let ?v5 = "on_server (\<lambda>v. v\<lparr>sv_wg := sv_wg v + 1\<rparr>)
     (?v4\<lparr>sy_loop := Lp_Top, sy_conns := add_mset (Cn_Accepted (extractIP ''10.0.0.1:4711'')) (sy_conns ?v4)\<rparr>)"
  let ?at = "\<lambda>v. ?s0\<lparr>mn_server := Some v\<rparr>"
  have ip: "extractIP ''10.0.0.1:4711'' = ''10.0.0.1''" by code_simp
  have s0: "mn_pc ?s0 = Mn_Waiting" "mn_server ?s0 = None" "\<not> mn_startReturned ?s0" "\<not> sys_ctx_done (mn_dm ?s0)"
    by (simp_all add: main_start_def)
  have v1: "sy_loop ?v1 = Lp_Top" "\<not> sy_cancelled ?v1" "\<not> sy_listenerClosed ?v1" "sy_conns ?v1 = {#}" "sy_shutdown ?v1 = Sd_Idle"
    using s0(4) by (simp_all add: server_started_def)
  have start: "Start (Inr '':8080'') (pg_server (mn_program ?s0)) = (None, snd (Start (Inr '':8080'') (pg_server (mn_program ?s0))))"
    by (simp add: main_start_def program_of_def server_New_def Start_def Let_def)
  have lift: "main_step (?at v) (Mn_Server e) (?at v')" if "server_step v e v'" "e \<noteq> Sv_Cancel" "e \<noteq> Sv_Shutdown" for v e v'
    using main_step.Server [of "?at v" v e v'] that s0(1) by simp
  have "main_step ?s0 (Mn_Listen (Inr '':8080'') 0) (?at ?v1)"
    using s0 by (intro main_step.Listen [OF _ _ _ start]) simp_all
  moreover have "server_step ?v1 Sv_Continue ?v2" by (rule server_step.Continue [OF v1(1,2)])
  then have "main_step (?at ?v1) (Mn_Server Sv_Continue) (?at ?v2)" by (rule lift) simp_all
  moreover have "server_step ?v2 (Sv_Accept ''10.0.0.1:4711'') ?v3" by (rule server_step.Accept) (use v1 in simp_all)
  then have "main_step (?at ?v2) (Mn_Server (Sv_Accept ''10.0.0.1:4711'')) (?at ?v3)" by (rule lift) simp_all
  moreover have "server_step ?v3 Sv_CountAccepted ?v4" by (rule server_step.CountAccepted) simp
  then have "main_step (?at ?v3) (Mn_Server Sv_CountAccepted) (?at ?v4)" by (rule lift) simp_all
  moreover have "server_step ?v4 Sv_Go ?v5" by (rule server_step.Go) simp
  then have "main_step (?at ?v4) (Mn_Server Sv_Go) (?at ?v5)" by (rule lift) simp_all
  ultimately have "runs main_step ?s0 ex_main_events (?at ?v5)" by (blast intro: runs_Cons runs.Nil)
  then show thesis by (rule that [of _ ?v5]) (use s0 v1 ip in simp_all)
qed

section \<open>Properties\<close>

text \<open>
  C21: The difficulty follows the load, but not in the server. In every state the program can
  reach, an update sets the manager's difficulty to the configured one plus 1 above 500, 3
  above 1000 and 4 above 5000 active connections, as loaded by that update, up to the configured
  maximum, and the active connections are never more than configured; the handler still issues its challenges with
  the configured difficulty.
\<close>

theorem difficulty_feedback:
  assumes made: "fst (main_setup env ended st) = Inr p" "Load env = Inr cfg"
    and run: "runs main_step (main_start p) es s" and tick: "main_step s (Mn_Tick m f c) s'"
    and cfg: "1 \<le> cf_PowMinDifficulty cfg" "cf_PowMaxDifficulty cfg \<le> 255" "cf_MaxConnections cfg < 2 ^ 53"
    and n: "n = sv_activeConnections (current_server s)"
  shows "uint (dm_Current (sys_dm (mn_dm s'))) =
      min (cf_PowMaxDifficulty cfg) (cf_PowDifficulty cfg + (if n > 5000 then 4 else if n > 1000 then 3 else if n > 500 then 1 else 0)) \<and>
    0 \<le> n \<and> n \<le> cf_MaxConnections cfg \<and>
    hc_Difficulty (h_config (sv_handler (current_server s'))) = word_of_int (cf_PowDifficulty cfg)"
proof -
  have valid: "Config_Validate cfg = None" and p: "p = program_of cfg st"
    using made by (auto simp: main_setup_Inr)
  note run = run [unfolded p]
  note run' = runs.Snoc [OF run tick]
  note n_ok = current_server_ok(2,3) [OF run valid, folded n]
  have "hc_Difficulty (h_config (sv_handler (current_server s'))) = word_of_int (cf_PowDifficulty cfg)"
    unfolding current_server_ok(1) [OF run' valid]
    by (simp add: program_of_def server_New_def NewHandler_def main_serverConfig_def Let_def)
  moreover have "uint (dm_Current (sys_dm (mn_dm s'))) = min (cf_PowMaxDifficulty cfg) (cf_PowDifficulty cfg + surge n)"
    by (rule main_tick [OF run valid tick cfg n])
  ultimately show ?thesis using n_ok by (simp add: surge_def)
qed

theorem difficulty_feedback_witness:
  "\<exists>n f c s'. main_step (main_start (program_of ex_config (log_init ex_slog))) (Mn_Tick n f c) s' \<and>
     uint (dm_Current (sys_dm (mn_dm s'))) = 20"
proof -
  let ?p = "program_of ex_config (log_init ex_slog)"
  let ?s = "main_start ?p"
  obtain n f c where gather: "main_gather (\<lambda>k. current_server ?s) = (n, f, c)" by (metis prod_cases3)
  have running: "sys_loop (mn_dm ?s) = Loop_Running"
    by (simp add: main_start_def program_of_def NewDifficultyManager_def dc_defaults_def dc_clamp_def
        dc_zero_defaults_def main_difficultyConfig_def ticker_loop_def Let_def)
  obtain s' where tick: "main_step ?s (Mn_Tick n f c) s'"
    using dm_step.Tick [OF running, of True n f c] main_step.Tick [OF _ refl gather] by (auto simp: main_start_def)
  have cfg: "cf_PowMinDifficulty ex_config = 16" "cf_PowMaxDifficulty ex_config = 24" "cf_PowDifficulty ex_config = 20"
      "cf_MaxConnections ex_config = 10000"
    by (simp_all add: ex_config_def Defaults_def)
  have "sv_activeConnections (current_server ?s) = 0"
    by (simp add: main_start_def current_server_def program_of_def server_New_def Let_def)
  with difficulty_feedback [OF ex_setup ex_Load runs.Nil tick _ _ _ refl] have "uint (dm_Current (sys_dm (mn_dm s'))) = 20"
    by (simp add: cfg)
  then show ?thesis using tick by blast
qed

text \<open>
  C20: The program does not wait for its connections. From every state it can reach while it waits
  for a signal, there is an execution in which \<^verbatim>\<open>main\<close> returns and no goroutine makes another step,
  while every connection of the server is where it was and \<^verbatim>\<open>shutdown\<close> has not moved.
\<close>

theorem main_abandons_connections:
  assumes made: "fst (main_setup env ended st) = Inr p" and run: "runs main_step (main_start p) es s"
    and wait: "mn_pc s = Mn_Waiting" and v: "mn_server s = Some v"
  shows "\<exists>fs s' v'. runs main_step s fs s' \<and> mn_pc s' = Mn_Returned \<and> (\<forall>e s''. \<not> main_step s' e s'') \<and>
    mn_server s' = Some v' \<and> sy_conns v' = sy_conns v \<and> sy_shutdown v' = sy_shutdown v \<and> sy_server v' = sy_server v"
proof -
  obtain cfg where p: "p = program_of cfg st" using made by (auto simp: main_setup_Inr)
  obtain m where m: "dm_Stop (sys_dm (mn_dm s)) = Some m"
    using dm_Stop_inv [OF main_runs(3) [OF run [unfolded p]]] by blast
  let ?d = "(mn_dm s)\<lparr>sys_ctx_done := True\<rparr>"
  let ?s1 = "s\<lparr>mn_pc := Mn_Cancel\<rparr>"
  let ?s2 = "?s1\<lparr>mn_pc := Mn_MetricsShutdown, mn_dm := ?d,
      mn_server := map_option (\<lambda>v. v\<lparr>sy_cancelled := True\<rparr>) (mn_server ?s1)\<rparr>"
  let ?s3 = "?s2\<lparr>mn_pc := Mn_Deferred\<rparr>"
  let ?s4 = "?s3\<lparr>mn_pc := Mn_Returned, mn_dm := ?d\<lparr>sys_dm := m\<rparr>\<rparr>"
  have "main_step s Mn_Signal ?s1" by (rule main_step.Signal [OF wait])
  moreover have "main_step ?s1 Mn_CancelContext ?s2"
    by (rule main_step.CancelContext) (use dm_step.Cancel [of True "mn_dm s"] in simp_all)
  moreover have "main_step ?s2 (Mn_ShutdownMetrics None) ?s3" by (rule main_step.ShutdownMetrics) simp
  moreover have "main_step ?s3 Mn_Defer ?s4"
    by (rule main_step.Defer) (use dm_step.Stop [of ?d m True] m in simp_all)
  ultimately have "runs main_step s [Mn_Signal, Mn_CancelContext, Mn_ShutdownMetrics None, Mn_Defer] ?s4"
    by (blast intro: runs_Cons runs.Nil)
  moreover have "\<not> main_step ?s4 e s''" for e s'' by (auto elim!: main_step.cases)
  moreover have "mn_server ?s4 = Some (v\<lparr>sy_cancelled := True\<rparr>)" "mn_pc ?s4 = Mn_Returned" using v by simp_all
  ultimately show ?thesis
    by (intro exI [of _ "[Mn_Signal, Mn_CancelContext, Mn_ShutdownMetrics None, Mn_Defer]"] exI [of _ ?s4]
        exI [of _ "v\<lparr>sy_cancelled := True\<rparr>"]) simp
qed

theorem main_abandons_connections_witness:
  "\<exists>es s v. runs main_step (main_start (program_of ex_config (log_init ex_slog))) es s \<and> mn_pc s = Mn_Returned \<and>
     mn_server s = Some v \<and> sy_conns v = {#Cn_Accepted ''10.0.0.1''#} \<and> sy_shutdown v = Sd_Idle"
proof (rule ex_main_accepts)
  fix s v
  assume run: "runs main_step (main_start (program_of ex_config (log_init ex_slog))) ex_main_events s"
    and s: "mn_pc s = Mn_Waiting" "mn_server s = Some v" "sy_conns v = {#Cn_Accepted ''10.0.0.1''#}" "sy_shutdown v = Sd_Idle"
  from main_abandons_connections [OF ex_setup run s(1,2)] show ?thesis
    using runs_append [OF run] s(3,4) by metis
qed

end
