(* ===== verification/Spec2Isabelle.thy ===== *)
theory Spec2Isabelle
  imports Pow_Properties Protocol_Message Rate_Limiter_Runs Conn_Pool Quote_Store Conn_Properties Client_App
    Tcp_Server_Runs Load_Live Server_Main_Runs
begin

text \<open>
  A verification library of the Word-of-Wisdom server: a TCP server that gives out quotes, and
  protects itself from floods of requests by a proof of work, a rate limiter and a bounded
  number of connections.

  \<^bold>\<open>The program.\<close> A client connects and sends REQUEST_CHALLENGE. The server answers with a
  challenge of 90 bytes: version, difficulty, time, random bytes, and an HMAC over them. The
  client searches for a counter such that the SHA-256 of the challenge and the counter starts
  with \<^verbatim>\<open>difficulty\<close> zero bits, and sends challenge and counter back. The server keeps nothing about
  a challenge: it checks version and difficulty, the HMAC, the age and the work, and sends a
  quote. Messages are framed by a length of two bytes and a type. A connection passes the rate
  limiter (token buckets per address, in shards) and the pool (a semaphore) before its handler
  runs. A manager computes a difficulty from the load. \<^verbatim>\<open>main\<close> builds all parts from environment
  variables, runs them as goroutines and ends them on a signal.

  \<^bold>\<open>The theories\<close>, with the files under \<^verbatim>\<open>src/\<close> they model:

  \<^item> \<^verbatim>\<open>Go_Prelude\<close>: what the code uses of Go: fixed-width integers as words, big-endian bytes, errors
    as values with \<^verbatim>\<open>errors.Is\<close>, durations and instants as integers of nanoseconds, readers and
    writers, tickers, and \<open>runs\<close>, the executions of a step relation.
    \<^verbatim>\<open>Go_Float\<close>: float64 as rationals with rounding to nearest even, infinities and NaN.
    \<^verbatim>\<open>Go_Codec\<close>: the interface of a codec (a locale: decoding is the inverse of encoding, and accepts
    exactly the buffers of one size), which the formats interpret.
    \<^verbatim>\<open>Go_Strconv\<close>: the parsers of numbers and durations, and how durations are printed.
    \<^verbatim>\<open>Go_World\<close>: what a connection, the clock, the random source and the context do to a goroutine,
    as an arbitrary environment.
  \<^item> \<^verbatim>\<open>Sha256\<close>, \<^verbatim>\<open>Sha256_Eval\<close>: SHA-256 and HMAC, written out from their standards, and their evaluation
    by the simplifier for the examples.
  \<^item> \<^verbatim>\<open>Pow_Types\<close>, \<^verbatim>\<open>Pow_Generator\<close>, \<^verbatim>\<open>Pow_Verifier\<close>, \<^verbatim>\<open>Pow_Solver\<close>, \<^verbatim>\<open>Pow_Difficulty\<close>: the files of \<^verbatim>\<open>internal/pow\<close>.
    \<^verbatim>\<open>Pow_Example\<close>: a challenge with its solution. \<^verbatim>\<open>Pow_Properties\<close>: the wire formats are exact in both
    directions; which solutions are accepted, and with which error the others are refused; the
    leading-zero test is a comparison with a power of two; an issued and solved challenge is
    accepted in its time window; the solvers find the least solution; the difficulty stays in
    its interval.
  \<^item> \<^verbatim>\<open>Protocol_Types\<close>, \<^verbatim>\<open>Protocol_Message\<close>: \<^verbatim>\<open>internal/protocol\<close>: framing, exactly which streams are read
    and what is consumed, round trips, error codes.
  \<^item> \<^verbatim>\<open>Rate_Limiter\<close>, \<^verbatim>\<open>Rate_Limiter_Runs\<close>: \<^verbatim>\<open>internal/ratelimit/limiter.go\<close>: the operations, then their
    concurrent executions, in which \<^verbatim>\<open>Allow\<close> and the clean-up hold the lock of one shard at a time and
    the checks and updates of the shared counter are steps of their own. The sequential operations
    are among these executions. The requests granted to an address are bounded by burst plus rate
    times time, plus a burst for every loss of its bucket, up to the rounding of float64; the
    bookkeeping is consistent, and the number of buckets exceeds its limit by less than the number
    of shards.
  \<^item> \<^verbatim>\<open>Conn_Pool\<close>: \<^verbatim>\<open>internal/server/pool.go\<close>, with the callers interleaved at their atomic operations.
  \<^item> \<^verbatim>\<open>Quote_Store\<close>: \<^verbatim>\<open>internal/quotes/store.go\<close>, with the loader over the bytes of the file: what
    it loads is a function of the lines between the newlines.
  \<^item> \<^verbatim>\<open>App_Metrics\<close>, \<^verbatim>\<open>Metrics_Server\<close>: \<^verbatim>\<open>internal/metrics/prometheus.go\<close>. \<^verbatim>\<open>App_Logging\<close>:
    \<^verbatim>\<open>internal/logging/logger.go\<close>, with the level variables that loggers share in a store.
    \<^verbatim>\<open>App_Config\<close>: \<^verbatim>\<open>internal/config/config.go\<close>: \<^verbatim>\<open>Load\<close> equals a declarative reading of the environment.
  \<^item> \<^verbatim>\<open>Conn_Handler\<close>: \<^verbatim>\<open>internal/server/handler.go\<close>, in the state monad over the connection.
    \<^verbatim>\<open>Conn_Protocol\<close>: its loop, an abstract machine of the protocol, and that every run of the handler
    is a run of the machine. \<^verbatim>\<open>Conn_Service\<close>, \<^verbatim>\<open>Conn_Properties\<close>: an honest client is served, a quote is
    sent only after an accepted solution, every reply is well-typed, and every connection is one
    request and a bounded number of attempts, with one answer each.
  \<^item> \<^verbatim>\<open>Tcp_Server\<close>, \<^verbatim>\<open>Tcp_Server_Runs\<close>: \<^verbatim>\<open>internal/server/server.go\<close>: the operations, and all goroutines of a
    started server as one step relation. Its executions project to those of the limiter and of
    the pool (a locale, interpreted for both), so their theorems hold inside the server; the
    counters are exact in every state, what \<^verbatim>\<open>Stats\<close> loads one after the other is within their
    values during the call, and a shutdown can always finish, in a bounded number of steps once
    the listener is closed.
  \<^item> \<^verbatim>\<open>Client_App\<close>: \<^verbatim>\<open>cmd/client/main.go\<close>: the client with its output and exit status, which is
    0 exactly for a complete exchange; the lines of \<^verbatim>\<open>-verbose\<close> change nothing else. \<^verbatim>\<open>Load_Test\<close>, \<^verbatim>\<open>Load_Report\<close>, \<^verbatim>\<open>Load_Main\<close>: \<^verbatim>\<open>cmd/loadtest/main.go\<close>: the
    request and the worker, the numbers of the reports, and \<^verbatim>\<open>main\<close> with all its goroutines: the final
    report is exact, the program ends, and its workers are spread over the ramp-up. \<^verbatim>\<open>Load_Live\<close>: the live report is not exact, by an execution.
  \<^item> \<^verbatim>\<open>Server_Main\<close>, \<^verbatim>\<open>Server_Main_Runs\<close>: \<^verbatim>\<open>cmd/server/main.go\<close>: the construction of all parts, and \<^verbatim>\<open>main\<close> with its
    goroutines as a step relation over those of the server and the difficulty manager.
  \<^item> This theory: the started program and the client program on the two ends of a connection.

  \<^bold>\<open>How it is modelled.\<close> A struct is a record, a method is a function on it, a result with an error
  is a sum. What the outside does is an argument: the bytes a peer sends and when a connection
  fails, each reading of the clock, each result of the random source, each look at a context,
  the iteration order of a map; theorems hold for all of them unless they name conditions.
  Goroutines are labelled step relations at the granularity of the atomic operations, locks and
  channel operations of the code, and theorems about them speak of every execution (\<open>runs\<close>). A
  panic is a value. Integers keep their width where they can wrap: uint8 difficulties, the
  uint64 counter, the int64 arithmetic of the age.

  \<^bold>\<open>Loops.\<close> All loops are total functions: the search for a counter with the distance to its limit as
  the measure, the loop of the handler with the input that is left. The loops that end only by what
  their environment does are step relations: the accept loop, the tickers and the workers of the
  load test, which are proved to end after cancellation by a weight that every step lowers. No
  fuel is used.

  \<^bold>\<open>Assumptions.\<close> SHA-256 has no assumption on it: theorems about security state what an accepted
  solution satisfies, not that it is hard to find. The monotonic clock does not go back in the
  executions of the limiter and the server. \<^verbatim>\<open>Accept\<close> returns \<^verbatim>\<open>net.ErrClosed\<close> on a closed listener, and
  on no other; a context with a timeout is not done before the timeout has passed; \<^verbatim>\<open>time.Sleep\<close> lasts
  at least as long as asked for. Constants like the burst are limited in some
  theorems to the integers float64 represents exactly.

  \<^bold>\<open>Not modelled.\<close> The log lines that the handler and the server write while running; the text of
  errors of the standard library; the parsing of command-line flags, whose values are arguments,
  and the banner and layout of the reports of the load test; the Prometheus library and \<^verbatim>\<open>net/http\<close>
  behind the calls that are modelled; the accept deadline, which only makes the accept loop look
  at its context.
\<close>

section \<open>Definitions\<close>

text \<open>
  The two ends of one connection after the fact: each end has received what the other sent.
  Both start with nothing sent.
\<close>

definition connected :: "session \<Rightarrow> session \<Rightarrow> client \<Rightarrow> client \<Rightarrow> bool" where
  "connected s s' w w' \<longleftrightarrow> w_sent s = [] \<and> w_sent w = [] \<and>
     rd_data (w_reader s) = w_sent w' \<and> rd_data (w_reader w) = w_sent s'"

definition ex_client :: client where
  "ex_client =
    \<lparr>w_reader = \<lparr>rd_data = frame_of (NewChallenge (Challenge_Marshal ex_challenge)) @ frame_of (NewQuote DefaultQuote),
                 rd_err = io_EOF\<rparr>,
     w_writes = (\<lambda>k. (if k = 0 then 3 else 101, None)), w_deadlines = (\<lambda>_. None), w_clock = (\<lambda>_. ex_time),
     w_rand = (\<lambda>_. Rand_Bytes (\<lambda>_. 0)), w_randint = (\<lambda>_. Rand_Int_Value 0), w_ctx = (\<lambda>_. None),
     n_writes = 0, n_deadlines = 0, n_clock = 0, n_rand = 0, n_randint = 0, n_ctx = 0,
     w_sent = [], w_readDeadline = None, w_writeDeadline = None, w_metrics = [], w_trace = [], cl_stdout = [],
     cl_stderr = []\<rparr>"

definition ex_addr :: string where "ex_addr = ''localhost:8080''"

section \<open>Lemmas\<close>

text \<open>
  The order of events on a connection, from the equations between what is sent and what is
  received: the request reaches the server, so the challenge reaches the client, so the
  solution reaches the server.
\<close>

lemma challenge_arrives:
  assumes "smooth s" "Handle h s = (err, s')" "w_sent s = []"
    and rd: "rd_data (w_reader s) = frame_of NewRequestChallenge @ x"
    and gen: "Generate (h_generator h) (hc_Difficulty (h_config h)) (w_clock s (n_clock s + 1))
      (w_rand s (n_rand s)) (w_rand s (n_rand s + 1)) = Inr c"
    and w: "w_writes s (n_writes s) = (93, None)"
  shows "\<exists>y. w_sent s' = frame_of (NewChallenge (Challenge_Marshal c)) @ y"
proof -
  obtain s0 where h: "Handle h s = handle_loop h s0" and s0: "smooth s0" "cc_state s0 = stateConnected"
      "w_sent s0 = w_sent s" "n_clock s0 = n_clock s + 1" "n_writes s0 = n_writes s"
      "n_rand s0 = n_rand s" "outside s0 = outside s"
    using assms(1) by (auto simp: Handle_def newConnectionContext_def io_defs Let_def smooth_def outside_def)
  then have out: "w_reader s0 = w_reader s" "w_clock s0 = w_clock s" "w_writes s0 = w_writes s" "w_rand s0 = w_rand s"
    by (simp_all add: outside_def)
  show ?thesis
  proof (rule request_round [of s0 x h c])
    fix s1
    assume "handle_loop h s0 = handle_loop h s1" "w_sent s1 = w_sent s0 @ frame_of (NewChallenge (Challenge_Marshal c))"
    then show ?thesis
      using handle_loop_only_adds [of h s1 err s'] h assms(2,3) s0 by (auto elim: prefixE)
  qed (use s0 out rd gen w in simp_all)
qed

lemma solution_arrives:
  assumes run: "run_state (client_run False addr None ctx timeout) w = (err, w')" and w: "w_sent w = []"
    and rd: "rd_data (w_reader w) = frame_of (NewChallenge (Challenge_Marshal c)) @ y"
    and c: "wf_challenge c" and sol: "Solve NewSolver ctx c = Inr sol"
    and wr: "w_writes w (n_writes w) = (3, None)" "w_writes w (n_writes w + 1) = (101, None)"
  obtains w5 where "w_sent w' = frame_of NewRequestChallenge @ frame_of (NewSolution (Solution_Marshal sol))"
    "run_state (client_readQuote False) w5 = (err, w')" "rd_data (w_reader w5) = y" "cl_stdout w5 = cl_stdout w"
proof (rule client_requests [OF wr(1), of addr ctx timeout])
  fix w2
  assume w2: "run_state (client_run False addr None ctx timeout) w =
      run_state (State_Monad.bind conn_ReadMessage (client_solve False ctx)) w2"
    "w_reader w2 = w_reader w" "w_writes w2 = w_writes w" "n_writes w2 = n_writes w + 1"
    "w_sent w2 = w_sent w @ frame_of NewRequestChallenge" "cl_stdout w2 = cl_stdout w"
  then have "rd_data (w_reader w2) = frame_of (NewChallenge (Challenge_Marshal c)) @ y"
      "w_writes w2 (n_writes w2) = (101, None)"
    using rd wr(2) by simp_all
  from client_solves [OF this(1) c sol this(2)] obtain w5 where w5:
    "run_state (State_Monad.bind conn_ReadMessage (client_solve False ctx)) w2 = run_state (client_readQuote False) w5"
    "rd_data (w_reader w5) = y" "cl_stdout w5 = cl_stdout w2"
    "w_sent w5 = w_sent w2 @ frame_of (NewSolution (Solution_Marshal sol))" by metis
  note readQuote = run [unfolded w2(1) w5(1)]
  show thesis
    using that [of w5] w2(5,6) w5(2-4) client_readQuote_sent [of w5] w readQuote by simp
qed

text \<open>
  If the two ends of a working connection have run, each having received what the other sent,
  the server's verifier and generator share a secret, the client's search finds a solution
  and it arrives in the time window, then the client has printed the quote the server drew and
  both ends return without an error.
\<close>

lemma quote_delivered:
  assumes ends: "Handle h s = (es, s')" "run_state (client_run False addr None ctx timeout) w = (ec, w')" "connected s s' w w'"
    and keys: "NewGenerator secret = Inr (h_generator h)"
      "NewVerifier \<lparr>vc_Secret = secret, vc_ChallengeTimeout = T, vc_ClockSkew = S\<rparr> = Inr (h_verifier h)"
    and TS: "0 < T" "T < 2 ^ 22 * time_Second" "0 < S" "S < 2 ^ 22 * time_Second"
    and gen: "Generate (h_generator h) (hc_Difficulty (h_config h)) (w_clock s (n_clock s + 1))
      (w_rand s (n_rand s)) (w_rand s (n_rand s + 1)) = Inr c"
    and sol: "Solve NewSolver ctx c = Inr sol"
    and time: "0 \<le> w_clock s (n_clock s + 1)" "w_clock s (n_clock s + 1) \<le> w_clock s (n_clock s + 5)"
      "w_clock s (n_clock s + 5) < 2 ^ 62"
      "w_clock s (n_clock s + 5) div time_Second - w_clock s (n_clock s + 1) div time_Second
         \<le> T div time_Second + S div time_Second"
    and q: "q = Random (w_randint s (n_randint s)) (h_quotes h)" "fits (NewQuote q)"
    and io: "smooth s" "w_writes s (n_writes s) = (93, None)" "w_writes s (n_writes s + 1) = (Message_Size (NewQuote q), None)"
      "w_writes w (n_writes w) = (3, None)" "w_writes w (n_writes w + 1) = (101, None)"
  shows "es = None \<and> ec = None \<and> cl_stdout w' = cl_stdout w @ [q] \<and> cc_state s' = stateCompleted"
proof -
  have conn: "w_sent s = []" "w_sent w = []" "rd_data (w_reader s) = w_sent w'" "rd_data (w_reader w) = w_sent s'"
    using ends(3) by (simp_all add: connected_def)
  have c: "wf_challenge c" "wf_solution sol"
    using Generate_Inr [OF gen] Solve_Inr_iff [of NewSolver ctx c sol] sol by (simp_all add: wf_solution_def found_from_def)
  have "Verify (h_verifier h) (w_clock s (n_clock s + 5)) sol = None"
    using accepted_in_window [OF keys TS gen sol time] .
  note served = Handle_served [OF io(1) c(2) _ gen this q io(2,3)]
  obtain x where "rd_data (w_reader s) = frame_of NewRequestChallenge @ x"
    using client_sends_request [OF io(4) ends(2)] conn by auto
  from challenge_arrives [OF io(1) ends(1) conn(1) this gen io(2)]
  obtain y where y: "rd_data (w_reader w) = frame_of (NewChallenge (Challenge_Marshal c)) @ y" using conn by auto
  obtain w5 where w5: "w_sent w' = frame_of NewRequestChallenge @ frame_of (NewSolution (Solution_Marshal sol))"
    "run_state (client_readQuote False) w5 = (ec, w')" "rd_data (w_reader w5) = y" "cl_stdout w5 = cl_stdout w"
    by (rule solution_arrives [OF ends(2) conn(2) y c(1) sol io(4,5)])
  show ?thesis
  proof (rule served [of "[]"])
    fix s2
    assume s2: "Handle h s = (None, s2)" "cc_state s2 = stateCompleted"
      "w_sent s2 = w_sent s @ frame_of (NewChallenge (Challenge_Marshal c)) @ frame_of (NewQuote q)"
    then have "y = frame_of (NewQuote q)" using y conn ends(1) by simp
    then obtain w6 where "run_state (client_readQuote False) w5 = (None, w6)" "cl_stdout w6 = cl_stdout w5 @ [q]"
      using client_readQuote_ok [of w5 q "[]"] w5(3) q(2) by auto
    then show ?thesis using w5 s2 ends(1) by simp
  qed (use w5 conn in simp)
qed

lemma served_keys:
  assumes "fst (main_setup env ended st) = Inr p" "Load env = Inr cfg"
  defines "h \<equiv> sv_handler (pg_server p)"
  shows "NewGenerator (cf_PowSecret cfg) = Inr (h_generator h)"
    "NewVerifier \<lparr>vc_Secret = cf_PowSecret cfg, vc_ChallengeTimeout = cf_ChallengeTimeout cfg,
       vc_ClockSkew = cf_ClockSkewTolerance cfg\<rparr> = Inr (h_verifier h)"
    "Random r (h_quotes h) = DefaultQuote" "0 < cf_ChallengeTimeout cfg"
    "hc_Difficulty (h_config h) = word_of_int (cf_PowDifficulty cfg)"
proof -
  have valid: "Config_Validate cfg = None" and p: "p = program_of cfg st"
    using assms(1,2) by (auto simp: main_setup_Inr)
  show "NewGenerator (cf_PowSecret cfg) = Inr (h_generator h)"
    "NewVerifier \<lparr>vc_Secret = cf_PowSecret cfg, vc_ChallengeTimeout = cf_ChallengeTimeout cfg,
       vc_ClockSkew = cf_ClockSkewTolerance cfg\<rparr> = Inr (h_verifier h)"
    "Random r (h_quotes h) = DefaultQuote" "0 < cf_ChallengeTimeout cfg"
    "hc_Difficulty (h_config h) = word_of_int (cf_PowDifficulty cfg)"
    using keys_of_valid [OF valid] valid
    by (simp_all add: h_def p program_of_def server_New_def NewHandler_def NewMemoryStore_def Random_def
        main_serverConfig_def Validate_None_iff Let_def)
qed

text \<open>An environment with the secret and the difficulty of the example.\<close>

definition ex_env_served :: environment where
  "ex_env_served name =
    (if name = ''POW_SECRET'' then ''this-is-exactly-32-byte-secret!!'' else if name = ''POW_DIFFICULTY'' then ''16'' else [])"

definition ex_config_served :: Config where
  "ex_config_served = Defaults\<lparr>cf_PowSecret := ex_secret, cf_PowDifficulty := 16\<rparr>"

lemma ex_Load_served: "Load ex_env_served = Inr ex_config_served"
  by code_simp

lemma ex_setup_served:
  "fst (main_setup ex_env_served None (log_init ex_slog)) = Inr (program_of ex_config_served (log_init ex_slog))"
  using ex_Load_served
  by (simp add: main_setup_Inr Validate_None_iff) (simp add: ex_config_served_def Defaults_def ex_secret_def)

definition ex_main_handler :: Handler where
  "ex_main_handler = sv_handler (pg_server (program_of ex_config_served (log_init ex_slog)))"

lemma ex_main_handler_parts:
  "h_generator ex_main_handler = h_generator ex_handler" "h_verifier ex_main_handler = h_verifier ex_handler"
  "h_quotes ex_main_handler = h_quotes ex_handler" "hc_Difficulty (h_config ex_main_handler) = hc_Difficulty (h_config ex_handler)"
  by (simp_all add: ex_main_handler_def program_of_def server_New_def NewHandler_def main_serverConfig_def ex_config_served_def
      Defaults_def ex_handler_def ex_generator_def ex_verifier_def Let_def)

lemma ex_client_io:
  "w_writes ex_client (n_writes ex_client) = (3, None)" "w_writes ex_client (n_writes ex_client + 1) = (101, None)"
  "w_sent ex_client = []" "cl_stdout ex_client = []"
  "rd_data (w_reader ex_client) = frame_of (NewChallenge (Challenge_Marshal ex_challenge)) @ frame_of (NewQuote DefaultQuote)"
  by (simp_all add: ex_client_def)

lemma ex_client_exits:
  obtains code w' where
    "run_state (client_main False ex_addr None (\<lambda>_. None) (60 * time_Second)) ex_client = (code, w')"
    "w_sent w' = frame_of NewRequestChallenge @ frame_of (NewSolution (Solution_Marshal ex_solution))"
proof -
  obtain code w' where w': "run_state (client_main False ex_addr None (\<lambda>_. None) (60 * time_Second)) ex_client = (code, w')"
    by (metis prod.exhaust)
  obtain ec w1 where w1: "run_state (client_run False ex_addr None (\<lambda>_. None) (60 * time_Second)) ex_client = (ec, w1)"
    by (metis prod.exhaust)
  have "w_sent w1 = frame_of NewRequestChallenge @ frame_of (NewSolution (Solution_Marshal ex_solution))"
    by (rule solution_arrives [OF w1 ex_client_io(3,5) ex_challenge_wf Solve_example ex_client_io(1,2)])
  moreover have "w_sent w' = w_sent w1" using w1 by (auto intro: client_main_cases [OF w'])
  ultimately show thesis using that w' by simp
qed

lemma ex_client_prints:
  obtains w' where
    "run_state (client_main False ex_addr None (\<lambda>_. None) (60 * time_Second)) ex_client = (0, w')"
    "cl_stdout w' = [DefaultQuote]"
proof -
  obtain w2 where w2: "run_state (client_run False ex_addr None (\<lambda>_. None) (60 * time_Second)) ex_client =
      run_state (State_Monad.bind conn_ReadMessage (client_solve False (\<lambda>_. None))) w2"
    "w_reader w2 = w_reader ex_client" "w_writes w2 = w_writes ex_client" "n_writes w2 = n_writes ex_client + 1"
    "cl_stdout w2 = cl_stdout ex_client"
    by (rule client_requests [OF ex_client_io(1)])
  have io: "rd_data (w_reader w2) = frame_of (NewChallenge (Challenge_Marshal ex_challenge)) @ frame_of (NewQuote DefaultQuote)"
      "w_writes w2 (n_writes w2) = (101, None)"
    using w2(2-4) ex_client_io(2,5) by simp_all
  obtain w5 where w5: "run_state (State_Monad.bind conn_ReadMessage (client_solve False (\<lambda>_. None))) w2 =
      run_state (client_readQuote False) w5"
    "rd_data (w_reader w5) = frame_of (NewQuote DefaultQuote)" "cl_stdout w5 = cl_stdout w2"
    by (rule client_solves [OF io(1) ex_challenge_wf Solve_example io(2)])
  obtain w6 where "run_state (client_readQuote False) w5 = (None, w6)" "cl_stdout w6 = cl_stdout w5 @ [DefaultQuote]"
    by (rule client_readQuote_ok [OF _ ex_quote(3), of w5 "[]"]) (use w5(2) in auto)
  then show thesis
    using that w2(1,5) w5(1,3) ex_client_io(4) by (simp add: client_main_def)
qed

section \<open>Properties\<close>



text \<open>
  C14: The exit status of the client program tells what happened. It is 0 exactly when the messages on
  the connection are a complete exchange: the request, a CHALLENGE that can be parsed, its
  solution and a QUOTE as the answer. Then the payload of that QUOTE is the one line printed, and
  the error output stays empty. In every other case it is 1, nothing is printed, and the error is
  the one line on the error output. With \<^verbatim>\<open>-verbose\<close>, the status, the messages exchanged and the
  error output are the same.
\<close>

theorem client_exit_status:
  assumes main: "run_state (client_main False addr dial ctx timeout) w = (code, w')"
  shows "(\<exists>es. client_wire w' = client_wire w @ es \<and>
      (code = 0 \<and> cl_stderr w' = cl_stderr w \<and>
         (\<exists>q. quote_exchange ctx es q \<and> cl_stdout w' = cl_stdout w @ [bytes_string (Payload q)]) \<or>
       code = 1 \<and> cl_stdout w' = cl_stdout w \<and> (\<nexists>q. quote_exchange ctx es q) \<and>
         (\<exists>e. fst (run_state (client_run False addr dial ctx timeout) w) = Some e \<and>
            cl_stderr w' = cl_stderr w @ [''Error: '' @ error_text e]))) \<and>
    (\<exists>out. run_state (client_main True addr dial ctx timeout) w = (code, w'\<lparr>cl_stdout := out\<rparr>))"
  using main
proof (cases rule: client_main_cases)
  case exits_0
  then show ?thesis
    using followsD [OF follows_run exits_0(1)] client_main_verbose [OF main, of True]
    by (simp add: client_outcome_def)
next
  case (exits_1 e w1)
  moreover have "client_wire w' = client_wire w1" using exits_1(3) by (simp add: client_wire_def)
  ultimately show ?thesis
    using followsD [OF follows_run exits_1(1)] client_main_verbose [OF main, of True]
    by (simp add: client_outcome_def)
qed

theorem client_exit_status_witness:
  "(\<exists>w' es q. run_state (client_main False ex_addr None (\<lambda>_. None) (60 * time_Second)) ex_client = (0, w') \<and>
      client_wire w' = client_wire ex_client @ es \<and> quote_exchange (\<lambda>_. None) es q \<and> cl_stdout w' = [DefaultQuote]) \<and>
   run_state (client_main False ex_addr (Some io_EOF) (\<lambda>_. None) time_Second) ex_client =
     (1, ex_client\<lparr>cl_stderr := [''Error: '' @ error_text (Errorf ''connect: '' io_EOF [])]\<rparr>) \<and>
   fst (run_state (client_main True ex_addr (Some io_EOF) (\<lambda>_. None) time_Second) ex_client) = 1"
proof -
  obtain w' where w': "run_state (client_main False ex_addr None (\<lambda>_. None) (60 * time_Second)) ex_client = (0, w')"
      "cl_stdout w' = [DefaultQuote]"
    by (rule ex_client_prints)
  have "run_state (client_main False ex_addr (Some io_EOF) (\<lambda>_. None) time_Second) ex_client =
     (1, ex_client\<lparr>cl_stderr := [''Error: '' @ error_text (Errorf ''connect: '' io_EOF [])]\<rparr>)"
    by (simp add: client_main_def client_run_def ex_client_def)
  from this client_exit_status [OF this] w' client_exit_status [OF w'(1)] show ?thesis by auto
qed

end
